(* ===== verification/NstlPrelude.thy ===== *)
theory NstlPrelude
  imports Main "HOL-Library.Word" "HOL-Library.Multiset" "HOL-Library.Sublist"
begin

text \<open>
  The shared layer of the development: the machine types of the C++ sources, exceptions as
  values, the pieces of the C++ standard library that several components use (views searched by
  index, \<^verbatim>\<open>std::lexicographical_compare\<close>), and the generic lemmas on lists, bits and strict
  orders that carry the component proofs.
\<close>

unbundle bit_operations_syntax

section \<open>Machine types\<close>

type_synonym u8 = "8 word"
type_synonym u16 = "16 word"
type_synonym u64 = "64 word"
type_synonym dword = "32 word"

text \<open>A byte of a \<^verbatim>\<open>std::string\<close> is a \<open>char\<close>, a byte of an array of \<^verbatim>\<open>std::uint8_t\<close> is an
  \<open>u8\<close>. A nullable C string \<^verbatim>\<open>const char*\<close> is \<open>None\<close> for \<^verbatim>\<open>nullptr\<close> and the bytes before its
  terminator otherwise.\<close>

type_synonym cstring = "string option"

text \<open>Signal numbers.\<close>

abbreviation (input) "SIGINT \<equiv> (2 :: int)"
abbreviation (input) "SIGQUIT \<equiv> (3 :: int)"
abbreviation (input) "SIGTERM \<equiv> (15 :: int)"

section \<open>Exceptions as values\<close>

text \<open>
  A function that may throw returns a sum: \<open>Inl\<close> carries the thrown object, \<open>Inr\<close> the result.
  The constructors are the exception classes the sources throw; the argument is the constant part
  of the message, without the \<^verbatim>\<open>file:line\<close> prefix and the values streamed into it. \<open>Undefined\<close>
  is not an exception: it marks an execution that C++ leaves undefined (a read through a dangling
  pointer or outside of an array), so that its absence can be stated.
\<close>

datatype exn =
    NstlException string
  | InvalidArgument string
  | OutOfRange string
  | LengthError string
  | RuntimeError string
  | BadAlloc
  | Undefined

type_synonym 'a result = "exn + 'a"

text \<open>\<^verbatim>\<open>NSTL2_THROW_EXCEPTION_IF(cond, detail)\<close>: throw when the condition holds, else go on.\<close>

definition throw_if :: "bool \<Rightarrow> exn \<Rightarrow> 'a result \<Rightarrow> 'a result" where
  "throw_if cond e k = (if cond then Inl e else k)"

text \<open>Sequencing of two statements of which the first may throw.\<close>

definition bind_result :: "'a result \<Rightarrow> ('a \<Rightarrow> 'b result) \<Rightarrow> 'b result" where
  "bind_result r f = (case r of Inl e \<Rightarrow> Inl e | Inr x \<Rightarrow> f x)"

named_theorems result_simps

lemma throw_if_simps [simp, result_simps]:
  "throw_if True e k = Inl e" "throw_if False e k = k"
  by (simp_all add: throw_if_def)

lemma throw_if_Inr [result_simps]: "throw_if c e k = Inr x \<longleftrightarrow> \<not> c \<and> k = Inr x"
  by (simp add: throw_if_def)

lemma throw_if_Inl: "throw_if c e k = Inl e' \<longleftrightarrow> c \<and> e' = e \<or> \<not> c \<and> k = Inl e'"
  by (auto simp: throw_if_def)

lemma bind_result_simps [simp, result_simps]:
  "bind_result (Inl e) f = Inl e" "bind_result (Inr x) f = f x"
  by (simp_all add: bind_result_def)

lemma bind_result_Inr [result_simps]:
  "bind_result r f = Inr y \<longleftrightarrow> (\<exists>x. r = Inr x \<and> f x = Inr y)"
  by (cases r) auto

lemma bind_result_Inl:
  "bind_result r f = Inl e \<longleftrightarrow> r = Inl e \<or> (\<exists>x. r = Inr x \<and> f x = Inl e)"
  by (cases r) auto

section \<open>Output streams\<close>

text \<open>A \<^verbatim>\<open>std::ostream\<close> is the text written to it and its fail bit; a failed stream takes no
  more output.\<close>

record ostream =
  os_text :: string
  os_fail :: bool

definition os_put :: "string \<Rightarrow> ostream \<Rightarrow> ostream" where
  "os_put t os = (if os_fail os then os else os\<lparr>os_text := os_text os @ t\<rparr>)"

definition os_setfail :: "ostream \<Rightarrow> ostream" where
  "os_setfail os = os\<lparr>os_fail := True\<rparr>"

section \<open>Searching a view\<close>

text \<open>\<^verbatim>\<open>view.find(ch)\<close>, \<^verbatim>\<open>view.find(ch, pos)\<close> and \<^verbatim>\<open>view.rfind(ch)\<close>; \<open>None\<close> is \<^verbatim>\<open>npos\<close>.\<close>

fun find_idx :: "'a \<Rightarrow> 'a list \<Rightarrow> nat option" where
  "find_idx c [] = None"
| "find_idx c (x # xs) = (if x = c then Some 0 else map_option Suc (find_idx c xs))"

definition find_from :: "'a \<Rightarrow> 'a list \<Rightarrow> nat \<Rightarrow> nat option" where
  "find_from c xs pos = map_option (\<lambda>i. pos + i) (find_idx c (drop pos xs))"

fun rfind_idx :: "'a \<Rightarrow> 'a list \<Rightarrow> nat option" where
  "rfind_idx c [] = None"
| "rfind_idx c (x # xs) =
     (case rfind_idx c xs of Some i \<Rightarrow> Some (Suc i) | None \<Rightarrow> if x = c then Some 0 else None)"

lemma find_idx_None [simp]: "find_idx c xs = None \<longleftrightarrow> c \<notin> set xs"
  by (induction xs) auto

lemma find_idx_Some:
  "find_idx c xs = Some i \<longleftrightarrow> i < length xs \<and> xs ! i = c \<and> c \<notin> set (take i xs)"
proof (induction xs arbitrary: i)
  case (Cons x xs)
  then show ?case by (cases i) auto
qed simp

lemma find_idx_append: "c \<notin> set xs \<Longrightarrow> find_idx c (xs @ c # ys) = Some (length xs)"
  by (induction xs) auto

lemma find_idx_nth: "distinct xs \<Longrightarrow> i < length xs \<Longrightarrow> find_idx (xs ! i) xs = Some i"
proof (induction xs arbitrary: i)
  case (Cons x xs)
  then show ?case by (cases i) auto
qed simp

lemma find_from_Some:
  assumes "find_from c xs pos = Some i"
  shows "pos \<le> i" "i < length xs" "xs ! i = c" "c \<notin> set (take (i - pos) (drop pos xs))"
  using assms by (auto simp: find_from_def find_idx_Some)

lemma find_from_decreases:
  "find_from c xs (Suc p) = Some q \<Longrightarrow> length xs - q < length xs - p"
  using find_from_Some(1,2) [of c xs "Suc p" q] by linarith

lemma find_from_0 [simp]: "find_from c xs 0 = find_idx c xs"
  by (simp add: find_from_def map_option.id[unfolded id_def])

lemma rfind_idx_None [simp]: "rfind_idx c xs = None \<longleftrightarrow> c \<notin> set xs"
  by (induction xs) (auto split: option.splits)

lemma rfind_idx_Some:
  "rfind_idx c xs = Some i \<Longrightarrow> i < length xs \<and> xs ! i = c \<and> c \<notin> set (drop (Suc i) xs)"
proof (induction xs arbitrary: i)
  case (Cons x xs)
  then show ?case
    by (auto split: option.splits if_splits)
qed simp

section \<open>Lexicographic comparison\<close>

text \<open>\<^verbatim>\<open>std::lexicographical_compare\<close>, which \<^verbatim>\<open>operator<\<close> of \<^verbatim>\<open>std::array\<close> is.\<close>

fun lex_less :: "'a::linorder list \<Rightarrow> 'a list \<Rightarrow> bool" where
  "lex_less xs [] = False"
| "lex_less [] (y # ys) = True"
| "lex_less (x # xs) (y # ys) = (x < y \<or> x = y \<and> lex_less xs ys)"

lemma lex_less_Nil1 [simp]: "lex_less [] ys \<longleftrightarrow> ys \<noteq> []"
  by (cases ys) auto

lemma lex_less_irrefl [simp]: "\<not> lex_less xs xs"
  by (induction xs) auto

lemma lex_less_trans: "lex_less xs ys \<Longrightarrow> lex_less ys zs \<Longrightarrow> lex_less xs zs"
proof (induction xs ys arbitrary: zs rule: lex_less.induct)
  case (3 x xs y ys)
  then show ?case by (cases zs) auto
qed auto

lemma lex_less_linear: "lex_less xs ys \<or> xs = ys \<or> lex_less ys xs"
  by (induction xs ys rule: lex_less.induct) auto

section \<open>Strict weak orders\<close>

text \<open>What an ordered container of the standard library asks of its comparator (the named
  requirement \<^verbatim>\<open>Compare\<close>): a strict order for which "neither is smaller" is an equivalence.\<close>

locale strict_weak =
  fixes less :: "'a \<Rightarrow> 'a \<Rightarrow> bool"
  assumes irrefl: "\<not> less x x"
    and trans: "less x y \<Longrightarrow> less y z \<Longrightarrow> less x z"
    and incomp_trans:
      "\<not> less x y \<Longrightarrow> \<not> less y x \<Longrightarrow> \<not> less y z \<Longrightarrow> \<not> less z y \<Longrightarrow> \<not> less x z \<and> \<not> less z x"
begin

lemma asym: "less x y \<Longrightarrow> \<not> less y x"
  using irrefl trans by blast

lemma less_equiv_trans:
  assumes "less x y" "\<not> less y z" "\<not> less z y"
  shows "less x z"
  using assms irrefl trans incomp_trans by blast

lemma equiv_less_trans:
  assumes "\<not> less x y" "\<not> less y x" "less y z"
  shows "less x z"
  using assms irrefl trans incomp_trans by blast

end

text \<open>A total strict order is one in which only equal keys are equivalent.\<close>

locale strict_total = strict_weak +
  assumes total: "\<not> less x y \<Longrightarrow> \<not> less y x \<Longrightarrow> x = y"
begin

lemma trichotomy: "less x y \<or> x = y \<or> less y x"
  using total by blast

end

lemma strict_total_lex_less: "strict_total (lex_less :: 'a::linorder list \<Rightarrow> 'a list \<Rightarrow> bool)"
proof unfold_locales
  fix xs ys zs :: "'a list"
  show "lex_less xs ys \<Longrightarrow> lex_less ys zs \<Longrightarrow> lex_less xs zs" by (rule lex_less_trans)
  show eq: "xs = ys" if "\<not> lex_less xs ys" "\<not> lex_less ys xs" for xs ys :: "'a list"
    using that lex_less_linear [of xs ys] by blast
  show "\<not> lex_less xs zs \<and> \<not> lex_less zs xs"
    if "\<not> lex_less xs ys" "\<not> lex_less ys xs" "\<not> lex_less ys zs" "\<not> lex_less zs ys"
    using that eq [of xs ys] eq [of ys zs] by simp
qed simp

lemma strict_weak_inv_image: "strict_weak r \<Longrightarrow> strict_weak (\<lambda>x y. r (f x) (f y))"
  unfolding strict_weak_def by blast

section \<open>Simulation of a reference\<close>

text \<open>Runs of a component as sequences of commands. \<open>run_cmds\<close> gives the final state and the commands
  that were not answered by an exception; \<open>replay\<close> carries out commands on a reference.\<close>

fun run_cmds :: "('c \<Rightarrow> 's \<Rightarrow> 's \<times> bool) \<Rightarrow> 'c list \<Rightarrow> 's \<Rightarrow> 's \<times> 'c list" where
  "run_cmds step [] s = (s, [])"
| "run_cmds step (c # cs) s =
     (case step c s of
        (s', ok) \<Rightarrow>
          (case run_cmds step cs s' of (s'', oks) \<Rightarrow> (s'', if ok then c # oks else oks)))"

fun replay :: "('c \<Rightarrow> 't \<Rightarrow> 't option) \<Rightarrow> 'c list \<Rightarrow> 't \<Rightarrow> 't option" where
  "replay ref [] t = Some t"
| "replay ref (c # cs) t = (case ref c t of None \<Rightarrow> None | Some t' \<Rightarrow> replay ref cs t')"

text \<open>The contract of such a component: every command keeps the invariant and what lies outside of the
  component (\<open>frame\<close>), a command that succeeds does what the reference does, and one that throws
  leaves the component as it was.\<close>

locale simulation =
  fixes inv :: "'s \<Rightarrow> bool" and abs :: "'s \<Rightarrow> 't" and frame :: "'s \<Rightarrow> 'f"
    and step :: "'c \<Rightarrow> 's \<Rightarrow> 's \<times> bool" and ref :: "'c \<Rightarrow> 't \<Rightarrow> 't option"
  assumes step_done: "\<lbrakk>inv s; step c s = (s', True)\<rbrakk> \<Longrightarrow>
      inv s' \<and> frame s' = frame s \<and> ref c (abs s) = Some (abs s')"
    and step_thrown: "\<lbrakk>inv s; step c s = (s', False)\<rbrakk> \<Longrightarrow> s' = s"
begin

lemma run_simulates:
  "\<lbrakk>inv s; run_cmds step cs s = (s', oks)\<rbrakk> \<Longrightarrow>
   inv s' \<and> frame s' = frame s \<and> replay ref oks (abs s) = Some (abs s')"
proof (induction cs arbitrary: s oks)
  case (Cons c cs)
  obtain s1 ok where s1: "step c s = (s1, ok)" by (meson surj_pair)
  obtain oks1 where r: "run_cmds step cs s1 = (s', oks1)" "oks = (if ok then c # oks1 else oks1)"
    using Cons.prems(2) s1 by (auto split: prod.splits)
  show ?case
  proof (cases ok)
    case True
    with step_done [of s c s1] Cons.prems(1) s1 Cons.IH [OF _ r(1)] r(2) show ?thesis by simp
  next
    case False
    with step_thrown [of s c s1] Cons.prems(1) s1 Cons.IH [OF _ r(1)] r(2) show ?thesis by simp
  qed
qed simp

end

section \<open>Bits of bytes\<close>

text \<open>The bits of a byte sequence in network order: byte by byte, the most significant first.\<close>

definition byte_bits :: "u8 \<Rightarrow> bool list" where
  "byte_bits w = map (\<lambda>k. bit w (7 - k)) [0..<8]"

definition bits_of :: "u8 list \<Rightarrow> bool list" where
  "bits_of ws = concat (map byte_bits ws)"

lemma length_byte_bits [simp]: "length (byte_bits w) = 8"
  by (simp add: byte_bits_def)

lemma length_bits_of [simp]: "length (bits_of ws) = 8 * length ws"
  by (induction ws) (simp_all add: bits_of_def)

lemma bits_of_simps [simp]:
  "bits_of [] = []" "bits_of (w # ws) = byte_bits w @ bits_of ws"
  by (simp_all add: bits_of_def)

lemma byte_bits_nth: "k < 8 \<Longrightarrow> byte_bits w ! k = bit w (7 - k)"
  by (simp add: byte_bits_def)

lemma byte_bits_list:
  "byte_bits w = [bit w 7, bit w 6, bit w 5, bit w 4, bit w 3, bit w 2, bit w 1, bit w 0]"
  by (simp add: byte_bits_def upt_rec)

lemma byte_bits_inject: "byte_bits v = byte_bits w \<longleftrightarrow> v = w"
proof
  assume eq: "byte_bits v = byte_bits w"
  show "v = w"
  proof (rule bit_word_eqI)
    fix n assume "n < LENGTH(8)"
    then have n: "n < 8" by simp
    have "byte_bits v ! (7 - n) = byte_bits w ! (7 - n)" using eq by simp
    then show "bit v n = bit w n" using n by (simp add: byte_bits_nth)
  qed
qed simp

lemma bits_of_inject: "length vs = length ws \<Longrightarrow> bits_of vs = bits_of ws \<longleftrightarrow> vs = ws"
  by (induction vs ws rule: list_induct2) (auto simp: byte_bits_inject)

end
