(* ===== verification/StringTools.thy ===== *)
theory StringTools
  imports NstlPrelude
begin

text \<open>
  String helpers: \<^verbatim>\<open>nstl/string.hpp\<close> (splitting, trimming, case-insensitive equality),
  \<^verbatim>\<open>nstl/safe_basename.hpp\<close>, \<^verbatim>\<open>nstl/secure_string.hpp\<close> (null-safe C string functions),
  \<^verbatim>\<open>nstl/range_print.hpp\<close> and \<^verbatim>\<open>nstl/args_editor.cpp\<close>. Character classification follows the
  "C" locale, the one a program starts in.
\<close>

section \<open>Definitions\<close>

subsection \<open>Character classes of the C library\<close>

definition code_of :: "char \<Rightarrow> nat" where
  "code_of c = of_char c"

text \<open>\<^verbatim>\<open>std::isspace\<close>: space, and the codes 9 to 13 (tab, line feed, vertical tab, form feed,
  carriage return).\<close>

definition is_space_ch :: "char \<Rightarrow> bool" where
  "is_space_ch ch = (code_of ch = 32 \<or> 9 \<le> code_of ch \<and> code_of ch \<le> 13)"

definition tolower_c :: "char \<Rightarrow> char" where
  "tolower_c ch = (if 65 \<le> code_of ch \<and> code_of ch \<le> 90 then char_of (code_of ch + 32) else ch)"

subsection \<open>string.hpp\<close>

text \<open>The loop of \<^verbatim>\<open>split_view_func\<close>. Its state is the start \<^verbatim>\<open>prev\<close> of the current item, the
  next delimiter \<^verbatim>\<open>pos\<close>, the state \<open>s\<close> the callback works on and the count \<^verbatim>\<open>retval\<close>.\<close>

function split_loop ::
    "(string \<Rightarrow> 's \<Rightarrow> 's) \<Rightarrow> bool \<Rightarrow> char \<Rightarrow> string \<Rightarrow> nat \<Rightarrow> nat option \<Rightarrow> 's \<Rightarrow> nat \<Rightarrow> nat \<times> 's \<times> nat"
where
  "split_loop func skip_empty delim view prev pos s retval =
     (case pos of
        None \<Rightarrow> (prev, s, retval)
      | Some p \<Rightarrow>
          (let item = (if p = prev then [] else take (p - prev) (drop prev view));
               next = find_from delim view (p + 1)
           in if skip_empty \<and> item = []
              then split_loop func skip_empty delim view (p + 1) next s retval
              else split_loop func skip_empty delim view (p + 1) next (func item s) (retval + 1)))"
  by pat_completeness auto
termination
proof (relation "measure (\<lambda>(func, skip, delim, view, prev, pos, s, retval).
    case pos of None \<Rightarrow> 0 | Some p \<Rightarrow> Suc (length view - p))", goal_cases)
  case 1
  show ?case by simp
next
  case (2 func skip delim view prev pos s retval p item nxt)
  then show ?case by (auto split: option.split dest: find_from_decreases)
next
  case (3 func skip delim view prev pos s retval p item nxt)
  then show ?case by (auto split: option.split dest: find_from_decreases)
qed

definition split_view_func ::
    "string \<Rightarrow> char \<Rightarrow> (string \<Rightarrow> 's \<Rightarrow> 's) \<Rightarrow> bool \<Rightarrow> 's \<Rightarrow> nat \<times> 's" where
  "split_view_func view delim func skip_empty s =
     (let (prev, s, retval) = split_loop func skip_empty delim view 0 (find_idx delim view) s 0;
          item = (if prev < length view then drop prev view else [])
      in if skip_empty \<and> item = [] then (retval, s) else (retval + 1, func item s))"

text \<open>The two trimming loops drop one character per round.\<close>

function right_trim_view :: "string \<Rightarrow> string" where
  "right_trim_view view =
     (if view \<noteq> [] \<and> is_space_ch (last view)
      then right_trim_view (take (length view - 1) view) else view)"
  by pat_completeness auto
termination
  by (relation "measure length") (auto simp: min_def not_le)

function left_trim_view :: "string \<Rightarrow> string" where
  "left_trim_view view =
     (if view \<noteq> [] \<and> is_space_ch (hd view) then left_trim_view (drop 1 view) else view)"
  by pat_completeness auto
termination
  by (relation "measure length") auto

declare split_loop.simps [simp del] right_trim_view.simps [simp del] left_trim_view.simps [simp del]

definition trim_view :: "string \<Rightarrow> string" where
  "trim_view view = right_trim_view (left_trim_view view)"

fun iequal_loop :: "string \<Rightarrow> string \<Rightarrow> bool" where
  "iequal_loop (l # left) (r # right) =
     (if tolower_c l \<noteq> tolower_c r then False else iequal_loop left right)"
| "iequal_loop _ _ = True"

definition iequal :: "string \<Rightarrow> string \<Rightarrow> bool" where
  "iequal left right = (if length left \<noteq> length right then False else iequal_loop left right)"

subsection \<open>safe_basename.hpp\<close>

definition path_sep :: char where
  "path_sep = CHR ''/''"

definition safe_basename_view :: "string \<Rightarrow> string" where
  "safe_basename_view filename =
     (case rfind_idx path_sep filename of None \<Rightarrow> filename | Some pos \<Rightarrow> drop (pos + 1) filename)"

subsection \<open>secure_string.hpp\<close>

definition nstl_strlen :: "cstring \<Rightarrow> nat" where
  "nstl_strlen ptr = (case ptr of Some s \<Rightarrow> length s | None \<Rightarrow> 0)"

text \<open>\<^verbatim>\<open>std::strcmp\<close> on the bytes before the terminators, compared as unsigned characters; the
  C standard fixes the sign of the result, and the model takes the values -1, 0 and 1.\<close>

fun std_strcmp :: "string \<Rightarrow> string \<Rightarrow> int" where
  "std_strcmp [] [] = 0"
| "std_strcmp [] (_ # _) = -1"
| "std_strcmp (_ # _) [] = 1"
| "std_strcmp (x # xs) (y # ys) =
     (if code_of x < code_of y then -1 else if code_of y < code_of x then 1 else std_strcmp xs ys)"

definition nstl_strcmp :: "cstring \<Rightarrow> cstring \<Rightarrow> int" where
  "nstl_strcmp left right =
     (case (left, right) of
        (Some l, Some r) \<Rightarrow> std_strcmp l r
      | (Some _, None) \<Rightarrow> -1
      | (None, Some _) \<Rightarrow> 1
      | (None, None) \<Rightarrow> 0)"

definition nstl_strncmp :: "cstring \<Rightarrow> cstring \<Rightarrow> nat \<Rightarrow> int" where
  "nstl_strncmp left right max_count =
     (case (left, right) of
        (Some l, Some r) \<Rightarrow> std_strcmp (take max_count l) (take max_count r)
      | (Some _, None) \<Rightarrow> -1
      | (None, Some _) \<Rightarrow> 1
      | (None, None) \<Rightarrow> 0)"

subsection \<open>range_print.hpp\<close>

text \<open>\<^verbatim>\<open>operator<<\<close> of \<^verbatim>\<open>Streamer\<close> and \<^verbatim>\<open>MapStreamer\<close>: the stream is the text written so far,
  \<open>pr\<close> renders one element.\<close>

fun streamer_loop :: "('a \<Rightarrow> string) \<Rightarrow> string \<Rightarrow> 'a list \<Rightarrow> string \<Rightarrow> string" where
  "streamer_loop pr delim [] os = os"
| "streamer_loop pr delim (x # xs) os = streamer_loop pr delim xs ((os @ delim) @ pr x)"

fun range_print :: "('a \<Rightarrow> string) \<Rightarrow> 'a list \<Rightarrow> string \<Rightarrow> string \<Rightarrow> string" where
  "range_print pr [] delim os = os"
| "range_print pr (x # xs) delim os = streamer_loop pr delim xs (os @ pr x)"

fun map_streamer_loop ::
    "('k \<Rightarrow> string) \<Rightarrow> ('v \<Rightarrow> string) \<Rightarrow> string \<Rightarrow> string \<Rightarrow> ('k \<times> 'v) list \<Rightarrow> string \<Rightarrow> string" where
  "map_streamer_loop pk pv delim eq_delim [] os = os"
| "map_streamer_loop pk pv delim eq_delim ((k, v) # xs) os =
     map_streamer_loop pk pv delim eq_delim xs ((((os @ delim) @ pk k) @ eq_delim) @ pv v)"

fun range_map_print ::
    "('k \<Rightarrow> string) \<Rightarrow> ('v \<Rightarrow> string) \<Rightarrow> ('k \<times> 'v) list \<Rightarrow> string \<Rightarrow> string \<Rightarrow> string \<Rightarrow> string" where
  "range_map_print pk pv [] delim eq_delim os = os"
| "range_map_print pk pv ((k, v) # xs) delim eq_delim os =
     map_streamer_loop pk pv delim eq_delim xs (((os @ pk k) @ eq_delim) @ pv v)"

subsection \<open>args_editor.cpp\<close>

text \<open>The loop of \<^verbatim>\<open>is_arg_set\<close>: \<open>argv\<close> is the pointer array, \<open>argc\<close> and \<open>idx\<close> are the loop's
  integers (never negative inside it). A match is rotated behind the live part of the array.\<close>

function is_arg_set_loop ::
    "string \<Rightarrow> nat \<Rightarrow> nat \<Rightarrow> cstring list \<Rightarrow> bool \<Rightarrow> bool \<times> nat \<times> cstring list" where
  "is_arg_set_loop value idx argc argv found =
     (if idx < argc then
        (let ptrval = argv ! idx in
         if nstl_strcmp (Some value) ptrval = 0 then
           (let last_idx = argc - 1;
                argv' = (if idx < last_idx
                         then (take idx argv @ take (last_idx - idx) (drop (idx + 1) argv)
                               @ drop last_idx argv)[last_idx := ptrval]
                         else argv)
            in is_arg_set_loop value idx (argc - 1) argv' True)
         else is_arg_set_loop value (idx + 1) argc argv found)
      else (found, argc, argv))"
  by pat_completeness auto
termination
  by (relation "measure (\<lambda>(value, idx, argc, argv, found). argc - idx)") auto

declare is_arg_set_loop.simps [simp del]

text \<open>\<open>argv\<close> is \<open>None\<close> for a null array; reading \<open>argc\<close> pointers of a shorter array is undefined.\<close>

definition is_arg_set ::
    "int \<Rightarrow> cstring list option \<Rightarrow> cstring \<Rightarrow> (bool \<times> int \<times> cstring list) result" where
  "is_arg_set argc argv value =
     throw_if (argc < 0) (NstlException ''argc_ is negative'')
       (case argv of
          None \<Rightarrow> Inl (NstlException ''argv_ is nullptr'')
        | Some av \<Rightarrow>
            (case value of
               None \<Rightarrow> Inl (NstlException ''value_ is nullptr or empty'')
             | Some v \<Rightarrow>
                 throw_if (v = []) (NstlException ''value_ is nullptr or empty'')
                   (if length av < nat argc then Inl Undefined
                    else (case is_arg_set_loop v 0 (nat argc) av False of
                            (found, argc', av') \<Rightarrow> Inr (found, int argc', av')))))"

section \<open>Splitting\<close>

text \<open>The reference splitter, by recursion on the text.\<close>

fun split_ref :: "char \<Rightarrow> string \<Rightarrow> string list" where
  "split_ref d [] = [[]]"
| "split_ref d (x # xs) =
     (if x = d then [] # split_ref d xs
      else (x # hd (split_ref d xs)) # tl (split_ref d xs))"

fun join :: "char \<Rightarrow> string list \<Rightarrow> string" where
  "join d [] = []"
| "join d [x] = x"
| "join d (x # y # xs) = x @ d # join d (y # xs)"

lemma split_ref_not_Nil [simp]: "split_ref d xs \<noteq> []"
  by (cases xs) auto

lemma split_ref_None: "find_idx d xs = None \<Longrightarrow> split_ref d xs = [xs]"
  by (induction xs) auto

lemma split_ref_Some:
  "find_idx d xs = Some i \<Longrightarrow> split_ref d xs = take i xs # split_ref d (drop (Suc i) xs)"
proof (induction xs arbitrary: i)
  case (Cons x xs)
  then show ?case by (cases i) (auto split: if_splits)
qed simp

lemma join_split_ref: "join d (split_ref d xs) = xs"
proof (induction xs)
  case (Cons x xs)
  obtain y ys where "split_ref d xs = y # ys" by (meson neq_Nil_conv split_ref_not_Nil)
  with Cons show ?case by (cases ys) auto
qed simp

lemma split_ref_no_delim: "x \<in> set (split_ref d xs) \<Longrightarrow> d \<notin> set x"
proof (induction xs arbitrary: x)
  case (Cons y ys)
  have "hd (split_ref d ys) \<in> set (split_ref d ys)" by simp
  with Cons show ?case by (auto split: if_splits dest: list.set_sel(2) [rotated])
qed simp

lemma length_split_ref: "length (split_ref d xs) = Suc (count_list xs d)"
  by (induction xs) auto

text \<open>The loop invariant: what is still to be split is the text from \<open>prev\<close> on.\<close>

lemma split_loop_correct:
  assumes "pos = find_from d view prev" "prev \<le> length view"
    "split_loop func skip d view prev pos s r = (prev', s', r')"
  defines "items \<equiv> split_ref d (drop prev view)"
  defines "kept \<equiv> filter (\<lambda>x. \<not> (skip \<and> x = [])) (butlast items)"
  shows "s' = fold func kept s \<and> r' = r + length kept \<and> drop prev' view = last items
    \<and> prev' \<le> length view"
  using assms(1-3) unfolding items_def kept_def
proof (induction func skip d view prev pos s r rule: split_loop.induct)
  case (1 func skip d view prev pos s r)
  show ?case
  proof (cases pos)
    case None
    then have "split_ref d (drop prev view) = [drop prev view]"
      using 1(3) by (intro split_ref_None) (simp add: find_from_def)
    with None 1(4,5) show ?thesis by (simp add: split_loop.simps)
  next
    case (Some p)
    define item where "item = (if p = prev then [] else take (p - prev) (drop prev view))"
    have p: "prev \<le> p" "p < length view" using Some 1(3) find_from_Some(1,2) by metis+
    have "find_idx d (drop prev view) = Some (p - prev)"
      using Some 1(3) by (auto simp: find_from_def)
    then have ref: "split_ref d (drop prev view) = item # split_ref d (drop (p + 1) view)"
      using p by (simp add: split_ref_Some item_def)
    have step: "split_loop func skip d view prev pos s r =
        (if skip \<and> item = []
         then split_loop func skip d view (p + 1) (find_from d view (p + 1)) s r
         else split_loop func skip d view (p + 1) (find_from d view (p + 1)) (func item s) (r + 1))"
      unfolding item_def by (subst split_loop.simps) (simp only: Some option.case Let_def)
    show ?thesis
    proof (cases "skip \<and> item = []")
      case True
      with 1(5) have "split_loop func skip d view (p + 1) (find_from d view (p + 1)) s r
          = (prev', s', r')" unfolding step by simp
      with True 1(1) [OF Some item_def refl] p ref show ?thesis by simp
    next
      case False
      with 1(5) have "split_loop func skip d view (p + 1) (find_from d view (p + 1))
          (func item s) (r + 1) = (prev', s', r')" unfolding step by simp
      with False 1(2) [OF Some item_def refl] p ref show ?thesis by auto
    qed
  qed
qed

lemma split_view_func_items:
  "split_view_func view delim func skip_empty s =
     (let items = filter (\<lambda>x. \<not> (skip_empty \<and> x = [])) (split_ref delim view)
      in (length items, fold func items s))"
proof -
  obtain prev s' r where
    l: "split_loop func skip_empty delim view 0 (find_idx delim view) s 0 = (prev, s', r)"
    by (metis prod_cases3)
  let ?items = "split_ref delim view"
  have c: "s' = fold func (filter (\<lambda>x. \<not> (skip_empty \<and> x = [])) (butlast ?items)) s"
    "r = length (filter (\<lambda>x. \<not> (skip_empty \<and> x = [])) (butlast ?items))"
    "drop prev view = last ?items"
    using split_loop_correct [OF _ _ l] by auto
  have "?items = butlast ?items @ [last ?items]" by simp
  then have f: "filter P ?items = filter P (butlast ?items) @ filter P [last ?items]" for P
    by (metis filter_append)
  have "(if prev < length view then drop prev view else []) = last ?items"
    using c(3) by (cases "prev < length view") auto
  with l c show ?thesis by (auto simp: split_view_func_def Let_def f)
qed

text \<open>\<^verbatim>\<open>split_view_func\<close>: for every view, delimiter, callback and setting of \<^verbatim>\<open>skip_empty_\<close>,
  the callback is run, in order, on exactly the pieces of the view between delimiters (the empty
  ones left out when they are to be skipped), and the returned count is the number of calls.\<close>

theorem split_view_func_correct:
  "split_view_func view delim func skip_empty s =
     (let items = filter (\<lambda>x. \<not> (skip_empty \<and> x = [])) (split_ref delim view)
      in (length items, fold func items s))"
  by (rule split_view_func_items)

text \<open>\<^verbatim>\<open>split_view_func\<close>: collecting the items with empty ones kept loses nothing: joining
  them with the delimiter gives the view back, no item contains the delimiter, and there is one
  item more than there are delimiters.\<close>

theorem split_view_func_roundtrip:
  "let (n, items) = split_view_func view delim (\<lambda>item acc. acc @ [item]) False []
   in join delim items = view \<and> n = Suc (count_list view delim) \<and> length items = n
      \<and> list_all (\<lambda>x. delim \<notin> set x) items"
proof -
  have "fold (\<lambda>item acc. acc @ [item]) xs ys = ys @ xs" for xs ys :: "string list"
    by (induction xs arbitrary: ys) auto
  then show ?thesis
    by (simp add: split_view_func_items join_split_ref length_split_ref list_all_iff
        split_ref_no_delim Let_def)
qed

section \<open>Trimming and case-insensitive comparison\<close>

lemma left_trim_view_eq: "left_trim_view view = dropWhile is_space_ch view"
proof (induction view)
  case (Cons x xs)
  then show ?case by (subst left_trim_view.simps) simp
qed (subst left_trim_view.simps, simp)

lemma right_trim_view_eq: "right_trim_view view = rev (dropWhile is_space_ch (rev view))"
proof (induction view rule: rev_induct)
  case (snoc x xs)
  then show ?case by (subst right_trim_view.simps) simp
qed (subst right_trim_view.simps, simp)

lemma dropWhile_rev_dropWhile_hd:
  "takeWhile P (rev (dropWhile P (rev (dropWhile P xs)))) = []"
proof (induction xs)
  case (Cons x xs)
  show ?case
  proof (cases "P x")
    case True
    with Cons show ?thesis by simp
  next
    case False
    then have "dropWhile P (rev xs @ [x]) = dropWhile P (rev xs) @ [x]"
      by (induction "rev xs") (simp_all add: dropWhile_append)
    with False show ?thesis by simp
  qed
qed simp

text \<open>\<^verbatim>\<open>trim_view\<close>: the view is the trimmed view with whitespace around it, and the trimmed
  view neither starts nor ends with whitespace.\<close>

theorem trim_view_correct:
  "(\<exists>pre suf. view = pre @ trim_view view @ suf \<and> list_all is_space_ch pre
      \<and> list_all is_space_ch suf)
   \<and> takeWhile is_space_ch (trim_view view) = []
   \<and> takeWhile is_space_ch (rev (trim_view view)) = []"
proof -
  let ?l = "dropWhile is_space_ch view"
  have t: "trim_view view = rev (dropWhile is_space_ch (rev ?l))"
    by (simp add: trim_view_def left_trim_view_eq right_trim_view_eq)
  have "view = takeWhile is_space_ch view @ ?l" by simp
  moreover have "?l = trim_view view @ rev (takeWhile is_space_ch (rev ?l))"
    unfolding t by (metis rev_append rev_rev_ident takeWhile_dropWhile_id)
  ultimately have "view = takeWhile is_space_ch view @ trim_view view @ rev (takeWhile is_space_ch (rev ?l))"
    by simp
  moreover have "list_all is_space_ch (takeWhile is_space_ch xs)" for xs
    by (auto simp: list_all_iff dest: set_takeWhileD)
  ultimately show ?thesis
    unfolding t using dropWhile_rev_dropWhile_hd [of is_space_ch view]
    by (metis list_all_rev rev_rev_ident takeWhile_eq_Nil_iff hd_dropWhile)
qed

lemma iequal_loop_eq:
  "length left = length right \<Longrightarrow> iequal_loop left right \<longleftrightarrow> map tolower_c left = map tolower_c right"
  by (induction left right rule: list_induct2) auto

text \<open>\<^verbatim>\<open>iequal\<close> is equality of the lower-cased views, so an equivalence relation.\<close>

lemma iequal_eq: "iequal left right \<longleftrightarrow> map tolower_c left = map tolower_c right"
  by (metis iequal_def iequal_loop_eq length_map)

lemma iequal_equiv: "equivp iequal"
  by (intro equivpI reflpI sympI transpI) (simp_all add: iequal_eq)

section \<open>Base names\<close>

lemma safe_basename_view_no_sep: "path_sep \<notin> set (safe_basename_view filename)"
  by (auto simp: safe_basename_view_def split: option.splits dest: rfind_idx_Some)

lemma safe_basename_view_suffix: "suffix (safe_basename_view filename) filename"
  by (auto simp: safe_basename_view_def suffix_drop split: option.splits)

lemma safe_basename_view_append:
  "path_sep \<notin> set file \<Longrightarrow> safe_basename_view (dir @ path_sep # file) = file"
proof -
  assume f: "path_sep \<notin> set file"
  have "rfind_idx path_sep (dir @ path_sep # file) = Some (length dir)"
    by (induction dir) (use f in \<open>auto split: option.splits\<close>)
  then show ?thesis by (simp add: safe_basename_view_def)
qed

section \<open>Null-safe string comparison\<close>

lemma code_of_inject [simp]: "code_of x = code_of y \<longleftrightarrow> x = y"
  by (simp add: code_of_def)

lemma std_strcmp_0 [simp]: "std_strcmp xs ys = 0 \<longleftrightarrow> xs = ys"
proof (induction xs ys rule: std_strcmp.induct)
  case (4 x xs y ys)
  show ?case
  proof (cases "x = y")
    case True
    with 4 show ?thesis by simp
  next
    case False
    then have "code_of x < code_of y \<or> code_of y < code_of x"
      using code_of_inject [of x y] nat_neq_iff by blast
    with False show ?thesis by auto
  qed
qed simp_all

lemma std_strcmp_neg: "std_strcmp ys xs = - std_strcmp xs ys"
  by (induction xs ys rule: std_strcmp.induct) auto

lemma std_strcmp_less: "std_strcmp xs ys < 0 \<longleftrightarrow> lex_less (map code_of xs) (map code_of ys)"
  by (induction xs ys rule: std_strcmp.induct) auto

lemma nstl_strcmp_0 [simp]: "nstl_strcmp a b = 0 \<longleftrightarrow> a = b"
  by (auto simp: nstl_strcmp_def split: option.splits)

lemma nstl_strcmp_neg: "nstl_strcmp b a = - nstl_strcmp a b"
  by (auto simp: nstl_strcmp_def std_strcmp_neg [symmetric] split: option.splits)

lemma nstl_strcmp_trans: "nstl_strcmp a b < 0 \<Longrightarrow> nstl_strcmp b c < 0 \<Longrightarrow> nstl_strcmp a c < 0"
  by (auto simp: nstl_strcmp_def std_strcmp_less split: option.splits intro: lex_less_trans)

interpretation cstr: strict_total "\<lambda>a b. nstl_strcmp a b < 0"
proof unfold_locales
  fix x y z :: cstring
  have "nstl_strcmp x x = 0" by simp
  then show "\<not> nstl_strcmp x x < 0" by linarith
  show "nstl_strcmp x y < 0 \<Longrightarrow> nstl_strcmp y z < 0 \<Longrightarrow> nstl_strcmp x z < 0"
    by (rule nstl_strcmp_trans)
  show eq: "x = y" if "\<not> nstl_strcmp x y < 0" "\<not> nstl_strcmp y x < 0" for x y
  proof -
    have "nstl_strcmp x y = 0" using that nstl_strcmp_neg [of y x] by linarith
    then show ?thesis by simp
  qed
  show "\<not> nstl_strcmp x z < 0 \<and> \<not> nstl_strcmp z x < 0"
    if "\<not> nstl_strcmp x y < 0" "\<not> nstl_strcmp y x < 0"
      "\<not> nstl_strcmp y z < 0" "\<not> nstl_strcmp z y < 0"
    using that eq [of x y] eq [of y z] by simp
qed

text \<open>\<^verbatim>\<open>nstl::strcmp\<close>: on C strings that may be null the sign of the result is a total order:
  zero exactly on equal strings (two nulls included), antisymmetric, and transitive; a null
  pointer is greater than every string.\<close>

theorem nstl_strcmp_total_order:
  "strict_total (\<lambda>a b. nstl_strcmp a b < 0) \<and> (nstl_strcmp a b = 0 \<longleftrightarrow> a = b)
   \<and> nstl_strcmp b a = - nstl_strcmp a b \<and> nstl_strcmp (Some s) None < 0"
proof -
  have "nstl_strcmp (Some s) None < 0" by (simp add: nstl_strcmp_def)
  then show ?thesis using cstr.strict_total_axioms nstl_strcmp_neg [of b a] by simp
qed

section \<open>Printing ranges\<close>

lemma streamer_loop_eq: "streamer_loop pr delim xs os = os @ concat (map (\<lambda>x. delim @ pr x) xs)"
  by (induction xs arbitrary: os) auto

lemma map_streamer_loop_eq:
  "map_streamer_loop pk pv delim eq_delim xs os =
     streamer_loop (\<lambda>(k, v). pk k @ eq_delim @ pv v) delim xs os"
  by (induction xs arbitrary: os) auto

text \<open>The map form is the plain form on entries rendered as key, separator, value.\<close>

lemma range_map_print_eq:
  "range_map_print pk pv xs delim eq_delim os =
     range_print (\<lambda>(k, v). pk k @ eq_delim @ pv v) xs delim os"
  by (cases xs) (auto simp: map_streamer_loop_eq)

lemma range_print_append:
  "xs \<noteq> [] \<Longrightarrow> range_print pr (xs @ [y]) delim os = range_print pr xs delim os @ delim @ pr y"
  by (cases xs) (auto simp: streamer_loop_eq)

section \<open>Removing an argument\<close>

lemma rotate_match:
  assumes "idx < argc" "argc \<le> length av" "av ! idx = p"
  shows "(if idx < argc - 1
          then (take idx av @ take (argc - 1 - idx) (drop (idx + 1) av) @ drop (argc - 1) av)
                 [argc - 1 := p]
          else av)
       = take idx av @ take (argc - 1 - idx) (drop (idx + 1) av) @ p # drop argc av"
proof -
  have "drop (argc - 1) av = av ! (argc - 1) # drop argc av"
    using assms by (metis Cons_nth_drop_Suc Suc_pred' diff_less gr_implies_not_zero
        less_le_trans neq0_conv zero_less_one)
  moreover have "av = take idx av @ p # drop argc av" if "\<not> idx < argc - 1"
  proof -
    have "argc = Suc idx" using that assms by simp
    then show ?thesis using assms id_take_nth_drop [of idx av] by simp
  qed
  ultimately show ?thesis
    using assms by (auto simp: list_update_append min_def)
qed

lemma is_arg_set_loop_correct:
  fixes v :: string
  assumes "idx \<le> argc" "argc \<le> length av"
  defines "live \<equiv> drop idx (take argc av)"
  defines "kept \<equiv> filter (\<lambda>p. p \<noteq> Some v) live"
  shows "is_arg_set_loop v idx argc av found =
    (found \<or> Some v \<in> set live, idx + length kept,
     take idx av @ kept @ replicate (argc - idx - length kept) (Some v) @ drop argc av)"
  using assms(1,2) unfolding kept_def live_def
proof (induction v idx argc av found rule: is_arg_set_loop.induct)
  case (1 v idx argc av found)
  show ?case
  proof (cases "idx < argc")
    case False
    with 1(3,4) show ?thesis by (subst is_arg_set_loop.simps) simp
  next
    case less: True
    then have live: "drop idx (take argc av) = av ! idx # drop (Suc idx) (take argc av)"
      using 1(4) by (subst Cons_nth_drop_Suc [symmetric]) auto
    show ?thesis
    proof (cases "av ! idx = Some v")
      case True
      let ?av = "take idx av @ take (argc - 1 - idx) (drop (idx + 1) av) @ Some v # drop argc av"
      have len: "length ?av = length av" using less 1(4) by simp
      have rest: "drop idx (take (argc - 1) ?av) = drop (Suc idx) (take argc av)"
        using less 1(4) by (simp add: take_drop min_def)
      have tk: "take idx ?av = take idx av" and dr: "drop (argc - 1) ?av = Some v # drop argc av"
        using less 1(4) by (simp_all add: min_def)
      have "is_arg_set_loop v idx argc av found = is_arg_set_loop v idx (argc - 1) ?av True"
        by (subst is_arg_set_loop.simps)
          (simp only: less True Let_def nstl_strcmp_0 if_True refl rotate_match [OF less 1(4) True])
      moreover define f where "f = filter (\<lambda>p. p \<noteq> Some v) (drop (Suc idx) (take argc av))"
      moreover have "length f \<le> argc - Suc idx"
        using length_filter_le [of "\<lambda>p. p \<noteq> Some v" "drop (Suc idx) (take argc av)"] 1(4)
        by (simp add: f_def)
      then have "argc - idx - length f = Suc (argc - 1 - idx - length f)" using less by linarith
      moreover have "is_arg_set_loop v idx (argc - 1) ?av True =
          (True, idx + length f, take idx av @ f @ replicate (argc - 1 - idx - length f) (Some v)
             @ Some v # drop argc av)"
        using 1(1) [OF less refl _ refl refl] less 1(4) True len unfolding f_def
        by (simp only: rest tk dr rotate_match [OF less 1(4) True]) simp
      ultimately show ?thesis
        using True by (simp add: live replicate_app_Cons_same)
    next
      case False
      have "is_arg_set_loop v idx argc av found = is_arg_set_loop v (idx + 1) argc av found"
        by (subst is_arg_set_loop.simps) (use less False in \<open>auto simp: Let_def\<close>)
      then show ?thesis
        using 1(2) [OF less refl] False less 1(4)
        by (auto simp: live take_Suc_conv_app_nth)
    qed
  qed
qed

lemma is_arg_set_errors:
  "argc < 0 \<Longrightarrow> is_arg_set argc argv value = Inl (NstlException ''argc_ is negative'')"
  "0 \<le> argc \<Longrightarrow> is_arg_set argc None value = Inl (NstlException ''argv_ is nullptr'')"
  "0 \<le> argc \<Longrightarrow> value = None \<or> value = Some [] \<Longrightarrow>
     is_arg_set argc (Some av) value = Inl (NstlException ''value_ is nullptr or empty'')"
  by (auto simp: is_arg_set_def)

text \<open>C35 (\<^verbatim>\<open>is_arg_set\<close>): for a valid argument vector and a non-empty flag, the call reports whether
  the flag occurs among the first \<^verbatim>\<open>argc\<close> pointers, leaves the other arguments in their order at the
  front, sets \<^verbatim>\<open>argc\<close> to their number, moves the matching pointers behind them, and does not touch
  what lies behind the old \<^verbatim>\<open>argc\<close>.\<close>

theorem is_arg_set_correct:
  assumes "0 \<le> argc" "nat argc \<le> length av" "v \<noteq> []"
  shows "is_arg_set argc (Some av) (Some v) =
    (let live = take (nat argc) av; kept = filter (\<lambda>p. p \<noteq> Some v) live
     in Inr (Some v \<in> set live, int (length kept),
             kept @ replicate (nat argc - length kept) (Some v) @ drop (nat argc) av))"
  using assms is_arg_set_loop_correct [of 0 "nat argc" av v False]
  by (simp add: is_arg_set_def Let_def)

theorem is_arg_set_witness:
  "is_arg_set 4 (Some [Some ''prog'', Some ''-v'', None, Some ''-v'', Some ''env'']) (Some ''-v'')
     = Inr (True, 2, [Some ''prog'', None, Some ''-v'', Some ''-v'', Some ''env''])"
  using is_arg_set_correct
    [of 4 "[Some ''prog'', Some ''-v'', None, Some ''-v'', Some ''env'']" "''-v''"]
  by (simp add: Let_def numeral_eq_Suc)

end
