(* ===== verification/Charconv.thy ===== *)
theory Charconv
  imports StringTools
begin

text \<open>
  Text and numbers: the part of \<^verbatim>\<open>std::from_chars\<close> (base 10, integers) that the library uses, and
  \<^verbatim>\<open>nstl/parse.hpp\<close> on top of it. An integer type is given by its least and greatest value; only a
  signed type takes a minus sign.
\<close>

section \<open>Definitions\<close>

subsection \<open>std::from_chars\<close>

datatype errc = NoError | InvalidArg | ResultOutOfRange

definition is_digit :: "char \<Rightarrow> bool" where
  "is_digit c = (48 \<le> code_of c \<and> code_of c \<le> 57)"

definition dec_value :: "string \<Rightarrow> nat" where
  "dec_value ds = foldl (\<lambda>a c. a * 10 + (code_of c - 48)) 0 ds"

text \<open>The result is the number of characters consumed (\<^verbatim>\<open>ptr - first\<close>), the error code and the
  value written to the target, if it is written.\<close>

type_synonym 'a from_chars_result = "nat \<times> errc \<times> 'a option"

definition std_from_chars :: "int \<Rightarrow> int \<Rightarrow> string \<Rightarrow> int from_chars_result" where
  "std_from_chars lo hi s =
     (let neg = (lo < 0 \<and> s \<noteq> [] \<and> hd s = CHR ''-'');
          ds = takeWhile is_digit (if neg then tl s else s);
          n = length ds + (if neg then 1 else 0);
          v = (if neg then - int (dec_value ds) else int (dec_value ds))
      in if ds = [] then (0, InvalidArg, None)
         else if lo \<le> v \<and> v \<le> hi then (n, NoError, Some v)
         else (n, ResultOutOfRange, None))"

subsection \<open>parse.hpp\<close>

text \<open>The \<^verbatim>\<open>bool\<close> overload of \<^verbatim>\<open>nstl::from_chars\<close>: the first listed spelling that the view starts
  with.\<close>

definition from_chars_bool :: "string \<Rightarrow> bool from_chars_result" where
  "from_chars_bool value =
     (case find (\<lambda>item. prefix item value) [''1'', ''true''] of
        Some t \<Rightarrow> (length t, NoError, Some True)
      | None \<Rightarrow>
          (case find (\<lambda>item. prefix item value) [''0'', ''false''] of
             Some f \<Rightarrow> (length f, NoError, Some False)
           | None \<Rightarrow> (0, InvalidArg, None)))"

text \<open>\<^verbatim>\<open>parse_view<Type>\<close>, over the \<^verbatim>\<open>from_chars\<close> of its type; \<open>dflt\<close> is \<^verbatim>\<open>Type{}\<close>.\<close>

definition parse_view :: "(string \<Rightarrow> 'a from_chars_result) \<Rightarrow> 'a \<Rightarrow> string \<Rightarrow> 'a result" where
  "parse_view fc dflt view =
     throw_if (view = []) (InvalidArgument ''view is empty'')
       (case fc view of (ptr, ec, val) \<Rightarrow>
          throw_if (ptr \<noteq> length view) (InvalidArgument ''Not the whole view is a number: '')
            (throw_if (ec \<noteq> NoError) (InvalidArgument ''Failed to parse the view: '')
               (Inr (case val of Some v \<Rightarrow> v | None \<Rightarrow> dflt))))"

definition parse_view_int :: "int \<Rightarrow> int \<Rightarrow> string \<Rightarrow> int result" where
  "parse_view_int lo hi = parse_view (std_from_chars lo hi) 0"

definition parse_view_bool :: "string \<Rightarrow> bool result" where
  "parse_view_bool = parse_view from_chars_bool False"

section \<open>Decimal notation\<close>

text \<open>The canonical decimal notation of a number, as \<^verbatim>\<open>operator<<\<close> writes it.\<close>

fun show_nat :: "nat \<Rightarrow> string" where
  "show_nat n = (if n < 10 then [char_of (48 + n)] else show_nat (n div 10) @ [char_of (48 + n mod 10)])"

declare show_nat.simps [simp del]

definition show_int :: "int \<Rightarrow> string" where
  "show_int i = (if i < 0 then CHR ''-'' # show_nat (nat (- i)) else show_nat (nat i))"

lemma code_of_digit: "d < 10 \<Longrightarrow> code_of (char_of (48 + d)) = 48 + d"
  by (simp add: code_of_def)

lemma show_nat_not_Nil [simp]: "show_nat n \<noteq> []"
  by (subst show_nat.simps) simp

lemma show_nat_digits: "list_all is_digit (show_nat n)"
proof (induction n rule: show_nat.induct)
  case (1 n)
  have d: "is_digit (char_of (48 + d))" if "d < 10" for d :: nat
    using that by (simp add: is_digit_def code_of_digit)
  show ?case
  proof (cases "n < 10")
    case True
    with d [of n] show ?thesis by (subst show_nat.simps) simp
  next
    case False
    with 1 d [of "n mod 10"] show ?thesis by (subst show_nat.simps) simp
  qed
qed

lemma dec_value_append: "dec_value (xs @ [c]) = dec_value xs * 10 + (code_of c - 48)"
  by (simp add: dec_value_def)

lemma dec_value_show_nat [simp]: "dec_value (show_nat n) = n"
proof (induction n rule: show_nat.induct)
  case (1 n)
  show ?case
  proof (cases "n < 10")
    case True
    then show ?thesis by (subst show_nat.simps) (simp add: dec_value_def code_of_digit)
  next
    case False
    with 1 show ?thesis
      by (subst show_nat.simps) (simp add: dec_value_append code_of_digit div_mult_mod_eq)
  qed
qed

lemma takeWhile_digits [simp]: "list_all is_digit ds \<Longrightarrow> takeWhile is_digit ds = ds"
  by (simp add: list_all_iff)

lemma hd_show_nat: "hd (show_nat n) \<noteq> CHR ''-''"
proof -
  have "is_digit (hd (show_nat n))"
    using show_nat_digits [of n] by (simp add: list_all_iff)
  then show ?thesis by (auto simp: is_digit_def code_of_def)
qed

lemma std_from_chars_show_int:
  assumes "lo \<le> v" "v \<le> hi" "lo < 0 \<or> 0 \<le> v"
  shows "std_from_chars lo hi (show_int v) = (length (show_int v), NoError, Some v)"
  using assms show_nat_digits [of "nat v"] show_nat_digits [of "nat (- v)"] hd_show_nat [of "nat v"]
  by (auto simp: std_from_chars_def show_int_def Let_def)

lemma std_from_chars_NoError:
  assumes "std_from_chars lo hi s = (n, NoError, v)"
  shows "\<exists>i. v = Some i \<and> lo \<le> i \<and> i \<le> hi \<and> n \<le> length s \<and> 0 < n"
  using assms length_takeWhile_le [of is_digit s] length_takeWhile_le [of is_digit "tl s"]
  by (auto simp: std_from_chars_def Let_def split: if_splits simp: neq_Nil_conv)

text \<open>\<^verbatim>\<open>parse_view\<close>: the decimal notation of every value of an integer type parses back to
  that value.\<close>

theorem parse_view_int_roundtrip:
  assumes "lo \<le> 0" "lo \<le> v" "v \<le> hi"
  shows "parse_view_int lo hi (show_int v) = Inr v"
proof -
  have "show_int v \<noteq> []" by (simp add: show_int_def)
  moreover have "std_from_chars lo hi (show_int v) = (length (show_int v), NoError, Some v)"
    by (rule std_from_chars_show_int) (use assms in auto)
  ultimately show ?thesis by (simp add: parse_view_int_def parse_view_def)
qed

theorem parse_view_int_roundtrip_witness:
  "show_int (-128) = ''-128'' \<and> parse_view_int (-128) 127 ''-128'' = Inr (-128)"
proof -
  have s: "show_int (-128) = ''-128''"
    by (simp add: show_int_def show_nat.simps) code_simp
  show ?thesis using parse_view_int_roundtrip [of "-128" "-128" 127] s by simp
qed

lemma takeWhile_all: "length (takeWhile P xs) = length xs \<Longrightarrow> list_all P xs"
  by (metis list_all_iff set_takeWhileD takeWhile_eq_take take_all order_refl)

text \<open>C36 (\<^verbatim>\<open>parse_view\<close>): a successful parse has read the whole view, which is an optional minus
  sign (for a signed type) and at least one digit, and the value is in the range of the type;
  anything else throws \<^verbatim>\<open>std::invalid_argument\<close>, overflow included.\<close>

theorem parse_view_int_sound:
  "case parse_view_int lo hi view of
     Inr v \<Rightarrow> lo \<le> v \<and> v \<le> hi \<and>
       (\<exists>ds. ds \<noteq> [] \<and> list_all is_digit ds \<and>
          (view = ds \<and> v = int (dec_value ds) \<or>
           lo < 0 \<and> view = CHR ''-'' # ds \<and> v = - int (dec_value ds)))
   | Inl e \<Rightarrow> (\<exists>m. e = InvalidArgument m)"
proof (cases "parse_view_int lo hi view")
  case (Inl e)
  then show ?thesis
    by (auto simp: parse_view_int_def parse_view_def throw_if_def split: prod.splits if_splits)
next
  case (Inr v)
  then obtain w where fc: "std_from_chars lo hi view = (length view, NoError, w)" and "view \<noteq> []"
    and v: "v = (case w of Some v \<Rightarrow> v | None \<Rightarrow> 0)"
    by (auto simp: parse_view_int_def parse_view_def throw_if_Inr split: prod.splits)
  define neg where "neg = (lo < 0 \<and> hd view = CHR ''-'')"
  define ds where "ds = takeWhile is_digit (if neg then tl view else view)"
  have ds: "ds \<noteq> []" "length view = length ds + (if neg then 1 else 0)"
    "w = Some (if neg then - int (dec_value ds) else int (dec_value ds))" "lo \<le> v" "v \<le> hi"
    using fc v \<open>view \<noteq> []\<close> unfolding ds_def neg_def
    by (auto simp: std_from_chars_def Let_def split: if_splits)
  have view: "view = (if neg then CHR ''-'' # tl view else view)"
    using \<open>view \<noteq> []\<close> by (cases view) (auto simp: neg_def)
  have "length (if neg then tl view else view) = length ds" using ds(2) by (auto split: if_splits)
  then have all: "list_all is_digit (if neg then tl view else view)"
    by (intro takeWhile_all) (simp add: ds_def)
  then have "ds = (if neg then tl view else view)" by (simp add: ds_def)
  with all ds v view Inr show ?thesis by (auto simp: neg_def split: if_splits)
qed

text \<open>\<^verbatim>\<open>parse_view<bool>\<close> takes exactly the four spellings.\<close>

lemma parse_view_bool_iff:
  "parse_view_bool view = Inr b \<longleftrightarrow>
     (if b then view \<in> {''1'', ''true''} else view \<in> {''0'', ''false''})"
proof (cases "from_chars_bool view")
  case (fields n ec w)
  have len: "prefix x view \<Longrightarrow> length x = length view \<longleftrightarrow> view = x" for x
    by (auto simp: prefix_def)
  have "n = length view \<and> ec = NoError \<and> w = Some b \<and> view \<noteq> [] \<longleftrightarrow>
      (if b then view \<in> {''1'', ''true''} else view \<in> {''0'', ''false''})"
    using fields len [of "''1''"] len [of "''true''"] len [of "''0''"] len [of "''false''"]
    by (cases b) (auto simp: from_chars_bool_def split: if_splits)
  moreover have "ec = NoError \<Longrightarrow> w \<noteq> None"
    using fields by (auto simp: from_chars_bool_def split: if_splits)
  ultimately show ?thesis
    using fields by (auto simp: parse_view_bool_def parse_view_def throw_if_Inr)
qed

end
