(* ===== verification/IpTools.thy ===== *)
theory IpTools
  imports Charconv
begin

text \<open>
  IP addresses and ranges: \<^verbatim>\<open>nstl/ip_tools.hpp\<close> and \<^verbatim>\<open>nstl/ip_tools.cpp\<close>. An address is the list
  of its bytes; the template argument \<^verbatim>\<open>ip_size\<close> (4 or 16) is an argument of the definitions. The
  socket library's \<^verbatim>\<open>inet_pton\<close> and \<^verbatim>\<open>inet_ntop\<close> are parameters: \<open>pton\<close> maps the text to the bytes
  it denotes, if any, \<open>ntop\<close> the bytes to their text, if the call succeeds.
\<close>

section \<open>Definitions\<close>

type_synonym ip_addr = "u8 list"

abbreviation (input) "ipv4_size \<equiv> (4::nat)"
abbreviation (input) "ipv6_size \<equiv> (16::nat)"
abbreviation (input) "INET_ADDRSTRLEN \<equiv> (16::nat)"
abbreviation (input) "INET6_ADDRSTRLEN \<equiv> (46::nat)"

definition bytes_in_bits :: nat where
  "bytes_in_bits = 8"

subsection \<open>Masks and ranges\<close>

definition and_arrays :: "ip_addr \<Rightarrow> ip_addr \<Rightarrow> ip_addr" where
  "and_arrays a b = map2 (AND) a b"

function create_mask_loop :: "nat \<Rightarrow> nat \<Rightarrow> u8 \<Rightarrow> ip_addr \<Rightarrow> ip_addr" where
  "create_mask_loop data_size i m retval =
     (if i < data_size \<and> 0 < m then
        (let bits = (if 8 \<le> m then 8 else m)
         in create_mask_loop data_size (i + 1) (m - bits)
              (retval[i := push_bit (unat (8 - bits)) 0xFF]))
      else retval)"
  by pat_completeness auto
termination
  by (relation "measure (\<lambda>(n, i, m, r). n - i)") auto

declare create_mask_loop.simps [simp del]

definition create_mask :: "nat \<Rightarrow> u8 \<Rightarrow> ip_addr result" where
  "create_mask data_size m =
     throw_if (data_size * bytes_in_bits < unat m) (NstlException '' mask is invalid'')
       (Inr (create_mask_loop data_size 0 m (replicate data_size 0)))"

definition create_ipv4_mask :: "u8 \<Rightarrow> ip_addr result" where
  "create_ipv4_mask m = create_mask ipv4_size m"

definition create_ipv6_mask :: "u8 \<Rightarrow> ip_addr result" where
  "create_ipv6_mask m = create_mask ipv6_size m"

record ip_range =
  ip :: ip_addr
  netmask :: ip_addr

definition ip_range_default :: "nat \<Rightarrow> ip_range" where
  "ip_range_default ip_size = \<lparr>ip = replicate ip_size 0, netmask = replicate ip_size 0\<rparr>"

definition ip_max_bits :: "nat \<Rightarrow> nat" where
  "ip_max_bits ip_size = ip_size * bytes_in_bits"

definition ip_range_of_bits :: "nat \<Rightarrow> ip_addr \<Rightarrow> u8 \<Rightarrow> ip_range result" where
  "ip_range_of_bits ip_size a m =
     bind_result (create_mask ip_size m) (\<lambda>msk. Inr \<lparr>ip = a, netmask = msk\<rparr>)"

definition range_contains :: "ip_range \<Rightarrow> ip_addr \<Rightarrow> bool" where
  "range_contains r a =
     (let ip_result = and_arrays (netmask r) a; local_result = and_arrays (netmask r) (ip r)
      in ip_result = local_result)"

definition range_eq :: "ip_range \<Rightarrow> ip_range \<Rightarrow> bool" where
  "range_eq l r = (ip l = ip r \<and> netmask l = netmask r)"

text \<open>\<^verbatim>\<open>operator<\<close> of two ranges: the tuples of address and mask, lexicographically.\<close>

definition range_less :: "ip_range \<Rightarrow> ip_range \<Rightarrow> bool" where
  "range_less l r =
     (if lex_less (ip l) (ip r) then True
      else if lex_less (ip r) (ip l) then False
      else lex_less (netmask l) (netmask r))"

subsection \<open>Parsing\<close>

definition invalid_mask :: u8 where
  "invalid_mask = 255"

text \<open>The view is copied into a buffer of \<^verbatim>\<open>str_size\<close> characters with \<^verbatim>\<open>strncpy\<close>, which stops at a
  NUL, and read back as a C string.\<close>

definition parse_ip_address_t :: "(string \<Rightarrow> ip_addr option) \<Rightarrow> nat \<Rightarrow> string \<Rightarrow> ip_addr option" where
  "parse_ip_address_t pton str_size ipaddr =
     (if str_size \<le> length ipaddr then None
      else pton (takeWhile (\<lambda>c. code_of c \<noteq> 0) ipaddr))"

definition parse_mask :: "nat \<Rightarrow> string \<Rightarrow> u8" where
  "parse_mask ip_size num_view =
     (case std_from_chars 0 255 num_view of (ptr, ec, val) \<Rightarrow>
        (let m = (case val of Some v \<Rightarrow> word_of_int v | None \<Rightarrow> 0)
         in if ptr = length num_view \<and> ec = NoError \<and> unat m \<le> ip_max_bits ip_size
            then m else invalid_mask))"

definition parse_ip_range ::
    "nat \<Rightarrow> (string \<Rightarrow> ip_addr option) \<Rightarrow> nat \<Rightarrow> string \<Rightarrow> ip_range option result" where
  "parse_ip_range ip_size pton str_size rng =
     (let pos = find_idx (CHR ''/'') rng;
          ip_part = (case pos of None \<Rightarrow> rng | Some p \<Rightarrow> take p rng)
      in case parse_ip_address_t pton str_size ip_part of
           None \<Rightarrow> Inr None
         | Some a \<Rightarrow>
             (case pos of
                None \<Rightarrow> bind_result (ip_range_of_bits ip_size a (word_of_nat (ip_max_bits ip_size)))
                          (\<lambda>r. Inr (Some r))
              | Some p \<Rightarrow>
                  (let num_view = drop (p + 1) rng in
                   if num_view = [] then Inr None
                   else (let m = parse_mask ip_size num_view in
                         if m \<noteq> invalid_mask
                         then bind_result (ip_range_of_bits ip_size a m) (\<lambda>r. Inr (Some r))
                         else (case parse_ip_address_t pton str_size num_view of
                                 Some ip_mask \<Rightarrow> Inr (Some \<lparr>ip = a, netmask = ip_mask\<rparr>)
                               | None \<Rightarrow> Inr None)))))"

definition parse_ip4_range :: "(string \<Rightarrow> ip_addr option) \<Rightarrow> string \<Rightarrow> ip_range option result" where
  "parse_ip4_range pton4 rng = parse_ip_range ipv4_size pton4 INET_ADDRSTRLEN rng"

definition parse_ip6_range :: "(string \<Rightarrow> ip_addr option) \<Rightarrow> string \<Rightarrow> ip_range option result" where
  "parse_ip6_range pton6 rng = parse_ip_range ipv6_size pton6 INET6_ADDRSTRLEN rng"

definition parse_ip4_address :: "(string \<Rightarrow> ip_addr option) \<Rightarrow> string \<Rightarrow> ip_addr option" where
  "parse_ip4_address pton4 a = parse_ip_address_t pton4 INET_ADDRSTRLEN a"

definition parse_ip6_address :: "(string \<Rightarrow> ip_addr option) \<Rightarrow> string \<Rightarrow> ip_addr option" where
  "parse_ip6_address pton6 a = parse_ip_address_t pton6 INET6_ADDRSTRLEN a"

text \<open>The variants \<^verbatim>\<open>ip_addr_gen\<close> and \<^verbatim>\<open>ip_range_gen\<close>; the \<^verbatim>\<open>std::monostate\<close> alternative of
  \<^verbatim>\<open>parse_ip_address\<close> is \<open>None\<close>.\<close>

datatype ip_addr_gen = AddrV4 ip_addr | AddrV6 ip_addr

datatype ip_range_gen = RangeV4 ip_range | RangeV6 ip_range

definition parse_ip_address ::
    "(string \<Rightarrow> ip_addr option) \<Rightarrow> (string \<Rightarrow> ip_addr option) \<Rightarrow> string \<Rightarrow> ip_addr_gen option" where
  "parse_ip_address pton4 pton6 a =
     (case parse_ip4_address pton4 a of
        Some v4 \<Rightarrow> Some (AddrV4 v4)
      | None \<Rightarrow> (case parse_ip6_address pton6 a of
                   Some v6 \<Rightarrow> Some (AddrV6 v6)
                 | None \<Rightarrow> None))"

subsection \<open>Printing\<close>

definition ip_to_stream :: "(ip_addr \<Rightarrow> string option) \<Rightarrow> nat \<Rightarrow> ip_addr \<Rightarrow> ostream \<Rightarrow> ostream" where
  "ip_to_stream ntop str_size a os =
     (case ntop a of None \<Rightarrow> os_setfail os | Some t \<Rightarrow> os_put (take str_size t) os)"

definition range_to_stream :: "(ip_addr \<Rightarrow> string option) \<Rightarrow> nat \<Rightarrow> ip_range \<Rightarrow> ostream \<Rightarrow> ostream" where
  "range_to_stream ntop str_size r os =
     ip_to_stream ntop str_size (netmask r) (os_put ''/'' (ip_to_stream ntop str_size (ip r) os))"

definition ip_to_string :: "(ip_addr \<Rightarrow> string option) \<Rightarrow> nat \<Rightarrow> ip_addr \<Rightarrow> string result" where
  "ip_to_string ntop str_size a =
     (case ntop a of
        None \<Rightarrow> Inl (NstlException ''IP cannot converted to string'')
      | Some t \<Rightarrow> Inr (take str_size t))"

definition gen_to_string ::
    "(ip_addr \<Rightarrow> string option) \<Rightarrow> (ip_addr \<Rightarrow> string option) \<Rightarrow> ip_addr_gen \<Rightarrow> string result" where
  "gen_to_string ntop4 ntop6 g =
     (case g of AddrV4 a \<Rightarrow> ip_to_string ntop4 INET_ADDRSTRLEN a
              | AddrV6 a \<Rightarrow> ip_to_string ntop6 INET6_ADDRSTRLEN a)"

definition span_to_string ::
    "(ip_addr \<Rightarrow> string option) \<Rightarrow> (ip_addr \<Rightarrow> string option) \<Rightarrow> u8 list \<Rightarrow> string result" where
  "span_to_string ntop4 ntop6 a =
     throw_if (length a \<noteq> ipv4_size \<and> length a \<noteq> ipv6_size)
       (NstlException ''Blob size is invalid (4 or 16 expected)'')
       (ip_to_string (if length a = ipv4_size then ntop4 else ntop6) INET6_ADDRSTRLEN a)"

subsection \<open>IPv4 embedded in IPv6\<close>

definition v4_prefix :: "u8 list" where
  "v4_prefix = replicate 10 0 @ [0xFF, 0xFF]"

definition is_ipv4 :: "u8 list \<Rightarrow> ip_addr option result" where
  "is_ipv4 addr =
     (if length addr = ipv4_size then Inr (Some (take ipv4_size addr))
      else if length addr = ipv6_size then
        (if take (length v4_prefix) addr = v4_prefix
         then Inr (Some (take ipv4_size (drop (length v4_prefix) addr)))
         else Inr None)
      else Inl (NstlException
        ''Address is not 4 or 16 bytes long: it is not either IPv4 or IPv6''))"

subsection \<open>Membership in a list of ranges\<close>

text \<open>\<^verbatim>\<open>address_checker\<close>: a range of the other family never contains the address.\<close>

fun address_checker :: "ip_addr_gen \<Rightarrow> ip_range_gen \<Rightarrow> bool" where
  "address_checker (AddrV4 a) (RangeV4 r) = range_contains r a"
| "address_checker (AddrV6 a) (RangeV6 r) = range_contains r a"
| "address_checker _ _ = False"

definition contains_t :: "ip_range_gen list \<Rightarrow> ip_addr_gen \<Rightarrow> bool" where
  "contains_t ranges a = (find (\<lambda>r. address_checker a r) ranges \<noteq> None)"

fun contains_gen :: "ip_range_gen list \<Rightarrow> ip_addr_gen \<Rightarrow> bool" where
  "contains_gen ranges (AddrV4 a) = contains_t ranges (AddrV4 a)"
| "contains_gen ranges (AddrV6 a) = contains_t ranges (AddrV6 a)"

subsection \<open>The transparent comparator\<close>

text \<open>The four templates of \<^verbatim>\<open>ip_range_less\<close> compare the sizes first, then the address bytes (a
  range by its \<^verbatim>\<open>ip\<close>); the overloads on the variants dispatch with \<^verbatim>\<open>std::visit\<close>. \<open>less_item\<close> is
  the overload set on the operands a container mixes, an address or a range of either family.\<close>

definition less_sized :: "nat \<Rightarrow> nat \<Rightarrow> ip_addr \<Rightarrow> ip_addr \<Rightarrow> bool" where
  "less_sized l_size r_size l r =
     (if l_size < r_size then True else if r_size < l_size then False else lex_less l r)"

datatype ip_item = Addr ip_addr_gen | Range ip_range_gen

fun item_size :: "ip_item \<Rightarrow> nat" where
  "item_size (Addr (AddrV4 _)) = ipv4_size"
| "item_size (Addr (AddrV6 _)) = ipv6_size"
| "item_size (Range (RangeV4 _)) = ipv4_size"
| "item_size (Range (RangeV6 _)) = ipv6_size"

fun item_ip :: "ip_item \<Rightarrow> ip_addr" where
  "item_ip (Addr (AddrV4 a)) = a"
| "item_ip (Addr (AddrV6 a)) = a"
| "item_ip (Range (RangeV4 r)) = ip r"
| "item_ip (Range (RangeV6 r)) = ip r"

definition ip_range_less :: "ip_item \<Rightarrow> ip_item \<Rightarrow> bool" where
  "ip_range_less l r = less_sized (item_size l) (item_size r) (item_ip l) (item_ip r)"

section \<open>Masks\<close>

lemma bit_mask_byte:
  assumes "k \<le> 8" "n < 8"
  shows "bit (push_bit (8 - k) 0xFF :: u8) n \<longleftrightarrow> 8 - k \<le> n"
proof -
  have ones: "(0xFF :: u8) = -1" by simp
  show ?thesis unfolding ones using assms by (auto simp: bit_not_iff bit_mask_iff)
qed

lemma byte_bits_mask_byte:
  assumes "k \<le> 8"
  shows "byte_bits (push_bit (8 - k) 0xFF) = replicate k True @ replicate (8 - k) False"
  using assms by (intro nth_equalityI)
    (auto simp: byte_bits_nth bit_mask_byte nth_append)

lemma byte_bits_zero: "byte_bits 0 = replicate 8 False"
  by (intro nth_equalityI) (auto simp: byte_bits_nth)

lemma bits_of_append: "bits_of (xs @ ys) = bits_of xs @ bits_of ys"
  by (simp add: bits_of_def)

lemma bits_of_zeros: "bits_of (replicate n 0) = replicate (8 * n) False"
  by (induction n) (simp_all add: byte_bits_zero replicate_add)

lemma mask_join:
  assumes "k = min 8 m" "i < n" "m \<le> 8 * (n - i)"
  shows "replicate k True @ replicate (8 - k) False @ replicate (m - k) True
      @ replicate (8 * (n - (i + 1)) - (m - k)) False
    = replicate m True @ replicate (8 * (n - i) - m) False"
proof (cases "8 \<le> m")
  case True
  then have "k = 8" "m = 8 + (m - 8)" "8 * (n - (i + 1)) - (m - 8) = 8 * (n - i) - m"
    using assms by auto
  then show ?thesis by (metis append_Nil append_assoc cancel_comm_monoid_add_class.diff_cancel
        replicate_0 replicate_add)
next
  case False
  then have "k = m" "8 * (n - i) - m = (8 - m) + 8 * (n - (i + 1))" using assms by auto
  then show ?thesis by (simp add: replicate_add)
qed

lemma create_mask_loop_bits:
  assumes "i \<le> n" "length r = n" "drop i r = replicate (n - i) 0" "unat m \<le> 8 * (n - i)"
  shows "length (create_mask_loop n i m r) = n \<and>
    bits_of (create_mask_loop n i m r) =
      bits_of (take i r) @ replicate (unat m) True @ replicate (8 * (n - i) - unat m) False"
  using assms
proof (induction n i m r rule: create_mask_loop.induct)
  case (1 n i m r)
  show ?case
  proof (cases "i < n \<and> 0 < m")
    case False
    then have "unat m = 0" using 1(2,5) by (auto simp: word_gt_0)
    moreover have "create_mask_loop n i m r = r"
      by (subst create_mask_loop.simps) (simp only: False if_False)
    moreover have "bits_of r = bits_of (take i r) @ bits_of (drop i r)"
      by (simp flip: bits_of_append)
    ultimately show ?thesis using 1(3,4) by (simp add: bits_of_zeros)
  next
    case True
    define k where "k = min 8 (unat m)"
    define b where "b = (if 8 \<le> m then 8 else m)"
    have b: "unat b = k" "unat (8 - b) = 8 - k" "unat (m - b) = unat m - k"
      unfolding b_def k_def by (auto simp: unat_sub word_le_nat_alt min_def)
    let ?r = "r[i := push_bit (8 - k) 0xFF]"
    have step: "create_mask_loop n i m r = create_mask_loop n (i + 1) (m - b) ?r"
      by (subst create_mask_loop.simps) (simp only: True if_True simp_thms Let_def b(2) flip: b_def)
    have tk: "take (i + 1) ?r = take i r @ [push_bit (8 - k) 0xFF]"
      using True 1(3) by (simp add: take_Suc_conv_app_nth)
    have dr: "drop (i + 1) ?r = replicate (n - (i + 1)) 0"
    proof -
      have "drop (i + 1) ?r = drop 1 (drop i r)" by simp
      then show ?thesis by (simp only: 1(4)) simp
    qed
    have le: "unat (m - b) \<le> 8 * (n - (i + 1))"
      using 1(5) True unfolding b(3) k_def by auto
    have ih: "length (create_mask_loop n (i + 1) (m - b) ?r) = n"
      "bits_of (create_mask_loop n (i + 1) (m - b) ?r) = bits_of (take (i + 1) ?r)
        @ replicate (unat m - k) True @ replicate (8 * (n - (i + 1)) - (unat m - k)) False"
      using 1(1) [OF True b_def] True 1(3) dr le by (simp_all only: b) simp_all
    have byte: "byte_bits (push_bit (8 - k) 0xFF) = replicate k True @ replicate (8 - k) False"
      by (rule byte_bits_mask_byte) (simp add: k_def)
    have "replicate k True @ replicate (8 - k) False @ replicate (unat m - k) True
        @ replicate (8 * (n - (i + 1)) - (unat m - k)) False
      = replicate (unat m) True @ replicate (8 * (n - i) - unat m) False"
      by (rule mask_join) (use True 1(5) in \<open>auto simp: k_def\<close>)
    then show ?thesis
      unfolding step using ih by (simp only: tk bits_of_append) (simp add: byte)
  qed
qed

lemma create_mask_Inr:
  "create_mask n m = Inr r \<longleftrightarrow> unat m \<le> 8 * n \<and> length r = n \<and>
     bits_of r = replicate (unat m) True @ replicate (8 * n - unat m) False"
  using create_mask_loop_bits [of 0 n "replicate n 0" m]
    bits_of_inject [of "create_mask_loop n 0 m (replicate n 0)" r]
  by (auto simp: create_mask_def throw_if_Inr bytes_in_bits_def)

lemma create_mask_Inl:
  "create_mask n m = Inl e \<longleftrightarrow> 8 * n < unat m \<and> e = NstlException '' mask is invalid''"
  by (auto simp: create_mask_def throw_if_def bytes_in_bits_def)

text \<open>\<^verbatim>\<open>create_mask\<close>: for every address size and prefix length, the call throws exactly when the
  prefix is longer than the address, and otherwise returns an address of that size whose first
  \<^verbatim>\<open>mask_\<close> bits in network order are one and the others zero.\<close>

theorem create_mask_correct:
  "case create_mask n m of
     Inl e \<Rightarrow> 8 * n < unat m \<and> e = NstlException '' mask is invalid''
   | Inr r \<Rightarrow> unat m \<le> 8 * n \<and> length r = n \<and>
       bits_of r = replicate (unat m) True @ replicate (8 * n - unat m) False"
  using create_mask_Inl [of n m] create_mask_Inr [of n m] by (auto split: sum.split)

section \<open>Membership\<close>

lemma byte_bits_and: "byte_bits (a AND b) = map2 (\<and>) (byte_bits a) (byte_bits b)"
  by (intro nth_equalityI) (auto simp: byte_bits_nth bit_and_iff)

lemma bits_of_and_arrays:
  "length a = length b \<Longrightarrow> bits_of (and_arrays a b) = map2 (\<and>) (bits_of a) (bits_of b)"
  by (induction a b rule: list_induct2) (auto simp: and_arrays_def byte_bits_and)

lemma length_and_arrays [simp]: "length (and_arrays a b) = min (length a) (length b)"
  by (simp add: and_arrays_def)

lemma map2_and_prefix:
  "length bs = k + l \<Longrightarrow>
     map2 (\<and>) (replicate k True @ replicate l False) bs = take k bs @ replicate l False"
proof (induction k arbitrary: bs)
  case 0
  then show ?case by (intro nth_equalityI) auto
next
  case (Suc k)
  then show ?case by (cases bs) auto
qed

lemma range_contains_bits:
  assumes "length (ip r) = length (netmask r)" "length a = length (netmask r)"
  shows "range_contains r a \<longleftrightarrow>
    map2 (\<and>) (bits_of (netmask r)) (bits_of a) = map2 (\<and>) (bits_of (netmask r)) (bits_of (ip r))"
  using assms bits_of_inject [of "and_arrays (netmask r) a" "and_arrays (netmask r) (ip r)"]
  by (simp add: range_contains_def bits_of_and_arrays)

lemma range_contains_bits_prefix:
  assumes "length a = n" "length b = n" "ip_range_of_bits n a m = Inr r"
  shows "range_contains r b \<longleftrightarrow> take (unat m) (bits_of b) = take (unat m) (bits_of a)"
proof -
  obtain msk where msk: "create_mask n m = Inr msk" and r: "r = \<lparr>ip = a, netmask = msk\<rparr>"
    using assms(3) by (auto simp: ip_range_of_bits_def bind_result_Inr)
  have bits: "unat m \<le> 8 * n" "length msk = n"
    "bits_of msk = replicate (unat m) True @ replicate (8 * n - unat m) False"
    using msk by (auto simp: create_mask_Inr)
  then have "map2 (\<and>) (bits_of msk) (bits_of x) = take (unat m) (bits_of x) @ replicate (8 * n - unat m) False"
    if "length x = n" for x
    using that map2_and_prefix [of "bits_of x" "unat m" "8 * n - unat m"] by simp
  with assms bits(2) show ?thesis by (simp add: range_contains_bits r)
qed

text \<open>C16 (\<^verbatim>\<open>ip_range_base::contains\<close>): a range built from an address and a prefix length contains
  exactly the addresses that agree with it on that many leading bits.\<close>

theorem range_contains_prefix:
  assumes "length a = n" "length b = n" "ip_range_of_bits n a m = Inr r"
  shows "range_contains r b \<longleftrightarrow> take (unat m) (bits_of b) = take (unat m) (bits_of a)"
  using assms by (rule range_contains_bits_prefix)

text \<open>The documentation of the tests: 192.168.1.0/24 contains 192.168.1.17 and not 192.168.0.17.\<close>

theorem range_contains_prefix_witness:
  "\<exists>r. ip_range_of_bits 4 [192, 168, 1, 0] 24 = Inr r
     \<and> range_contains r [192, 168, 1, 17] \<and> \<not> range_contains r [192, 168, 0, 17]"
proof -
  obtain r where r: "ip_range_of_bits 4 [192, 168, 1, 0] 24 = Inr r"
    by (auto simp: ip_range_of_bits_def create_mask_def bytes_in_bits_def)
  have "take (unat (24 :: u8)) (bits_of [192, 168, 1, 17]) = take (unat (24 :: u8)) (bits_of [192, 168, 1, 0])"
    "take (unat (24 :: u8)) (bits_of [192, 168, 0, 17]) \<noteq> take (unat (24 :: u8)) (bits_of [192, 168, 1, 0])"
    by (simp_all add: byte_bits_list)
  with r range_contains_prefix [OF _ _ r, of "[192, 168, 1, 17]"]
    range_contains_prefix [OF _ _ r, of "[192, 168, 0, 17]"]
  show ?thesis by simp
qed

lemma contains_gen_iff: "contains_gen ranges a \<longleftrightarrow> (\<exists>r \<in> set ranges. address_checker a r)"
  by (cases a) (auto simp: contains_t_def find_None_iff)

text \<open>A prefix in either family, and the range the constructor makes of it.\<close>

fun gen_bytes :: "ip_addr_gen \<Rightarrow> ip_addr" where
  "gen_bytes (AddrV4 a) = a"
| "gen_bytes (AddrV6 a) = a"

fun gen_size :: "ip_addr_gen \<Rightarrow> nat" where
  "gen_size (AddrV4 _) = ipv4_size"
| "gen_size (AddrV6 _) = ipv6_size"

definition wf_gen :: "ip_addr_gen \<Rightarrow> bool" where
  "wf_gen g = (length (gen_bytes g) = gen_size g)"

definition gen_range :: "ip_addr_gen \<Rightarrow> u8 \<Rightarrow> ip_range_gen result" where
  "gen_range g m =
     (case g of AddrV4 a \<Rightarrow> bind_result (ip_range_of_bits ipv4_size a m) (\<lambda>r. Inr (RangeV4 r))
              | AddrV6 a \<Rightarrow> bind_result (ip_range_of_bits ipv6_size a m) (\<lambda>r. Inr (RangeV6 r)))"

definition prefix_of :: "ip_addr_gen \<times> u8 \<Rightarrow> ip_addr_gen \<Rightarrow> bool" where
  "prefix_of p a = (gen_size (fst p) = gen_size a \<and>
     take (unat (snd p)) (bits_of (gen_bytes a)) = take (unat (snd p)) (bits_of (gen_bytes (fst p))))"

lemma address_checker_gen_range:
  assumes "gen_range g m = Inr r" "wf_gen g" "wf_gen a"
  shows "address_checker a r \<longleftrightarrow> prefix_of (g, m) a"
  using assms range_contains_bits_prefix
  by (cases g; cases a) (auto simp: gen_range_def bind_result_Inr wf_gen_def prefix_of_def)

text \<open>\<^verbatim>\<open>contains\<close>: a list of ranges built from prefixes of both families contains an address
  exactly when one of the prefixes is of its family and is a prefix of its bits.\<close>

theorem contains_gen_correct:
  assumes "list_all (\<lambda>(g, m). wf_gen g) ps" "wf_gen a"
    "map (\<lambda>(g, m). gen_range g m) ps = map Inr ranges"
  shows "contains_gen ranges a \<longleftrightarrow> list_ex (\<lambda>p. prefix_of p a) ps"
  using assms(1,3)
proof (induction ps arbitrary: ranges)
  case Nil
  then show ?case by (simp add: contains_gen_iff)
next
  case (Cons p ps)
  then obtain r rs where "ranges = r # rs" "gen_range (fst p) (snd p) = Inr r"
    "map (\<lambda>(g, m). gen_range g m) ps = map Inr rs"
    by (cases p) (auto simp: map_eq_Cons_conv)
  with Cons address_checker_gen_range [of "fst p" "snd p" r a] assms(2) show ?case
    by (auto simp: contains_gen_iff case_prod_beta)
qed

theorem contains_gen_correct_witness:
  "\<exists>ranges. map (\<lambda>(g, m). gen_range g m) [(AddrV6 (replicate 16 0), 0), (AddrV4 [10, 0, 0, 0], 8)]
      = map Inr ranges
    \<and> contains_gen ranges (AddrV4 [10, 1, 2, 3]) \<and> \<not> contains_gen ranges (AddrV4 [11, 1, 2, 3])"
proof -
  let ?ps = "[(AddrV6 (replicate 16 0), 0), (AddrV4 [10, 0, 0, 0], 8)]"
  obtain r1 r2 where r: "gen_range (AddrV6 (replicate 16 0)) 0 = Inr r1"
    "gen_range (AddrV4 [10, 0, 0, 0]) 8 = Inr r2"
    by (auto simp: gen_range_def ip_range_of_bits_def create_mask_def bytes_in_bits_def)
  have wf: "list_all (\<lambda>(g, m). wf_gen g) ?ps" by (simp add: wf_gen_def)
  have "prefix_of (AddrV4 [10, 0, 0, 0], 8) (AddrV4 [10, 1, 2, 3])"
    "\<not> prefix_of (AddrV4 [10, 0, 0, 0], 8) (AddrV4 [11, 1, 2, 3])"
    by (simp_all add: prefix_of_def byte_bits_list)
  moreover have "\<not> prefix_of (AddrV6 (replicate 16 0), 0) (AddrV4 x)" for x
    by (simp add: prefix_of_def)
  ultimately show ?thesis
    using r contains_gen_correct [OF wf, of "AddrV4 [10, 1, 2, 3]" "[r1, r2]"]
      contains_gen_correct [OF wf, of "AddrV4 [11, 1, 2, 3]" "[r1, r2]"]
    by (intro exI [of _ "[r1, r2]"]) (simp add: wf_gen_def)
qed

section \<open>Comparators\<close>

lemma range_less_eq:
  "range_less l r \<longleftrightarrow> lex_less (ip l) (ip r) \<or> ip l = ip r \<and> lex_less (netmask l) (netmask r)"
  using lex_less_linear [of "ip l" "ip r"]
  by (auto simp: range_less_def intro: lex_less_trans)

interpretation rng: strict_total range_less
proof unfold_locales
  fix x y z :: ip_range
  show "\<not> range_less x x" by (simp add: range_less_eq)
  show "range_less x y \<Longrightarrow> range_less y z \<Longrightarrow> range_less x z"
    by (auto simp: range_less_eq intro: lex_less_trans)
  show eq: "x = y" if "\<not> range_less x y" "\<not> range_less y x" for x y
    using that lex_less_linear [of "ip x" "ip y"] lex_less_linear [of "netmask x" "netmask y"]
    by (auto simp: range_less_eq)
  show "\<not> range_less x z \<and> \<not> range_less z x"
    if "\<not> range_less x y" "\<not> range_less y x" "\<not> range_less y z" "\<not> range_less z y"
    using that eq [of x y] eq [of y z] by simp
qed

text \<open>The comparator is the lexicographic order on the size and the bytes of an item's address.\<close>

definition item_key :: "ip_item \<Rightarrow> nat \<times> ip_addr" where
  "item_key i = (item_size i, item_ip i)"

definition key_less :: "nat \<times> ip_addr \<Rightarrow> nat \<times> ip_addr \<Rightarrow> bool" where
  "key_less k l = (fst k < fst l \<or> fst k = fst l \<and> lex_less (snd k) (snd l))"

lemma ip_range_less_key: "ip_range_less l r = key_less (item_key l) (item_key r)"
  by (auto simp: ip_range_less_def less_sized_def key_less_def item_key_def)

lemma strict_total_key_less: "strict_total key_less"
proof unfold_locales
  fix x y z :: "nat \<times> ip_addr"
  show "\<not> key_less x x" by (simp add: key_less_def)
  show "key_less x y \<Longrightarrow> key_less y z \<Longrightarrow> key_less x z"
    by (auto simp: key_less_def intro: lex_less_trans)
  show eq: "x = y" if "\<not> key_less x y" "\<not> key_less y x" for x y
    using that lex_less_linear [of "snd x" "snd y"] by (auto simp: key_less_def prod_eq_iff)
  show "\<not> key_less x z \<and> \<not> key_less z x"
    if "\<not> key_less x y" "\<not> key_less y x" "\<not> key_less y z" "\<not> key_less z y"
    using that eq [of x y] eq [of y z] by simp
qed

lemma key_less_total: "\<not> key_less k l \<Longrightarrow> \<not> key_less l k \<Longrightarrow> k = l"
  by (rule strict_total.total [OF strict_total_key_less])

interpretation iprl: strict_weak ip_range_less
proof -
  have "strict_weak (\<lambda>l r. key_less (item_key l) (item_key r))"
    using strict_total_key_less by (simp add: strict_total_def strict_weak_inv_image)
  then show "strict_weak ip_range_less" by (simp flip: ip_range_less_key)
qed

text \<open>\<^verbatim>\<open>ip_range_less\<close>: over addresses and ranges of both families, the transparent comparator is
  a strict weak order, as an ordered container needs, and two items are equivalent for it exactly
  when they are of the same family and have the same address bytes, whatever their masks.\<close>

theorem ip_range_less_strict_weak:
  "strict_weak ip_range_less \<and>
   (\<not> ip_range_less a b \<and> \<not> ip_range_less b a
      \<longleftrightarrow> item_size a = item_size b \<and> item_ip a = item_ip b)"
proof -
  have "\<not> ip_range_less a b \<and> \<not> ip_range_less b a \<longleftrightarrow> item_key a = item_key b"
  proof
    assume "\<not> ip_range_less a b \<and> \<not> ip_range_less b a"
    then show "item_key a = item_key b" by (simp add: ip_range_less_key key_less_total)
  next
    assume "item_key a = item_key b"
    then show "\<not> ip_range_less a b \<and> \<not> ip_range_less b a"
      by (simp add: ip_range_less_key key_less_def)
  qed
  with iprl.strict_weak_axioms show ?thesis unfolding item_key_def prod.inject by blast
qed

text \<open>\<^verbatim>\<open>operator<\<close> and \<^verbatim>\<open>operator==\<close> of ranges: the order is total and agrees with equality:
  exactly one of less, equal and greater holds for two ranges.\<close>

theorem range_less_total:
  "strict_total range_less \<and> (\<not> range_less l r \<and> \<not> range_less r l \<longleftrightarrow> range_eq l r)"
proof -
  have "range_eq l r \<longleftrightarrow> l = r" by (auto simp: range_eq_def)
  then show ?thesis using rng.strict_total_axioms rng.total [of l r] rng.irrefl [of r] by auto
qed

section \<open>Embedded IPv4 addresses\<close>

text \<open>\<^verbatim>\<open>is_ipv4\<close>: a span is accepted as IPv4 exactly when it is four bytes long, or sixteen
  bytes with the v4-mapped prefix in front of the returned address; a sixteen byte span without
  the prefix gives no address, and every other length throws.\<close>

theorem is_ipv4_correct:
  "case is_ipv4 s of
     Inr (Some a) \<Rightarrow> length a = 4 \<and> (s = a \<or> s = v4_prefix @ a)
   | Inr None \<Rightarrow> length s = 16 \<and> (\<forall>a. s \<noteq> v4_prefix @ a)
   | Inl e \<Rightarrow> length s \<noteq> 4 \<and> length s \<noteq> 16"
proof -
  have p: "length v4_prefix = 12" by (simp add: v4_prefix_def)
  have eq: "v4_prefix @ drop 12 s = s" if "take 12 s = v4_prefix"
    using that append_take_drop_id [of 12 s] by metis
  show ?thesis
  proof (cases "length s = 16 \<and> take 12 s = v4_prefix")
    case True
    with eq p show ?thesis by (simp add: is_ipv4_def)
  next
    case False
    with p show ?thesis by (auto simp: is_ipv4_def)
  qed
qed

lemma is_ipv4_roundtrip:
  "length a = 4 \<Longrightarrow> is_ipv4 a = Inr (Some a) \<and> is_ipv4 (v4_prefix @ a) = Inr (Some a)"
  by (simp add: is_ipv4_def v4_prefix_def)

section \<open>Parsing ranges\<close>

lemma parse_mask_bound:
  assumes "parse_mask n s \<noteq> invalid_mask"
  shows "unat (parse_mask n s) \<le> 8 * n"
  using assms
  by (auto simp: parse_mask_def ip_max_bits_def bytes_in_bits_def Let_def split: prod.splits if_splits)

lemma parse_mask_show_nat:
  assumes "k \<le> 8 * n" "8 * n < 255"
  shows "parse_mask n (show_nat k) = word_of_nat k" "(word_of_nat k :: u8) \<noteq> invalid_mask"
proof -
  have "std_from_chars 0 255 (show_nat k) = (length (show_nat k), NoError, Some (int k))"
    using std_from_chars_show_int [of 0 "int k" 255] assms by (simp add: show_int_def)
  moreover have u: "unat (word_of_nat k :: u8) = k"
    using assms by (simp add: unat_of_nat)
  ultimately show "parse_mask n (show_nat k) = word_of_nat k"
    using assms by (simp add: parse_mask_def ip_max_bits_def bytes_in_bits_def Let_def)
  show "(word_of_nat k :: u8) \<noteq> invalid_mask"
  proof
    assume "word_of_nat k = invalid_mask"
    then have "unat (word_of_nat k :: u8) = unat invalid_mask" by simp
    with u assms show False by (simp add: invalid_mask_def)
  qed
qed

lemma ip_range_of_bits_Inr:
  "unat m \<le> 8 * n \<Longrightarrow> \<exists>r. ip_range_of_bits n a m = Inr r"
  by (simp add: ip_range_of_bits_def create_mask_def bytes_in_bits_def throw_if_def)

lemma parse_ip_range_no_throw:
  "\<exists>r. parse_ip_range n pton sz s = Inr r"
proof -
  have le: "unat (word_of_nat j :: u8) \<le> j" for j by (simp add: unat_of_nat)
  have "unat (word_of_nat (ip_max_bits n) :: u8) \<le> 8 * n"
    using le [of "ip_max_bits n"] by (simp add: ip_max_bits_def bytes_in_bits_def mult.commute)
  then have A: "\<exists>r. bind_result (ip_range_of_bits n a (word_of_nat (ip_max_bits n)))
      (\<lambda>r. Inr (Some r)) = Inr r" for a
    using ip_range_of_bits_Inr [of "word_of_nat (ip_max_bits n)" n a] by auto
  have B: "\<exists>r. bind_result (ip_range_of_bits n a (parse_mask n v)) (\<lambda>r. Inr (Some r)) = Inr r"
    if "parse_mask n v \<noteq> invalid_mask" for a v
    using ip_range_of_bits_Inr [OF parse_mask_bound [OF that], of a] by auto
  show ?thesis
    by (auto simp: parse_ip_range_def Let_def A B split: option.split)
qed

text \<open>A range of a size: an address and a mask of that many bytes.\<close>

definition range_typed :: "nat \<Rightarrow> ip_range \<Rightarrow> bool" where
  "range_typed n r \<longleftrightarrow> length (ip r) = n \<and> length (netmask r) = n"

lemma ip_range_of_bits_typed:
  assumes "ip_range_of_bits n a m = Inr r" "length a = n"
  shows "range_typed n r"
  using assms by (auto simp: ip_range_of_bits_def bind_result_Inr create_mask_Inr range_typed_def)

lemma parse_ip_range_typed:
  assumes "\<And>t a. pton t = Some a \<Longrightarrow> length a = n" "parse_ip_range n pton sz s = Inr (Some r)"
  shows "range_typed n r"
proof -
  have len: "length a = n" if "parse_ip_address_t pton sz t = Some a" for t a
    using that assms(1) by (auto simp: parse_ip_address_t_def split: if_splits)
  have "\<exists>a. length a = n \<and> ((\<exists>m. ip_range_of_bits n a m = Inr r) \<or> (\<exists>b. length b = n \<and> r = \<lparr>ip = a, netmask = b\<rparr>))"
    using assms(2) unfolding parse_ip_range_def
    by (auto simp: Let_def bind_result_Inr split: option.splits if_splits dest!: len)
  then show ?thesis using ip_range_of_bits_typed by (auto simp: range_typed_def)
qed

text \<open>C37 (\<^verbatim>\<open>parse_ip4_range\<close>, \<^verbatim>\<open>parse_ip6_range\<close>): when \<^verbatim>\<open>inet_pton\<close> gives addresses of the size of the family,
  parsing never throws, whatever the text (the prefix length handed to \<^verbatim>\<open>create_mask\<close> is always valid), and a range that
  it returns is well typed: address and mask both have the 4 or 16 bytes of the family.\<close>

theorem parse_range_typed:
  assumes "\<And>t a. pton4 t = Some a \<Longrightarrow> length a = 4" "\<And>t a. pton6 t = Some a \<Longrightarrow> length a = 16"
  shows "(\<exists>r. parse_ip4_range pton4 s = Inr r \<and> pred_option (range_typed 4) r) \<and>
    (\<exists>r. parse_ip6_range pton6 s = Inr r \<and> pred_option (range_typed 16) r)"
proof -
  have typed: "\<exists>r. parse_ip_range n pton sz s = Inr r \<and> pred_option (range_typed n) r"
    if "\<And>t a. pton t = Some a \<Longrightarrow> length a = n" for n pton sz
  proof -
    obtain r where r: "parse_ip_range n pton sz s = Inr r" using parse_ip_range_no_throw by blast
    then have "pred_option (range_typed n) r" using parse_ip_range_typed [OF that] by (cases r) auto
    then show ?thesis using r by blast
  qed
  show ?thesis
    using typed [of pton4 4 INET_ADDRSTRLEN] typed [of pton6 16 INET6_ADDRSTRLEN] assms
    by (simp add: parse_ip4_range_def parse_ip6_range_def)
qed

theorem parse_range_typed_witness:
  "\<exists>r. parse_ip4_range (\<lambda>t. if t = ''10.0.0.0'' then Some [10, 0, 0, 0] else None) ''10.0.0.0/8'' = Inr r \<and>
     pred_option (range_typed 4) r \<and> r \<noteq> None"
proof -
  let ?p = "\<lambda>t. if t = ''10.0.0.0'' then Some [10, 0, 0, 0 :: u8] else None"
  have "length a = 4" if "?p t = Some a" for t a using that by (auto split: if_splits)
  then obtain r where r: "parse_ip4_range ?p ''10.0.0.0/8'' = Inr r" "pred_option (range_typed 4) r"
    using parse_range_typed [of ?p "\<lambda>_. None" "''10.0.0.0/8''"] by auto
  have "parse_ip4_range ?p ''10.0.0.0/8'' \<noteq> Inr None" by code_simp
  then show ?thesis using r by auto
qed

lemma takeWhile_id: "(\<And>x. x \<in> set xs \<Longrightarrow> P x) \<Longrightarrow> takeWhile P xs = xs"
  by simp

lemma parse_ip_range_prefix:
  assumes "pton txt = Some a" "list_all (\<lambda>c. code_of c \<noteq> 0 \<and> c \<noteq> CHR ''/'') txt" "length txt < sz"
    "k \<le> 8 * n" "8 * n < 255"
  shows "parse_ip_range n pton sz (txt @ CHR ''/'' # show_nat k) =
    bind_result (ip_range_of_bits n a (word_of_nat k)) (\<lambda>r. Inr (Some r))"
proof -
  have "find_idx (CHR ''/'') (txt @ CHR ''/'' # show_nat k) = Some (length txt)"
    using assms(2) by (intro find_idx_append) (auto simp: list_all_iff)
  moreover have "parse_ip_address_t pton sz txt = Some a"
    using assms by (simp add: parse_ip_address_t_def list_all_iff takeWhile_id)
  ultimately show ?thesis
    using parse_mask_show_nat [OF assms(4,5)] by (simp add: parse_ip_range_def)
qed

text \<open>\<^verbatim>\<open>parse_ip4_range\<close>, \<^verbatim>\<open>parse_ip6_range\<close>: the text "address/length" in CIDR notation, for an
  address text that \<^verbatim>\<open>inet_pton\<close> accepts and a length up to the size of the address, parses to the
  range that contains exactly the addresses sharing that many leading bits.\<close>

theorem parse_range_cidr:
  assumes "pton txt = Some a" "length a = n" "n = 4 \<or> n = 16"
    "list_all (\<lambda>c. code_of c \<noteq> 0 \<and> c \<noteq> CHR ''/'') txt" "length txt < sz" "k \<le> 8 * n"
  shows "\<exists>r. parse_ip_range n pton sz (txt @ CHR ''/'' # show_nat k) = Inr (Some r) \<and> ip r = a
    \<and> {b. length b = n \<and> range_contains r b}
      = {b. length b = n \<and> take k (bits_of b) = take k (bits_of a)}"
proof -
  have k: "unat (word_of_nat k :: u8) = k" using assms(3,6) by (auto simp: unat_of_nat)
  then obtain r where r: "ip_range_of_bits n a (word_of_nat k) = Inr r"
    using ip_range_of_bits_Inr [of "word_of_nat k" n a] assms(6) by auto
  have "parse_ip_range n pton sz (txt @ CHR ''/'' # show_nat k) = Inr (Some r)"
    using parse_ip_range_prefix [of pton, OF assms(1,4,5,6)] assms(3) r by auto
  moreover have "ip r = a" using r by (auto simp: ip_range_of_bits_def bind_result_Inr)
  moreover have "range_contains r b \<longleftrightarrow> take k (bits_of b) = take k (bits_of a)" if "length b = n" for b
    using range_contains_bits_prefix [OF assms(2) that r] k by simp
  ultimately show ?thesis by blast
qed

theorem parse_range_cidr_witness:
  "\<exists>r. parse_ip_range 4 (\<lambda>t. if t = ''10.0.0.0'' then Some [10, 0, 0, 0] else None) 16
        (''10.0.0.0'' @ CHR ''/'' # show_nat 8) = Inr (Some r) \<and> ip r = [10, 0, 0, 0]"
  using parse_range_cidr [of "\<lambda>t. if t = ''10.0.0.0'' then Some [10, 0, 0, 0] else None"
      "''10.0.0.0''" "[10, 0, 0, 0]" 4 16 8]
  by (auto simp: code_of_def)

text \<open>A NUL inside the view ends the text for \<^verbatim>\<open>inet_pton\<close>, what follows it is ignored.\<close>

lemma parse_ip_address_t_nul:
  assumes "length (txt @ CHR 0x00 # junk) < sz" "list_all (\<lambda>c. code_of c \<noteq> 0) txt"
  shows "parse_ip_address_t pton sz (txt @ CHR 0x00 # junk) = pton txt"
proof -
  have "takeWhile (\<lambda>c. code_of c \<noteq> 0) (txt @ CHR 0x00 # junk) = txt"
    using assms(2) by (simp add: takeWhile_append list_all_iff code_of_def)
  then show ?thesis using assms(1) by (simp add: parse_ip_address_t_def)
qed

text \<open>Printing and parsing an address: with an \<^verbatim>\<open>inet_ntop\<close> whose text \<^verbatim>\<open>inet_pton\<close> reads back.\<close>

lemma ip_to_string_parse:
  assumes "ntop a = Some t" "pton t = Some a" "length t < sz" "list_all (\<lambda>c. code_of c \<noteq> 0) t"
  shows "\<exists>s. ip_to_string ntop sz a = Inr s \<and> parse_ip_address_t pton sz s = Some a"
  using assms by (simp add: ip_to_string_def parse_ip_address_t_def list_all_iff takeWhile_id)

lemma range_to_stream_text:
  assumes "ntop (ip r) = Some t" "ntop (netmask r) = Some u" "length t \<le> sz" "length u \<le> sz"
    "\<not> os_fail os"
  shows "range_to_stream ntop sz r os = os\<lparr>os_text := os_text os @ t @ CHR ''/'' # u\<rparr>"
  using assms by (simp add: range_to_stream_def ip_to_stream_def os_put_def)

end
