(* ===== verification/Vector.thy ===== *)
theory Vector
  imports NstlPrelude
begin

text \<open>
  \<^verbatim>\<open>nstl::vector<Type>\<close> of \<^verbatim>\<open>nstl/vector.hpp\<close>, over an explicit heap: blocks of cells that
  \<^verbatim>\<open>std::realloc\<close> and \<^verbatim>\<open>std::free\<close> manage. A cell is \<open>None\<close> until an element is constructed in it.
  The object holds the address of its block, the size and the capacity, counted in elements; sizes
  are \<^verbatim>\<open>size_t\<close>, with the wrap-around of their arithmetic written out. An operation maps the heap
  and the object to their new values together with what it returns or throws, so that the state
  after an exception is visible. \<open>sz\<close> is \<^verbatim>\<open>sizeof(Type)\<close>, and \<open>oc\<close> is the choice the allocator
  makes: fail, resize in place, or move the block. Destructors of trivially copyable types do
  nothing.
\<close>

section \<open>Definitions\<close>

subsection \<open>Heap\<close>

type_synonym addr = nat

record 'a heap =
  blocks :: "addr \<rightharpoonup> 'a option list"
  next_addr :: addr

datatype realloc_choice = ReFail | ReInPlace | ReMove

definition size_t_max :: nat where
  "size_t_max = 2 ^ 64 - 1"

definition resize_cells :: "nat \<Rightarrow> 'a option list \<Rightarrow> 'a option list" where
  "resize_cells n cs = take n cs @ replicate (n - length cs) None"

text \<open>\<^verbatim>\<open>std::realloc(p, n * sizeof(Type))\<close>, a fresh block for a null pointer.\<close>

definition std_realloc ::
    "realloc_choice \<Rightarrow> 'a heap \<Rightarrow> addr option \<Rightarrow> nat \<Rightarrow> 'a heap \<times> addr option" where
  "std_realloc oc h p n =
     (let a = next_addr h;
          cs = (case p of None \<Rightarrow> [] | Some b \<Rightarrow> (case blocks h b of None \<Rightarrow> [] | Some cs \<Rightarrow> cs));
          h' = h\<lparr>next_addr := a + 1\<rparr>
      in case oc of
           ReFail \<Rightarrow> (h, None)
         | ReInPlace \<Rightarrow>
             (case p of
                None \<Rightarrow> (h'\<lparr>blocks := (blocks h)(a \<mapsto> resize_cells n [])\<rparr>, Some a)
              | Some b \<Rightarrow> (h\<lparr>blocks := (blocks h)(b \<mapsto> resize_cells n cs)\<rparr>, Some b))
         | ReMove \<Rightarrow>
             (h'\<lparr>blocks := ((case p of None \<Rightarrow> blocks h | Some b \<Rightarrow> (blocks h)(b := None)))
                             (a \<mapsto> resize_cells n cs)\<rparr>, Some a))"

definition std_free :: "'a heap \<Rightarrow> addr option \<Rightarrow> 'a heap" where
  "std_free h p = (case p of None \<Rightarrow> h | Some b \<Rightarrow> h\<lparr>blocks := (blocks h)(b := None)\<rparr>)"

text \<open>A reference \<^verbatim>\<open>const Type&\<close> is bound to an object outside of the heap or to a cell.\<close>

datatype 'a valref = Temp 'a | Cell addr nat

fun deref :: "'a heap \<Rightarrow> 'a valref \<Rightarrow> 'a option" where
  "deref h (Temp x) = Some x"
| "deref h (Cell a i) =
     (case blocks h a of None \<Rightarrow> None | Some cs \<Rightarrow> if i < length cs then cs ! i else None)"

definition store_cell :: "'a heap \<Rightarrow> addr option \<Rightarrow> nat \<Rightarrow> 'a \<Rightarrow> 'a heap result" where
  "store_cell h p i x =
     (case p of
        None \<Rightarrow> Inl Undefined
      | Some a \<Rightarrow>
          (case blocks h a of
             None \<Rightarrow> Inl Undefined
           | Some cs \<Rightarrow> if i < length cs then Inr (h\<lparr>blocks := (blocks h)(a \<mapsto> cs[i := Some x])\<rparr>)
                        else Inl Undefined))"

text \<open>\<^verbatim>\<open>std::memmove(base + dst, base + src, n * sizeof(Type))\<close> inside one block.\<close>

definition memmove_cells :: "nat \<Rightarrow> nat \<Rightarrow> nat \<Rightarrow> 'a option list \<Rightarrow> 'a option list" where
  "memmove_cells dst src n cs = take dst cs @ take n (drop src cs) @ drop (dst + n) cs"

definition heap_memmove :: "'a heap \<Rightarrow> addr option \<Rightarrow> nat \<Rightarrow> nat \<Rightarrow> nat \<Rightarrow> 'a heap" where
  "heap_memmove h p dst src n =
     (case p of
        None \<Rightarrow> h
      | Some a \<Rightarrow>
          (case blocks h a of
             None \<Rightarrow> h
           | Some cs \<Rightarrow> h\<lparr>blocks := (blocks h)(a \<mapsto> memmove_cells dst src n cs)\<rparr>))"

subsection \<open>The vector object\<close>

record vector =
  v_ptr :: "addr option"
  v_size :: nat
  v_capacity :: nat

type_synonym 'a vstate = "'a heap \<times> vector"

type_synonym ('a, 'r) vop = "'a vstate \<Rightarrow> 'a vstate \<times> 'r result"

definition vector_new :: vector where
  "vector_new = \<lparr>v_ptr = None, v_size = 0, v_capacity = 0\<rparr>"

definition mem_reserve :: "nat \<Rightarrow> realloc_choice \<Rightarrow> nat \<Rightarrow> ('a, addr option) vop" where
  "mem_reserve sz oc new_capacity s =
     (case s of (h, v) \<Rightarrow>
        let max_capacity = size_t_max div sz in
        if max_capacity < new_capacity
        then (s, Inl (LengthError ''vector capacity would overflow the addressable size''))
        else (case std_realloc oc h (v_ptr v) new_capacity of
                (h', None) \<Rightarrow> ((h', v), Inl BadAlloc)
              | (h', Some a) \<Rightarrow>
                  ((h', v\<lparr>v_ptr := Some a, v_capacity := new_capacity\<rparr>), Inr (Some a))))"

definition auto_capacity :: "nat \<Rightarrow> realloc_choice \<Rightarrow> nat \<Rightarrow> ('a, addr option) vop" where
  "auto_capacity sz oc needed s =
     (let v = snd s in
      if needed \<le> v_capacity v then (s, Inr (v_ptr v))
      else if needed < 16 then mem_reserve sz oc 16 s
      else mem_reserve sz oc (max needed (v_capacity v * 2 mod 2 ^ 64)) s)"

text \<open>Both overloads of \<^verbatim>\<open>push_back\<close>: the reference is read after the block has been resized.\<close>

definition push_back :: "nat \<Rightarrow> realloc_choice \<Rightarrow> 'a valref \<Rightarrow> ('a, unit) vop" where
  "push_back sz oc val s =
     (let new_size = (v_size (snd s) + 1) mod 2 ^ 64 in
      case auto_capacity sz oc new_size s of
        (s', Inl e) \<Rightarrow> (s', Inl e)
      | ((h, v), Inr p) \<Rightarrow>
          (case deref h val of
             None \<Rightarrow> ((h, v), Inl Undefined)
           | Some x \<Rightarrow>
               (case store_cell h p (v_size v) x of
                  Inl e \<Rightarrow> ((h, v), Inl e)
                | Inr h' \<Rightarrow> ((h', v\<lparr>v_size := new_size\<rparr>), Inr ()))))"

definition pop_back :: "('a, unit) vop" where
  "pop_back s =
     (case s of (h, v) \<Rightarrow>
        if v_size v = 0 then (s, Inl (RuntimeError ''container is empty''))
        else ((h, v\<lparr>v_size := v_size v - 1\<rparr>), Inr ()))"

fun clear_loop :: "nat \<Rightarrow> nat" where
  "clear_loop 0 = 0"
| "clear_loop (Suc n) = clear_loop n"

definition vec_clear :: "'a vstate \<Rightarrow> 'a vstate" where
  "vec_clear s = (case s of (h, v) \<Rightarrow> (h, v\<lparr>v_size := clear_loop (v_size v)\<rparr>))"

definition vec_reset :: "'a vstate \<Rightarrow> 'a vstate" where
  "vec_reset s =
     (case vec_clear s of (h, v) \<Rightarrow> (std_free h (v_ptr v), v\<lparr>v_capacity := 0, v_ptr := None\<rparr>))"

text \<open>An iterator is its distance from \<^verbatim>\<open>begin()\<close>. \<^verbatim>\<open>_check_iterator<valid>\<close> of an iterator.\<close>

definition check_iterator :: "bool \<Rightarrow> vector \<Rightarrow> int \<Rightarrow> bool" where
  "check_iterator valid v itr =
     (0 \<le> itr \<and> (if valid then itr < int (v_size v) else itr \<le> int (v_size v)))"

definition erase_one :: "int \<Rightarrow> ('a, int) vop" where
  "erase_one itr s =
     (case s of (h, v) \<Rightarrow>
        if \<not> check_iterator True v itr then (s, Inl (InvalidArgument ''got invalid iterator''))
        else let i = nat itr; dist = v_size v - i - 1 in
             if dist = 0
             then (case pop_back s of
                     (s', Inl e) \<Rightarrow> (s', Inl e)
                   | (s', Inr _) \<Rightarrow> (s', Inr (int (v_size (snd s')))))
             else ((heap_memmove h (v_ptr v) i (i + 1) dist, v\<lparr>v_size := v_size v - 1\<rparr>), Inr itr))"

definition erase_range :: "int \<Rightarrow> int \<Rightarrow> ('a, int) vop" where
  "erase_range b e s =
     (case s of (h, v) \<Rightarrow>
        if b = e then (s, Inr e)
        else if \<not> check_iterator False v b then (s, Inl (InvalidArgument ''got invalid iterator''))
        else if \<not> check_iterator False v e then (s, Inl (InvalidArgument ''got invalid iterator''))
        else if e < b then (s, Inl (InvalidArgument ''end_ cannot be smaller than beg_''))
        else let dist = v_size v - nat e;
                 v' = v\<lparr>v_size := v_size v - (nat e - nat b)\<rparr>
             in if 0 < dist then ((heap_memmove h (v_ptr v) (nat b) (nat e) dist, v'), Inr b)
                else ((h, v'), Inr b))"

definition vec_reserve :: "nat \<Rightarrow> realloc_choice \<Rightarrow> nat \<Rightarrow> ('a, unit) vop" where
  "vec_reserve sz oc n s =
     (case auto_capacity sz oc n s of (s', Inl e) \<Rightarrow> (s', Inl e) | (s', Inr _) \<Rightarrow> (s', Inr ()))"

definition load_cell :: "'a vstate \<Rightarrow> nat \<Rightarrow> 'a result" where
  "load_cell s i =
     (case v_ptr (snd s) of
        None \<Rightarrow> Inl Undefined
      | Some a \<Rightarrow> (case deref (fst s) (Cell a i) of None \<Rightarrow> Inl Undefined | Some x \<Rightarrow> Inr x))"

definition vec_at :: "nat \<Rightarrow> 'a vstate \<Rightarrow> 'a result" where
  "vec_at idx s =
     (if idx < v_size (snd s) then load_cell s idx else Inl (OutOfRange ''index out of range''))"

text \<open>\<^verbatim>\<open>operator[]\<close>, \<^verbatim>\<open>front()\<close> and \<^verbatim>\<open>back()\<close> do not check anything.\<close>

definition vec_index :: "nat \<Rightarrow> 'a vstate \<Rightarrow> 'a result" where
  "vec_index idx s = load_cell s idx"

definition vec_front :: "'a vstate \<Rightarrow> 'a result" where
  "vec_front s = load_cell s 0"

definition vec_back :: "'a vstate \<Rightarrow> 'a result" where
  "vec_back s = (if v_size (snd s) = 0 then Inl Undefined else load_cell s (v_size (snd s) - 1))"

text \<open>Copy construction of a new object from \<open>other\<close> in the same heap.\<close>

definition vec_copy :: "nat \<Rightarrow> realloc_choice \<Rightarrow> vector \<Rightarrow> 'a heap \<Rightarrow> 'a vstate \<times> unit result" where
  "vec_copy sz oc other h =
     (if v_size other = 0 then ((h, vector_new), Inr ())
      else case auto_capacity sz oc (v_size other) (h, vector_new) of
             (s', Inl e) \<Rightarrow> (s', Inl e)
           | ((h', v), Inr p) \<Rightarrow>
               (case (p, v_ptr other) of
                  (Some a, Some b) \<Rightarrow>
                    (case (blocks h' a, blocks h' b) of
                       (Some cs, Some os) \<Rightarrow>
                         ((h'\<lparr>blocks := (blocks h')
                               (a \<mapsto> take (v_size other) os @ drop (v_size other) cs)\<rparr>,
                           v\<lparr>v_size := v_size other\<rparr>), Inr ())
                     | _ \<Rightarrow> ((h', v), Inl Undefined))
                | _ \<Rightarrow> ((h', v), Inl Undefined)))"

definition vec_swap :: "vector \<Rightarrow> vector \<Rightarrow> vector \<times> vector" where
  "vec_swap v other =
     (\<lparr>v_ptr = v_ptr other, v_size = v_size other, v_capacity = v_capacity other\<rparr>,
      \<lparr>v_ptr = v_ptr v, v_size = v_size v, v_capacity = v_capacity v\<rparr>)"

text \<open>In the assignments \<open>None\<close> stands for \<^verbatim>\<open>*this\<close> as the right-hand side. Copy assignment copies,
  swaps, and the destructor of the copy frees the old block.\<close>

definition vec_assign :: "nat \<Rightarrow> realloc_choice \<Rightarrow> vector option \<Rightarrow> ('a, unit) vop" where
  "vec_assign sz oc other s =
     (case other of
        None \<Rightarrow> (s, Inr ())
      | Some other_ \<Rightarrow>
          (case vec_copy sz oc other_ (fst s) of
             ((h', _), Inl e) \<Rightarrow> ((h', snd s), Inl e)
           | ((h', tmp), Inr _) \<Rightarrow>
               (case vec_swap (snd s) tmp of (v, tmp') \<Rightarrow> ((fst (vec_reset (h', tmp')), v), Inr ()))))"

definition vec_move_new :: "vector \<Rightarrow> vector \<times> vector" where
  "vec_move_new other = vec_swap vector_new other"

definition vec_move_assign :: "vector option \<Rightarrow> 'a vstate \<Rightarrow> 'a vstate \<times> vector option" where
  "vec_move_assign other s =
     (case other of
        None \<Rightarrow> (s, None)
      | Some other_ \<Rightarrow>
          (case vec_reset s of
             (h', v') \<Rightarrow> (case vec_swap v' other_ of (v, o') \<Rightarrow> ((h', v), Some o'))))"

definition vec_release :: "vector \<Rightarrow> (addr option \<times> nat \<times> nat) \<times> vector" where
  "vec_release v = ((v_ptr v, v_size v, v_capacity v), \<lparr>v_ptr = None, v_size = 0, v_capacity = 0\<rparr>)"


subsection \<open>Specification\<close>

text \<open>The heap hands out fresh addresses; the object owns a block of exactly its capacity whose
  first \<^verbatim>\<open>_size\<close> cells are constructed.\<close>

definition heap_ok :: "'a heap \<Rightarrow> bool" where
  "heap_ok h \<longleftrightarrow> (\<forall>a \<in> dom (blocks h). a < next_addr h)"

definition vec_inv :: "nat \<Rightarrow> 'a vstate \<Rightarrow> bool" where
  "vec_inv sz s \<longleftrightarrow> 0 < sz \<and> heap_ok (fst s) \<and>
     (case v_ptr (snd s) of
        None \<Rightarrow> v_size (snd s) = 0 \<and> v_capacity (snd s) = 0
      | Some a \<Rightarrow>
          (case blocks (fst s) a of
             None \<Rightarrow> False
           | Some cs \<Rightarrow> length cs = v_capacity (snd s) \<and> 16 \<le> v_capacity (snd s) \<and>
                        v_size (snd s) \<le> v_capacity (snd s) \<and>
                        v_capacity (snd s) \<le> size_t_max div sz \<and>
                        list_all (\<lambda>c. c \<noteq> None) (take (v_size (snd s)) cs)))"

definition vec_list :: "'a vstate \<Rightarrow> 'a list" where
  "vec_list s =
     (case v_ptr (snd s) of
        None \<Rightarrow> []
      | Some a \<Rightarrow> (case blocks (fst s) a of
                     None \<Rightarrow> []
                   | Some cs \<Rightarrow> map the (take (v_size (snd s)) cs)))"

text \<open>The heap without the block of the object: equal before and after an operation when the
  operation neither touches nor leaks a block.\<close>

definition vec_rest :: "'a vstate \<Rightarrow> addr \<rightharpoonup> 'a option list" where
  "vec_rest s = (\<lambda>a. if v_ptr (snd s) = Some a then None else blocks (fst s) a)"

definition no_memory :: "exn \<Rightarrow> bool" where
  "no_memory e \<longleftrightarrow>
     e = LengthError ''vector capacity would overflow the addressable size'' \<or> e = BadAlloc"

text \<open>What every operation that only grows the block keeps, and what it says when it throws.\<close>

definition grown :: "nat \<Rightarrow> nat \<Rightarrow> 'a vstate \<Rightarrow> 'a vstate \<times> addr option result \<Rightarrow> bool" where
  "grown sz n s out \<longleftrightarrow>
     (case out of
        (s', Inl e) \<Rightarrow> no_memory e \<and> s' = s
      | (s', Inr p) \<Rightarrow> vec_inv sz s' \<and> vec_list s' = vec_list s \<and> vec_rest s' = vec_rest s \<and>
          v_size (snd s') = v_size (snd s) \<and> p = v_ptr (snd s') \<and> n \<le> v_capacity (snd s'))"

text \<open>The contract of an operation on the contents: it throws and changes nothing, or it turns the
  contents into \<open>xs\<close>; no other block changes.\<close>

definition refines ::
    "nat \<Rightarrow> 'a vstate \<Rightarrow> 'a list \<Rightarrow> (exn \<Rightarrow> bool) \<Rightarrow> 'a vstate \<times> 'r result \<Rightarrow> bool" where
  "refines sz s xs err out \<longleftrightarrow>
     (case out of
        (s', Inl e) \<Rightarrow> err e \<and> s' = s
      | (s', Inr _) \<Rightarrow> vec_inv sz s' \<and> vec_list s' = xs \<and> vec_rest s' = vec_rest s)"

text \<open>The operations as commands, each with the allocator's choice, and what they do to a list.\<close>

datatype 'a vcmd =
  PushBack 'a
| PopBack
| Erase int
| EraseRange int int
| Reserve nat
| Clear
| Reset

definition succeeded :: "'a vstate \<times> 'r result \<Rightarrow> 'a vstate \<times> bool" where
  "succeeded out = (fst out, case snd out of Inl _ \<Rightarrow> False | Inr _ \<Rightarrow> True)"

fun vec_step :: "nat \<Rightarrow> realloc_choice \<times> 'a vcmd \<Rightarrow> 'a vstate \<Rightarrow> 'a vstate \<times> bool" where
  "vec_step sz (oc, PushBack x) s = succeeded (push_back sz oc (Temp x) s)"
| "vec_step sz (oc, PopBack) s = succeeded (pop_back s)"
| "vec_step sz (oc, Erase i) s = succeeded (erase_one i s)"
| "vec_step sz (oc, EraseRange b e) s = succeeded (erase_range b e s)"
| "vec_step sz (oc, Reserve n) s = succeeded (vec_reserve sz oc n s)"
| "vec_step sz (oc, Clear) s = (vec_clear s, True)"
| "vec_step sz (oc, Reset) s = (vec_reset s, True)"

fun list_step :: "'a vcmd \<Rightarrow> 'a list \<Rightarrow> 'a list option" where
  "list_step (PushBack x) xs = Some (xs @ [x])"
| "list_step PopBack xs = (if xs = [] then None else Some (butlast xs))"
| "list_step (Erase i) xs =
     (if 0 \<le> i \<and> i < int (length xs) then Some (take (nat i) xs @ drop (nat i + 1) xs) else None)"
| "list_step (EraseRange b e) xs =
     (if b = e then Some xs
      else if 0 \<le> b \<and> b < e \<and> e \<le> int (length xs) then Some (take (nat b) xs @ drop (nat e) xs)
      else None)"
| "list_step (Reserve n) xs = Some xs"
| "list_step Clear xs = Some []"
| "list_step Reset xs = Some []"

text \<open>How often the block is resized while a list is appended.\<close>

fun growths :: "nat \<Rightarrow> (realloc_choice \<times> 'a) list \<Rightarrow> 'a vstate \<Rightarrow> 'a vstate \<times> nat" where
  "growths sz [] s = (s, 0)"
| "growths sz ((oc, x) # xs) s =
     (case push_back sz oc (Temp x) s of
        (s', _) \<Rightarrow>
          (case growths sz xs s' of
             (s'', k) \<Rightarrow> (s'', if v_capacity (snd s') = v_capacity (snd s) then k else k + 1)))"

section \<open>Theorems\<close>

subsection \<open>Cells and blocks\<close>

lemma length_resize_cells [simp]: "length (resize_cells n cs) = n"
  by (simp add: resize_cells_def)

lemma take_resize_cells:
  "k \<le> length cs \<Longrightarrow> k \<le> n \<Longrightarrow> take k (resize_cells n cs) = take k cs"
  by (simp add: resize_cells_def min_def)

lemma length_memmove_cells:
  assumes "src + n \<le> length cs" and "dst \<le> src"
  shows "length (memmove_cells dst src n cs) = length cs"
  using assms by (simp add: memmove_cells_def)

lemma take_memmove_cells:
  assumes "src + n \<le> length cs" and "dst \<le> src"
  shows "take (dst + n) (memmove_cells dst src n cs) = take dst cs @ take n (drop src cs)"
  using assms by (auto simp: memmove_cells_def min_def)

lemma vec_inv_cases [consumes 1, case_names null block]:
  assumes "vec_inv sz (h, v)"
  obtains "v_ptr v = None" "v_size v = 0" "v_capacity v = 0" "0 < sz" "heap_ok h"
  | a cs where "v_ptr v = Some a" "blocks h a = Some cs" "length cs = v_capacity v"
      "16 \<le> v_capacity v" "v_size v \<le> v_capacity v" "v_capacity v \<le> size_t_max div sz"
      "list_all (\<lambda>c. c \<noteq> None) (take (v_size v) cs)" "0 < sz" "heap_ok h"
  using assms by (auto simp: vec_inv_def split: option.splits)

lemma vec_inv_block:
  "\<lbrakk>v_ptr v = Some a; blocks h a = Some cs\<rbrakk> \<Longrightarrow>
   vec_inv sz (h, v) \<longleftrightarrow> 0 < sz \<and> heap_ok h \<and> length cs = v_capacity v \<and> 16 \<le> v_capacity v \<and>
     v_size v \<le> v_capacity v \<and> v_capacity v \<le> size_t_max div sz \<and>
     list_all (\<lambda>c. c \<noteq> None) (take (v_size v) cs)"
  by (auto simp: vec_inv_def)

lemma vec_list_block:
  "\<lbrakk>v_ptr v = Some a; blocks h a = Some cs\<rbrakk> \<Longrightarrow> vec_list (h, v) = map the (take (v_size v) cs)"
  by (simp add: vec_list_def)

lemma vec_list_null: "v_ptr v = None \<Longrightarrow> vec_list (h, v) = []"
  by (simp add: vec_list_def)

lemma length_vec_list: "vec_inv sz (h, v) \<Longrightarrow> length (vec_list (h, v)) = v_size v"
  by (erule vec_inv_cases) (auto simp: vec_list_null vec_list_block)

lemma vec_inv_size_le: "vec_inv sz s \<Longrightarrow> v_size (snd s) \<le> v_capacity (snd s)"
  by (cases s) (auto elim: vec_inv_cases)

lemma vec_inv_new: "0 < sz \<Longrightarrow> heap_ok h \<Longrightarrow> vec_inv sz (h, vector_new)"
  by (simp add: vec_inv_def vector_new_def)

lemma heap_ok_iff: "heap_ok h \<longleftrightarrow> (\<forall>a. next_addr h \<le> a \<longrightarrow> blocks h a = None)"
  by (auto simp: heap_ok_def dom_def not_le [symmetric])

lemma heap_ok_fresh: "heap_ok h \<Longrightarrow> blocks h (next_addr h) = None"
  by (auto simp: heap_ok_def dom_def)

lemma heap_ok_upd: "heap_ok h \<Longrightarrow> blocks h a = Some cs \<Longrightarrow>
  heap_ok (h\<lparr>blocks := (blocks h)(a \<mapsto> cs')\<rparr>)"
  by (auto simp: heap_ok_def dom_def)

subsection \<open>Capacity\<close>

text \<open>\<^verbatim>\<open>std::realloc\<close> keeps the elements and the other blocks.\<close>

lemma std_realloc_law:
  assumes inv: "vec_inv sz (h, v)" and r: "std_realloc oc h (v_ptr v) n = (h', Some a)"
    and n: "v_capacity v < n" "16 \<le> n" "n \<le> size_t_max div sz"
  defines "v' \<equiv> v\<lparr>v_ptr := Some a, v_capacity := n\<rparr>"
  shows "vec_inv sz (h', v')" "vec_list (h', v') = vec_list (h, v)"
    "vec_rest (h', v') = vec_rest (h, v)"
proof -
  obtain cs where cs: "blocks h' a = Some (resize_cells n cs)" "v_size v \<le> length cs"
      "list_all (\<lambda>c. c \<noteq> None) (take (v_size v) cs)"
      "vec_list (h, v) = map the (take (v_size v) cs)" and h': "heap_ok h'"
      and rest: "vec_rest (h', v') = vec_rest (h, v)"
    using inv
  proof (cases rule: vec_inv_cases)
    case null
    have "blocks h' a = Some (resize_cells n [])" "heap_ok h'" "vec_rest (h', v') = vec_rest (h, v)"
      using r null heap_ok_fresh [OF null(5)]
      by (auto simp: std_realloc_def Let_def v'_def vec_rest_def heap_ok_iff fun_eq_iff
          split: realloc_choice.splits)
    then show ?thesis using null by (intro that [of "[]"]) (auto simp: vec_list_null)
  next
    case (block b cs)
    have "blocks h' a = Some (resize_cells n cs)" "heap_ok h'" "vec_rest (h', v') = vec_rest (h, v)"
      using r block heap_ok_fresh [OF block(9)]
      by (auto simp: std_realloc_def Let_def v'_def vec_rest_def heap_ok_iff fun_eq_iff
          split: realloc_choice.splits)
    then show ?thesis using block by (intro that [of cs]) (auto simp: vec_list_block)
  qed
  have sz: "0 < sz" and size: "v_size v \<le> n"
    using inv n by (auto elim: vec_inv_cases)
  have ptr: "v_ptr v' = Some a" by (simp add: v'_def)
  show "vec_inv sz (h', v')"
    using cs sz size n h' by (simp add: vec_inv_block [OF ptr cs(1)] take_resize_cells) (simp add: v'_def take_resize_cells)
  show "vec_list (h', v') = vec_list (h, v)"
    using cs size by (simp add: vec_list_block [OF ptr cs(1)]) (simp add: v'_def take_resize_cells)
  show "vec_rest (h', v') = vec_rest (h, v)" by (rule rest)
qed

lemma mem_reserve_law:
  assumes inv: "vec_inv sz s" and n: "v_capacity (snd s) < n" "16 \<le> n"
  shows "grown sz n s (mem_reserve sz oc n s)"
proof -
  obtain h v where s: "s = (h, v)" by force
  show ?thesis
  proof (cases "size_t_max div sz < n")
    case True
    then show ?thesis by (simp add: mem_reserve_def grown_def no_memory_def s)
  next
    case False
    obtain h' p where r: "std_realloc oc h (v_ptr v) n = (h', p)" by force
    show ?thesis
    proof (cases p)
      case None
      then have "h' = h" using r
        by (auto simp: std_realloc_def Let_def split: realloc_choice.splits option.splits)
      with None r False show ?thesis by (simp add: mem_reserve_def grown_def no_memory_def s)
    next
      case (Some a)
      with r False n inv std_realloc_law [of sz h v oc n h' a] show ?thesis
        by (simp add: mem_reserve_def grown_def s)
    qed
  qed
qed

lemma grown_mono: "grown sz n s out \<Longrightarrow> m \<le> n \<Longrightarrow> grown sz m s out"
  by (auto simp: grown_def split: prod.splits sum.splits)

lemma auto_capacity_law:
  assumes inv: "vec_inv sz s"
  shows "grown sz n s (auto_capacity sz oc n s)"
proof -
  have A: "grown sz n s (mem_reserve sz oc 16 s)" if "v_capacity (snd s) < n" "n < 16"
    using that by (auto intro!: mem_reserve_law [OF inv] grown_mono [of sz 16 s _ n])
  have B: "grown sz n s (mem_reserve sz oc m s)" if "v_capacity (snd s) < n" "n \<le> m" "16 \<le> m" for m
    using that mem_reserve_law [OF inv, of m oc] by (simp add: grown_mono [of sz m s _ n])
  show ?thesis
  proof (cases "n \<le> v_capacity (snd s)")
    case True
    with inv show ?thesis by (simp add: auto_capacity_def grown_def)
  next
    case False
    then show ?thesis using A B by (simp add: auto_capacity_def Let_def)
  qed
qed

subsection \<open>Appending and removing\<close>

lemma store_cell_law:
  assumes inv: "vec_inv sz (h, v)" and cap: "v_size v < v_capacity v"
  obtains h' where "store_cell h (v_ptr v) (v_size v) x = Inr h'"
    "vec_inv sz (h', v\<lparr>v_size := v_size v + 1\<rparr>)"
    "vec_list (h', v\<lparr>v_size := v_size v + 1\<rparr>) = vec_list (h, v) @ [x]"
    "vec_rest (h', v\<lparr>v_size := v_size v + 1\<rparr>) = vec_rest (h, v)"
  using inv
proof (cases rule: vec_inv_cases)
  case null
  with cap show ?thesis by simp
next
  case (block a cs)
  define cs' where "cs' = cs[v_size v := Some x]"
  define h' where "h' = h\<lparr>blocks := (blocks h)(a \<mapsto> cs')\<rparr>"
  have take: "take (v_size v + 1) cs' = take (v_size v) cs @ [Some x]"
    using block cap by (simp add: cs'_def take_Suc_conv_app_nth)
  have b: "blocks h' a = Some cs'" "length cs' = v_capacity v" "heap_ok h'"
    using block by (simp_all add: h'_def cs'_def heap_ok_upd)
  show ?thesis
  proof (rule that [of h'])
    show "store_cell h (v_ptr v) (v_size v) x = Inr h'"
      using block cap by (simp add: store_cell_def h'_def cs'_def)
    show "vec_inv sz (h', v\<lparr>v_size := v_size v + 1\<rparr>)"
      using block cap b take by (subst vec_inv_block [of _ a _ cs']) simp_all
    show "vec_list (h', v\<lparr>v_size := v_size v + 1\<rparr>) = vec_list (h, v) @ [x]"
      using block b take by (subst vec_list_block [of _ a _ cs']) (simp_all add: vec_list_block)
    show "vec_rest (h', v\<lparr>v_size := v_size v + 1\<rparr>) = vec_rest (h, v)"
      using block by (auto simp: vec_rest_def h'_def)
  qed
qed

lemma push_back_law:
  assumes inv: "vec_inv sz s" and lim: "v_size (snd s) < size_t_max"
  shows "refines sz s (vec_list s @ [x]) no_memory (push_back sz oc (Temp x) s)"
proof -
  have new: "(v_size (snd s) + 1) mod 2 ^ 64 = v_size (snd s) + 1"
    using lim by (simp add: size_t_max_def)
  obtain s' r where ac: "auto_capacity sz oc (v_size (snd s) + 1) s = (s', r)" by (meson surj_pair)
  have g: "grown sz (v_size (snd s) + 1) s (s', r)"
    using auto_capacity_law [OF inv] ac by metis
  show ?thesis
  proof (cases r)
    case (Inl e)
    with g ac new show ?thesis by (simp add: push_back_def grown_def refines_def)
  next
    case (Inr p)
    obtain h v where s': "s' = (h, v)" by force
    from g Inr s' have i: "vec_inv sz (h, v)" "v_size v < v_capacity v" "p = v_ptr v"
        "v_size v = v_size (snd s)" "vec_list (h, v) = vec_list s" "vec_rest (h, v) = vec_rest s"
      by (simp_all add: grown_def)
    obtain h' where "store_cell h (v_ptr v) (v_size v) x = Inr h'"
        "vec_inv sz (h', v\<lparr>v_size := v_size v + 1\<rparr>)"
        "vec_list (h', v\<lparr>v_size := v_size v + 1\<rparr>) = vec_list (h, v) @ [x]"
        "vec_rest (h', v\<lparr>v_size := v_size v + 1\<rparr>) = vec_rest (h, v)"
      using store_cell_law [OF i(1,2)] .
    with i Inr s' ac new show ?thesis by (simp add: push_back_def refines_def)
  qed
qed

text \<open>Closing the gap between \<open>dst\<close> and \<open>src\<close> by moving the elements behind it.\<close>

lemma heap_memmove_law:
  assumes inv: "vec_inv sz (h, v)" and le: "dst \<le> src" "src \<le> v_size v"
  defines "s' \<equiv> (heap_memmove h (v_ptr v) dst src (v_size v - src),
                  v\<lparr>v_size := v_size v - (src - dst)\<rparr>)"
  shows "vec_inv sz s' \<and> vec_list s' = take dst (vec_list (h, v)) @ drop src (vec_list (h, v)) \<and>
    vec_rest s' = vec_rest (h, v)"
  using inv
proof (cases rule: vec_inv_cases)
  case null
  with le show ?thesis
    by (simp add: s'_def heap_memmove_def vec_inv_def vec_list_def vec_rest_def)
next
  case (block a cs)
  define n where "n = v_size v - src"
  define cs' where "cs' = memmove_cells dst src n cs"
  have sz: "v_size v - (src - dst) = dst + n" "src + n \<le> length cs" "src + n = v_size v"
    using le block by (auto simp: n_def)
  have len: "length cs' = length cs"
    using sz le by (simp add: cs'_def length_memmove_cells)
  have take: "take (dst + n) cs' = take dst cs @ take n (drop src cs)"
    unfolding cs'_def using sz le by (simp add: take_memmove_cells)
  have tk: "take n (drop src cs) = drop src (take (v_size v) cs)"
    using sz by (simp add: take_drop add.commute)
  have s': "s' = (h\<lparr>blocks := (blocks h)(a \<mapsto> cs')\<rparr>, v\<lparr>v_size := dst + n\<rparr>)"
    using block sz by (simp add: s'_def heap_memmove_def cs'_def n_def)
  have "list_all (\<lambda>c. c \<noteq> None) (take dst cs @ take n (drop src cs))"
    using block(7) le sz(3) unfolding tk list_all_iff
    by (auto dest!: in_set_dropD dest: set_take_subset_set_take [of dst "v_size v" cs, THEN subsetD, rotated])
  then have "vec_inv sz s'"
    unfolding s' using block len take sz le heap_ok_upd by (subst vec_inv_block) auto
  moreover have "vec_list s' = take dst (vec_list (h, v)) @ drop src (vec_list (h, v))"
    unfolding s' using block take tk le
    by (subst vec_list_block) (auto simp: vec_list_block take_map drop_map min_def)
  moreover have "vec_rest s' = vec_rest (h, v)"
    unfolding s' using block by (auto simp: vec_rest_def)
  ultimately show ?thesis by simp
qed

lemma heap_memmove_0 [simp]: "heap_memmove h p dst src 0 = h"
  by (auto simp: heap_memmove_def memmove_cells_def fun_upd_idem split: option.splits)

lemma pop_back_law:
  assumes inv: "vec_inv sz s"
  shows "refines sz s (butlast (vec_list s))
           (\<lambda>e. vec_list s = [] \<and> e = RuntimeError ''container is empty'') (pop_back s)"
    "snd (pop_back s) = Inr () \<longleftrightarrow> vec_list s \<noteq> []"
proof -
  obtain h v where s: "s = (h, v)" by force
  have len: "length (vec_list (h, v)) = v_size v" using inv s by (simp add: length_vec_list)
  have A: "vec_inv sz s' \<and> vec_list s' = take (v_size v - 1) (vec_list (h, v)) \<and>
      vec_rest s' = vec_rest (h, v)" if "0 < v_size v" "s' = (h, v\<lparr>v_size := v_size v - 1\<rparr>)" for s'
    using heap_memmove_law [of sz h v "v_size v - 1" "v_size v"] inv that len
    by (simp add: s)
  show "refines sz s (butlast (vec_list s))
      (\<lambda>e. vec_list s = [] \<and> e = RuntimeError ''container is empty'') (pop_back s)"
    using A len by (auto simp: pop_back_def refines_def s butlast_conv_take)
  show "snd (pop_back s) = Inr () \<longleftrightarrow> vec_list s \<noteq> []"
    using len by (auto simp: pop_back_def s)
qed

lemma erase_one_law:
  assumes inv: "vec_inv sz s"
  shows "refines sz s (take (nat i) (vec_list s) @ drop (nat i + 1) (vec_list s))
           (\<lambda>e. e = InvalidArgument ''got invalid iterator'') (erase_one i s)"
    "snd (erase_one i s) = (if 0 \<le> i \<and> i < int (length (vec_list s)) then Inr i
       else Inl (InvalidArgument ''got invalid iterator''))"
proof -
  obtain h v where s: "s = (h, v)" by force
  have len: "length (vec_list (h, v)) = v_size v" using inv s by (simp add: length_vec_list)
  have A: "vec_inv sz s' \<and> vec_list s' = take (nat i) (vec_list (h, v)) @ drop (nat i + 1) (vec_list (h, v)) \<and>
      vec_rest s' = vec_rest (h, v)"
    if "nat i + 1 \<le> v_size v" "s' = (heap_memmove h (v_ptr v) (nat i) (nat i + 1) (v_size v - (nat i + 1)),
       v\<lparr>v_size := v_size v - 1\<rparr>)" for s'
    using heap_memmove_law [of sz h v "nat i" "nat i + 1"] inv that by (simp add: s)
  show "refines sz s (take (nat i) (vec_list s) @ drop (nat i + 1) (vec_list s))
      (\<lambda>e. e = InvalidArgument ''got invalid iterator'') (erase_one i s)"
  proof (cases "check_iterator True v i \<and> v_size v - nat i - 1 = 0")
    case True
    then have "v_size v = nat i + 1" by (auto simp: check_iterator_def)
    with True A show ?thesis
      by (simp add: erase_one_def pop_back_def refines_def s)
  next
    case False
    with A show ?thesis
      by (auto simp: erase_one_def refines_def s check_iterator_def Let_def)
  qed
  show "snd (erase_one i s) = (if 0 \<le> i \<and> i < int (length (vec_list s)) then Inr i
       else Inl (InvalidArgument ''got invalid iterator''))"
    using len by (auto simp: erase_one_def pop_back_def s check_iterator_def Let_def)
qed

lemma erase_range_law:
  assumes inv: "vec_inv sz s"
  shows "refines sz s (take (nat b) (vec_list s) @ drop (nat e) (vec_list s))
           (\<lambda>x. \<exists>m. x = InvalidArgument m) (erase_range b e s)"
    "(\<exists>i. snd (erase_range b e s) = Inr i) \<longleftrightarrow>
       b = e \<or> (0 \<le> b \<and> b < e \<and> e \<le> int (length (vec_list s)))"
proof -
  obtain h v where s: "s = (h, v)" by force
  have len: "length (vec_list (h, v)) = v_size v" using inv s by (simp add: length_vec_list)
  have A: "refines sz s (take (nat b) (vec_list s) @ drop (nat e) (vec_list s))
      (\<lambda>x. \<exists>m. x = InvalidArgument m)
      ((heap_memmove h (v_ptr v) (nat b) (nat e) (v_size v - nat e),
        v\<lparr>v_size := v_size v - (nat e - nat b)\<rparr>), Inr b)"
    if "b \<le> e" "e \<le> int (v_size v)"
    using heap_memmove_law [of sz h v "nat b" "nat e"] inv that by (simp add: refines_def s)
  show "refines sz s (take (nat b) (vec_list s) @ drop (nat e) (vec_list s))
      (\<lambda>x. \<exists>m. x = InvalidArgument m) (erase_range b e s)"
  proof (cases "b = e \<or> \<not> check_iterator False v b \<or> \<not> check_iterator False v e \<or> e < b")
    case True
    with inv show ?thesis by (auto simp: erase_range_def refines_def s)
  next
    case False
    then have "b \<le> e" "e \<le> int (v_size v)" by (auto simp: check_iterator_def)
    with A False show ?thesis by (cases "v_size v - nat e") (simp_all add: erase_range_def s Let_def)
  qed
  show "(\<exists>i. snd (erase_range b e s) = Inr i) \<longleftrightarrow>
      b = e \<or> (0 \<le> b \<and> b < e \<and> e \<le> int (length (vec_list s)))"
    using len by (auto simp: erase_range_def s check_iterator_def Let_def)
qed

lemma clear_loop_0 [simp]: "clear_loop n = 0"
  by (induction n) simp_all

lemma vec_clear_law:
  assumes inv: "vec_inv sz s"
  shows "vec_inv sz (vec_clear s)" "vec_list (vec_clear s) = []"
    "vec_rest (vec_clear s) = vec_rest s" "v_capacity (snd (vec_clear s)) = v_capacity (snd s)"
proof -
  obtain h v where s: "s = (h, v)" by force
  show "vec_inv sz (vec_clear s)" "vec_list (vec_clear s) = []"
    "vec_rest (vec_clear s) = vec_rest s" "v_capacity (snd (vec_clear s)) = v_capacity (snd s)"
    using inv by (auto simp: vec_clear_def s vec_inv_def vec_list_def vec_rest_def split: option.splits)
qed

lemma vec_reset_eq: "vec_reset (h, v) = (std_free h (v_ptr v), vector_new)"
  by (simp add: vec_reset_def vec_clear_def vector_new_def)

lemma std_free_rest: "blocks (std_free h (v_ptr v)) = vec_rest (h, v)"
  by (auto simp: std_free_def vec_rest_def fun_eq_iff split: option.splits)

lemma heap_ok_free: "heap_ok h \<Longrightarrow> heap_ok (std_free h p)"
  by (auto simp: std_free_def heap_ok_iff split: option.splits)

lemma vec_inv_heap_ok: "vec_inv sz (h, v) \<Longrightarrow> heap_ok h \<and> 0 < sz"
  by (simp add: vec_inv_def)

lemma vec_rest_new: "vec_rest (h, vector_new) = blocks h"
  by (simp add: vec_rest_def vector_new_def)

text \<open>The block of the object is the only one that the destructor gives back.\<close>

lemma vec_reset_law:
  assumes inv: "vec_inv sz s"
  shows "vec_inv sz (vec_reset s)" "vec_list (vec_reset s) = []"
    "vec_rest (vec_reset s) = vec_rest s" "blocks (fst (vec_reset s)) = vec_rest s"
proof -
  obtain h v where s: "s = (h, v)" by force
  note ok = vec_inv_heap_ok [OF inv [unfolded s]]
  show "vec_inv sz (vec_reset s)" "vec_rest (vec_reset s) = vec_rest s"
    "blocks (fst (vec_reset s)) = vec_rest s"
    using ok by (simp_all add: s vec_reset_eq vec_inv_new heap_ok_free vec_rest_new std_free_rest)
  show "vec_list (vec_reset s) = []"
    by (simp add: s vec_reset_eq vec_list_null vector_new_def)
qed

lemma load_cell_list:
  assumes inv: "vec_inv sz s" and i: "i < length (vec_list s)"
  shows "load_cell s i = Inr (vec_list s ! i)"
proof -
  obtain h v where s: "s = (h, v)" by force
  from inv [unfolded s] show ?thesis
  proof (cases rule: vec_inv_cases)
    case null
    with i show ?thesis by (simp add: s vec_list_null)
  next
    case (block a cs)
    then have "i < v_size v" using i by (simp add: s vec_list_block)
    moreover from this block have "cs ! i \<noteq> None"
      by (auto simp: list_all_length)
    ultimately show ?thesis using block by (auto simp: load_cell_def s vec_list_block)
  qed
qed

lemma vec_at_law:
  assumes inv: "vec_inv sz s"
  shows "vec_at i s = (if i < length (vec_list s) then Inr (vec_list s ! i)
           else Inl (OutOfRange ''index out of range''))"
proof -
  have "length (vec_list s) = v_size (snd s)"
    using inv length_vec_list [of sz "fst s" "snd s"] by simp
  then show ?thesis using load_cell_list [OF inv] by (simp add: vec_at_def)
qed

lemma vec_unchecked_law:
  assumes inv: "vec_inv sz s"
  shows "i < length (vec_list s) \<Longrightarrow> vec_index i s = Inr (vec_list s ! i)"
    "vec_list s \<noteq> [] \<Longrightarrow> vec_front s = Inr (hd (vec_list s))"
    "vec_list s \<noteq> [] \<Longrightarrow> vec_back s = Inr (last (vec_list s))"
proof -
  have len: "length (vec_list s) = v_size (snd s)"
    using inv length_vec_list [of sz "fst s" "snd s"] by simp
  show "i < length (vec_list s) \<Longrightarrow> vec_index i s = Inr (vec_list s ! i)"
    using load_cell_list [OF inv] by (simp add: vec_index_def)
  show "vec_list s \<noteq> [] \<Longrightarrow> vec_front s = Inr (hd (vec_list s))"
    using load_cell_list [OF inv] by (simp add: vec_front_def hd_conv_nth)
  show "vec_list s \<noteq> [] \<Longrightarrow> vec_back s = Inr (last (vec_list s))"
    using load_cell_list [OF inv, of "v_size (snd s) - 1"] len
    by (cases "v_size (snd s)") (auto simp: vec_back_def last_conv_nth)
qed

subsection \<open>Copies\<close>

lemma auto_capacity_new:
  assumes r: "auto_capacity sz oc n (h, vector_new) = ((h', v), Inr p)" and n: "0 < n"
    and ok: "heap_ok h"
  obtains cs where "p = Some (next_addr h)" "blocks h' = (blocks h)(next_addr h \<mapsto> cs)"
    "v_ptr v = p" "length cs = v_capacity v" "max 16 n \<le> v_capacity v"
    "v_capacity v \<le> size_t_max div sz" "heap_ok h'"
proof -
  define m where "m = (if n < 16 then 16 else n)"
  have r': "mem_reserve sz oc m (h, vector_new) = ((h', v), Inr p)"
    using r n by (auto simp: auto_capacity_def vector_new_def m_def split: if_splits)
  then have le: "m \<le> size_t_max div sz"
    by (auto simp: mem_reserve_def Let_def split: if_splits)
  have ex: "p = Some (next_addr h) \<and> v = vector_new\<lparr>v_ptr := p, v_capacity := m\<rparr> \<and>
      h' = h\<lparr>next_addr := next_addr h + 1, blocks := (blocks h)(next_addr h \<mapsto> resize_cells m [])\<rparr>"
    using r' le by (auto simp: mem_reserve_def std_realloc_def vector_new_def Let_def
        split: if_splits realloc_choice.splits)
  show ?thesis
    using ex le ok by (intro that [of "resize_cells m []"]) (auto simp: m_def heap_ok_iff)
qed

text \<open>A copy has the contents of the original, in a block of its own.\<close>

lemma vec_copy_law:
  assumes inv: "vec_inv sz (h, other)"
  shows "case vec_copy sz oc other h of
           (s', Inl e) \<Rightarrow> no_memory e \<and> s' = (h, vector_new)
         | (s', Inr _) \<Rightarrow> vec_inv sz s' \<and> vec_list s' = vec_list (h, other) \<and>
             vec_rest s' = blocks h \<and> v_ptr (snd s') \<notin> Some ` dom (blocks h)"
proof (cases "v_size other = 0")
  case True
  have "vec_list (h, other) = []" using inv True length_vec_list by fastforce
  moreover have "v_ptr vector_new = None" by (simp add: vector_new_def)
  ultimately show ?thesis
    using True vec_inv_new vec_inv_heap_ok [OF inv]
    by (auto simp: vec_copy_def vec_list_null vec_rest_new)
next
  case False
  obtain b os where other: "v_ptr other = Some b" "blocks h b = Some os" "heap_ok h" "0 < sz"
      "list_all (\<lambda>c. c \<noteq> None) (take (v_size other) os)" "v_size other \<le> length os"
    using inv False by (cases rule: vec_inv_cases) auto
  have g: "grown sz (v_size other) (h, vector_new) (auto_capacity sz oc (v_size other) (h, vector_new))"
    by (rule auto_capacity_law) (use other in \<open>simp add: vec_inv_new\<close>)
  obtain s' r where ac: "auto_capacity sz oc (v_size other) (h, vector_new) = (s', r)"
    by (meson surj_pair)
  show ?thesis
  proof (cases r)
    case (Inl e)
    with g ac False show ?thesis by (simp add: vec_copy_def grown_def)
  next
    case (Inr p)
    obtain h' v where s': "s' = (h', v)" by force
    obtain cs where c: "p = Some (next_addr h)" "blocks h' = (blocks h)(next_addr h \<mapsto> cs)"
        "v_ptr v = p" "length cs = v_capacity v" "max 16 (v_size other) \<le> v_capacity v"
        "v_capacity v \<le> size_t_max div sz" "heap_ok h'"
      using auto_capacity_new [of sz oc "v_size other" h h' v p] ac Inr s' False other by blast
    have ne: "b \<noteq> next_addr h" using other heap_ok_fresh by fastforce
    define cs' where "cs' = take (v_size other) os @ drop (v_size other) cs"
    define h2 where "h2 = h'\<lparr>blocks := (blocks h')(next_addr h \<mapsto> cs')\<rparr>"
    define v2 where "v2 = v\<lparr>v_size := v_size other\<rparr>"
    have out: "vec_copy sz oc other h = ((h2, v2), Inr ())"
      using False ac Inr s' c other ne by (simp add: vec_copy_def h2_def v2_def cs'_def)
    have b2: "v_ptr v2 = Some (next_addr h)" "blocks h2 (next_addr h) = Some cs'"
      using c by (simp_all add: v2_def h2_def)
    have "heap_ok h2"
      unfolding h2_def using c by (intro heap_ok_upd [of _ _ cs]) simp_all
    then have "vec_inv sz (h2, v2)"
      unfolding vec_inv_block [OF b2] using c other False by (simp add: cs'_def v2_def)
    moreover have "vec_list (h2, v2) = vec_list (h, other)"
      unfolding vec_list_block [OF b2] vec_list_block [OF other(1,2)] using other
      by (simp add: cs'_def v2_def)
    moreover have "vec_rest (h2, v2) = blocks h"
      using c heap_ok_fresh [OF other(3)] by (auto simp: vec_rest_def h2_def v2_def fun_eq_iff)
    ultimately show ?thesis
      using out b2 heap_ok_fresh [OF other(3)] by auto
  qed
qed

lemma vec_rest_swap:
  assumes "vec_rest (h', tmp) = blocks h" and "v_ptr tmp \<notin> Some ` dom (blocks h)"
    and "v_ptr v \<in> Some ` dom (blocks h) \<or> v_ptr v = None"
  shows "vec_rest (std_free h' (v_ptr v), tmp) = vec_rest (h, v)"
proof
  fix a
  have "(if v_ptr tmp = Some a then None else blocks h' a) = blocks h a"
    using fun_cong [OF assms(1), of a] by (simp add: vec_rest_def split: if_splits)
  then show "vec_rest (std_free h' (v_ptr v), tmp) a = vec_rest (h, v) a"
    using assms(2,3) by (auto simp: vec_rest_def std_free_def split: option.splits if_splits)
qed

lemma vec_ptr_dom: "vec_inv sz (h, v) \<Longrightarrow> v_ptr v \<in> Some ` dom (blocks h) \<or> v_ptr v = None"
  by (erule vec_inv_cases) auto

lemma vec_assign_law:
  assumes inv: "vec_inv sz (h, v)" "vec_inv sz (h, other)"
  shows "refines sz (h, v) (vec_list (h, other)) no_memory (vec_assign sz oc (Some other) (h, v))"
proof -
  obtain h' tmp r where cp: "vec_copy sz oc other h = ((h', tmp), r)"
    by (metis surj_pair)
  show ?thesis
  proof (cases r)
    case (Inl e)
    with cp vec_copy_law [OF inv(2), of oc] show ?thesis
      by (simp add: vec_assign_def refines_def)
  next
    case (Inr u)
    with cp vec_copy_law [OF inv(2), of oc] have c: "vec_inv sz (h', tmp)"
        "vec_list (h', tmp) = vec_list (h, other)" "vec_rest (h', tmp) = blocks h"
        "v_ptr tmp \<notin> Some ` dom (blocks h)"
      by simp_all
    define h2 where "h2 = std_free h' (v_ptr v)"
    have out: "vec_assign sz oc (Some other) (h, v) = ((h2, tmp), Inr ())"
      using cp Inr by (simp add: vec_assign_def vec_swap_def vec_reset_eq h2_def)
    have tmp: "blocks h2 a = blocks h' a" if "v_ptr tmp = Some a" for a
      using vec_ptr_dom [OF inv(1)] c(4) that by (auto simp: h2_def std_free_def split: option.splits)
    have "vec_inv sz (h2, tmp)" "vec_list (h2, tmp) = vec_list (h', tmp)"
      using c(1) tmp vec_inv_heap_ok [OF c(1)] heap_ok_free [of h' "v_ptr v"]
      by (auto simp: vec_inv_def vec_list_def h2_def split: option.splits)
    moreover have "vec_rest (h2, tmp) = vec_rest (h, v)"
      unfolding h2_def using c vec_ptr_dom [OF inv(1)] by (intro vec_rest_swap)
    ultimately show ?thesis using out c by (simp add: refines_def)
  qed
qed

subsection \<open>The vector simulates a list\<close>

lemma vec_reserve_law:
  assumes "vec_inv sz s"
  shows "refines sz s (vec_list s) no_memory (vec_reserve sz oc n s)"
  using auto_capacity_law [OF assms, of n oc]
  by (auto simp: vec_reserve_def grown_def refines_def split: prod.splits sum.splits)

lemma succeeded_refines:
  assumes "refines sz s xs err out" and "succeeded out = (s', ok)"
  shows "if ok then vec_inv sz s' \<and> vec_list s' = xs \<and> vec_rest s' = vec_rest s
         else s' = s \<and> (\<exists>e. snd out = Inl e \<and> err e)"
  using assms by (auto simp: succeeded_def refines_def split: prod.splits sum.splits)

text \<open>Elements of at least two bytes never fill the address space, so that the size cannot wrap.\<close>

lemma vec_inv_limit:
  assumes inv: "vec_inv sz s" and sz: "2 \<le> sz"
  shows "v_capacity (snd s) < 2 ^ 63"
proof -
  have "size_t_max div sz \<le> size_t_max div 2" using sz by (intro div_le_mono2) simp_all
  also have "\<dots> < 2 ^ 63" by (simp add: size_t_max_def)
  finally show ?thesis using inv by (auto simp: vec_inv_def split: option.splits)
qed

lemma vec_inv_size_lt:
  assumes inv: "vec_inv sz s" and sz: "2 \<le> sz"
  shows "v_size (snd s) < size_t_max"
proof -
  have "v_size (snd s) < 2 ^ 63"
    using vec_inv_limit [OF inv sz] vec_inv_size_le [OF inv] by simp
  then show ?thesis by (simp add: size_t_max_def)
qed

lemma vec_step_simulates:
  assumes inv: "vec_inv sz s" "2 \<le> sz" and st: "vec_step sz (oc, c) s = (s', ok)"
  shows "if ok then vec_inv sz s' \<and> vec_rest s' = vec_rest s \<and> list_step c (vec_list s) = Some (vec_list s')
         else s' = s"
proof (cases c)
  case (PushBack x)
  with st succeeded_refines [OF push_back_law [OF inv(1) vec_inv_size_lt [OF inv]]] show ?thesis
    by auto
next
  case PopBack
  show ?thesis
  proof (cases ok)
    case True
    then have "vec_list s \<noteq> []"
      using st PopBack pop_back_law(2) [OF inv(1)]
      by (auto simp: succeeded_def split: sum.splits)
    then show ?thesis using True st PopBack succeeded_refines [OF pop_back_law(1) [OF inv(1)]] by auto
  next
    case False
    then show ?thesis using st PopBack succeeded_refines [OF pop_back_law(1) [OF inv(1)]] by auto
  qed
next
  case (Erase i)
  show ?thesis
  proof (cases ok)
    case True
    then have *: "0 \<le> i" "i < int (length (vec_list s))"
      using st Erase erase_one_law(2) [OF inv(1), of i]
      by (auto simp: succeeded_def split: sum.splits if_splits)
    with True show ?thesis
      using st Erase succeeded_refines [OF erase_one_law(1) [OF inv(1)], of i s' ok] by auto
  next
    case False
    then show ?thesis
      using st Erase succeeded_refines [OF erase_one_law(1) [OF inv(1)], of i s' ok] by auto
  qed
next
  case (EraseRange b e)
  show ?thesis
  proof (cases ok)
    case True
    then have *: "b = e \<or> (0 \<le> b \<and> b < e \<and> e \<le> int (length (vec_list s)))"
      using st EraseRange erase_range_law(2) [OF inv(1), of b e]
      by (auto simp: succeeded_def split: sum.splits)
    with True show ?thesis
      using st EraseRange succeeded_refines [OF erase_range_law(1) [OF inv(1)], of b e s' ok] by auto
  next
    case False
    then show ?thesis
      using st EraseRange succeeded_refines [OF erase_range_law(1) [OF inv(1)]] by auto
  qed
next
  case (Reserve n)
  with st succeeded_refines [OF vec_reserve_law [OF inv(1)]] show ?thesis by auto
next
  case Clear
  with st vec_clear_law [OF inv(1)] show ?thesis by auto
next
  case Reset
  with st vec_reset_law [OF inv(1)] show ?thesis by auto
qed

interpretation vecsim: simulation "\<lambda>s. vec_inv sz s \<and> 2 \<le> sz" vec_list vec_rest "vec_step sz"
  "\<lambda>c. list_step (snd c)" for sz
proof unfold_locales
  fix s :: "'a vstate" and c s'
  show "\<lbrakk>vec_inv sz s \<and> 2 \<le> sz; vec_step sz c s = (s', True)\<rbrakk> \<Longrightarrow>
      (vec_inv sz s' \<and> 2 \<le> sz) \<and> vec_rest s' = vec_rest s \<and> list_step (snd c) (vec_list s) = Some (vec_list s')"
    using vec_step_simulates [of sz s "fst c" "snd c" s' True] by simp
  show "\<lbrakk>vec_inv sz s \<and> 2 \<le> sz; vec_step sz c s = (s', False)\<rbrakk> \<Longrightarrow> s' = s"
    using vec_step_simulates [of sz s "fst c" "snd c" s' False] by simp
qed



subsection \<open>Operations one by one\<close>

text \<open>\<^verbatim>\<open>push_back\<close> of a value that lies outside of the vector appends it. It throws only for want of
  memory, \<^verbatim>\<open>length_error\<close> or \<^verbatim>\<open>bad_alloc\<close>, and then object and heap are unchanged.\<close>

theorem push_back_correct:
  assumes "vec_inv sz s" and "v_size (snd s) < size_t_max"
  shows "case push_back sz oc (Temp x) s of
      (s', Inr _) \<Rightarrow> vec_inv sz s' \<and> vec_list s' = vec_list s @ [x] \<and> vec_rest s' = vec_rest s
    | (s', Inl e) \<Rightarrow>
        (e = BadAlloc \<or> e = LengthError ''vector capacity would overflow the addressable size'') \<and> s' = s"
  using push_back_law [OF assms, of x oc]
  by (auto simp: refines_def no_memory_def split: prod.splits sum.splits)

theorem push_back_witness:
  "let s = (\<lparr>blocks = Map.empty, next_addr = 0\<rparr>, vector_new)
   in vec_list (fst (push_back 4 ReMove (Temp (1::nat)) s)) = [1] \<and>
      push_back 4 ReFail (Temp 1) s = (s, Inl BadAlloc)"
proof -
  define s :: "nat vstate" where "s = (\<lparr>blocks = Map.empty, next_addr = 0\<rparr>, vector_new)"
  have s: "vec_inv 4 s" "v_size (snd s) < size_t_max" "vec_list s = []"
    by (simp_all add: s_def vec_inv_def heap_ok_def vec_list_def vector_new_def size_t_max_def)
  have "\<exists>s' u. push_back 4 ReMove (Temp (1::nat)) s = (s', Inr u)"
    "\<exists>s'. push_back 4 ReFail (Temp (1::nat)) s = (s', Inl BadAlloc)"
    by (simp_all add: s_def vector_new_def push_back_def auto_capacity_def
        mem_reserve_def std_realloc_def size_t_max_def store_cell_def)
  with push_back_correct [OF s(1,2), of 1 ReMove] push_back_correct [OF s(1,2), of 1 ReFail] s(3)
  show ?thesis unfolding s_def [symmetric] by (auto simp: Let_def)
qed

lemma push_back_cong:
  assumes "auto_capacity sz oc ((v_size (snd s) + 1) mod 2 ^ 64) s = (s', r)"
    and "deref (fst s') val = deref (fst s') val'"
  shows "push_back sz oc val s = push_back sz oc val' s"
  using assms by (cases s'; cases r) (simp_all add: push_back_def)

lemma push_back_dangling:
  assumes "auto_capacity sz oc ((v_size (snd s) + 1) mod 2 ^ 64) s = (s', Inr p)"
    and "deref (fst s') val = None"
  shows "snd (push_back sz oc val s) = Inl Undefined"
  using assms by (cases s') (simp add: push_back_def)

lemma deref_own:
  assumes "vec_inv sz (h, v)" and "v_ptr v = Some a" and "i < v_size v"
  shows "deref h (Cell a i) = Some (vec_list (h, v) ! i)"
  using load_cell_list [of sz "(h, v)" i] assms
  by (auto simp: load_cell_def length_vec_list simp del: deref.simps split: option.splits)

lemma auto_capacity_full:
  assumes inv: "vec_inv sz (h, v)" and full: "v_size v = v_capacity v" and a: "v_ptr v = Some a"
    and r: "auto_capacity sz oc (v_size v + 1) (h, v) = (s', Inr p)"
  obtains n where "std_realloc oc h (Some a) n = (fst s', p)" "p \<noteq> None" "v_size v < n"
proof -
  define n where "n = (if v_size v + 1 < 16 then 16 else max (v_size v + 1) (v_capacity v * 2 mod 2 ^ 64))"
  have r': "mem_reserve sz oc n (h, v) = (s', Inr p)"
    using r full by (auto simp: auto_capacity_def n_def split: if_splits)
  then show ?thesis
    using a by (intro that [of n]) (auto simp: mem_reserve_def Let_def n_def split: if_splits option.splits prod.splits)
qed

text \<open>\<^verbatim>\<open>push_back\<close> of a reference to an element of the vector itself: with room left, or when the
  block is resized in place, the element is appended as a copy of it would be; when the block has to
  move, the reference dangles by the time the value is read, and the behaviour is undefined.\<close>

theorem push_back_alias:
  assumes inv: "vec_inv sz (h, v)" and lim: "v_size v < size_t_max"
    and a: "v_ptr v = Some a" and i: "i < v_size v"
  shows "(v_size v < v_capacity v \<or> oc = ReInPlace \<longrightarrow>
      push_back sz oc (Cell a i) (h, v) = push_back sz oc (Temp (vec_list (h, v) ! i)) (h, v)) \<and>
    (v_size v = v_capacity v \<and> oc = ReMove \<and> snd (push_back sz oc (Temp x) (h, v)) = Inr () \<longrightarrow>
      snd (push_back sz oc (Cell a i) (h, v)) = Inl Undefined)"
proof -
  have new: "(v_size v + 1) mod 2 ^ 64 = v_size v + 1"
    using lim by (simp add: size_t_max_def)
  note own = deref_own [OF inv a i]
  obtain cs where cs: "blocks h a = Some cs" "v_size v \<le> length cs" "heap_ok h"
    using inv a by (cases rule: vec_inv_cases) auto
  obtain s' r where ac: "auto_capacity sz oc (v_size v + 1) (h, v) = (s', r)" by (meson surj_pair)
  have full: "v_size v = v_capacity v" if "\<not> v_size v < v_capacity v"
    using that vec_inv_size_le [OF inv] by simp
  have room: "push_back sz oc (Cell a i) (h, v) = push_back sz oc (Temp (vec_list (h, v) ! i)) (h, v)"
    if "v_size v < v_capacity v"
    using that own new by (intro push_back_cong [of _ _ _ "(h, v)" "Inr (v_ptr v)"])
      (simp_all add: auto_capacity_def del: deref.simps(2))
  have inplace: "deref (fst s') (Cell a i) = Some (vec_list (h, v) ! i)"
    if oc: "oc = ReInPlace" and f: "\<not> v_size v < v_capacity v" and rp: "r = Inr p" for p
  proof -
    obtain n where "std_realloc oc h (Some a) n = (fst s', p)" "v_size v < n"
      using auto_capacity_full [OF inv full [OF f] a, of oc s' p] ac rp by auto
    then show ?thesis
      using oc cs i own by (cases s') (auto simp: std_realloc_def Let_def resize_cells_def nth_append)
  qed
  have moved: "deref (fst s') (Cell a i) = None"
    if oc: "oc = ReMove" and f: "\<not> v_size v < v_capacity v" and rp: "r = Inr p" for p
  proof -
    obtain n where "std_realloc oc h (Some a) n = (fst s', p)" "v_size v < n"
      using auto_capacity_full [OF inv full [OF f] a, of oc s' p] ac rp by auto
    then show ?thesis
      using oc cs heap_ok_fresh [OF cs(3)] by (cases s') (auto simp: std_realloc_def Let_def)
  qed
  show ?thesis
  proof (intro conjI impI)
    assume "v_size v < v_capacity v \<or> oc = ReInPlace"
    then show "push_back sz oc (Cell a i) (h, v) = push_back sz oc (Temp (vec_list (h, v) ! i)) (h, v)"
    proof (cases "v_size v < v_capacity v")
      case False
      with \<open>_ \<or> _\<close> have "oc = ReInPlace" by simp
      then show ?thesis
      proof (cases r)
        case (Inl e)
        with ac new show ?thesis by (simp add: push_back_def)
      next
        case (Inr p)
        with ac new inplace [OF \<open>oc = _\<close> False] show ?thesis
          by (intro push_back_cong [of _ _ _ s' r]) simp_all
      qed
    qed (rule room)
  next
    assume "v_size v = v_capacity v \<and> oc = ReMove \<and> snd (push_back sz oc (Temp x) (h, v)) = Inr ()"
    then show "snd (push_back sz oc (Cell a i) (h, v)) = Inl Undefined"
      using moved ac new by (cases r; cases s') (simp_all add: push_back_def)
  qed
qed

text \<open>Copy assignment from another vector makes the contents equal to those of the other, in a block
  of its own, frees the old block and nothing else, and leaves the other vector as it is; it throws
  only for want of memory and then changes nothing.\<close>

theorem vec_assign_correct:
  assumes inv: "vec_inv sz (h, v)" "vec_inv sz (h, other)"
    and ne: "v_ptr v = None \<or> v_ptr v \<noteq> v_ptr other"
  shows "case vec_assign sz oc (Some other) (h, v) of
      ((h', v'), Inr _) \<Rightarrow> vec_inv sz (h', v') \<and> vec_list (h', v') = vec_list (h, other) \<and>
        vec_rest (h', v') = vec_rest (h, v) \<and>
        vec_inv sz (h', other) \<and> vec_list (h', other) = vec_list (h, other)
    | (s', Inl e) \<Rightarrow> no_memory e \<and> s' = (h, v)"
proof -
  have "vec_inv sz (h', other) \<and> vec_list (h', other) = vec_list (h, other)"
    if i: "vec_inv sz (h', v')" and r: "vec_rest (h', v') = vec_rest (h, v)" for h' v'
  proof (cases "v_ptr other")
    case None
    with inv(2) i show ?thesis by (simp add: vec_inv_def vec_list_def)
  next
    case (Some b)
    have "blocks h b \<noteq> None" using Some inv(2) by (auto simp: vec_inv_def split: option.splits)
    then have "blocks h' b = blocks h b"
      using fun_cong [OF r, of b] ne Some by (auto simp: vec_rest_def split: if_splits)
    with Some inv(2) i show ?thesis by (simp add: vec_inv_def vec_list_def split: option.splits)
  qed
  with vec_assign_law [OF inv, of oc] show ?thesis
    by (auto simp: refines_def split: prod.splits sum.splits)
qed

theorem vec_assign_witness:
  "let h = \<lparr>blocks = [0 \<mapsto> replicate 16 (Some (3::nat))], next_addr = 1\<rparr>;
       other = \<lparr>v_ptr = Some 0, v_size = 2, v_capacity = 16\<rparr>
   in vec_list (fst (vec_assign 4 ReMove (Some other) (h, vector_new))) = [3, 3] \<and>
      vec_assign 4 ReFail (Some other) (h, vector_new) = ((h, vector_new), Inl BadAlloc)"
proof -
  define h :: "nat heap" where "h = \<lparr>blocks = [0 \<mapsto> replicate 16 (Some 3)], next_addr = 1\<rparr>"
  define other where "other = \<lparr>v_ptr = Some 0, v_size = 2, v_capacity = 16\<rparr>"
  have s: "vec_inv 4 (h, vector_new)" "vec_inv 4 (h, other)" "v_ptr vector_new = None"
      "vec_list (h, other) = [3, 3]"
    by (simp_all add: h_def other_def vec_inv_def heap_ok_def vec_list_def vector_new_def size_t_max_def
        list_all_iff) (simp add: numeral_2_eq_2)
  have "\<exists>s' u. vec_assign 4 ReMove (Some other) (h, vector_new) = (s', Inr u)"
    "\<exists>s'. vec_assign 4 ReFail (Some other) (h, vector_new) = (s', Inl BadAlloc)"
    by (simp_all add: h_def other_def vector_new_def vec_assign_def vec_copy_def auto_capacity_def
        mem_reserve_def std_realloc_def size_t_max_def vec_swap_def vec_reset_eq)
  with vec_assign_correct [OF s(1,2), of ReMove] vec_assign_correct [OF s(1,2), of ReFail] s(3,4)
  show ?thesis unfolding h_def [symmetric] other_def [symmetric] by (auto simp: Let_def)
qed

subsection \<open>Growth\<close>

lemma push_back_capacity:
  assumes inv: "vec_inv sz s" and sz: "2 \<le> sz" and r: "push_back sz oc (Temp x) s = (s', r)"
  shows "v_capacity (snd s') = v_capacity (snd s) \<or>
    v_size (snd s) = v_capacity (snd s) \<and> v_capacity (snd s') = max 16 (2 * v_capacity (snd s))"
proof -
  obtain h v where s: "s = (h, v)" by force
  have cap: "v_capacity v < 2 ^ 63" "v_size v \<le> v_capacity v"
    using vec_inv_limit [OF inv sz] vec_inv_size_le [OF inv] by (simp_all add: s)
  have "v_capacity v = 0 \<or> 16 \<le> v_capacity v"
    using inv by (auto simp: s elim: vec_inv_cases)
  then have n: "(v_size v + 1) mod 2 ^ 64 = v_size v + 1" "v_capacity v * 2 mod 2 ^ 64 = v_capacity v * 2"
      "v_size v = v_capacity v \<Longrightarrow>
       (if v_size v + 1 < 16 then 16 else max (v_size v + 1) (v_capacity v * 2)) = max 16 (2 * v_capacity v)"
    using cap by auto
  have mem: "v_capacity (snd s1) = m \<or> snd s1 = v" if "mem_reserve sz oc m (h, v) = (s1, r1)" for m s1 r1
    using that by (auto simp: mem_reserve_def Let_def split: if_splits prod.splits option.splits)
  obtain s1 r1 where ac: "auto_capacity sz oc (v_size v + 1) (h, v) = (s1, r1)" by (meson surj_pair)
  have "v_capacity (snd s1) = v_capacity v \<or>
      v_size v = v_capacity v \<and> v_capacity (snd s1) = max 16 (2 * v_capacity v)"
  proof (cases "v_size v + 1 \<le> v_capacity v")
    case True
    with ac show ?thesis by (auto simp: auto_capacity_def)
  next
    case False
    then have full: "v_size v = v_capacity v" using cap by simp
    have "mem_reserve sz oc (max 16 (2 * v_capacity v)) (h, v) = (s1, r1)"
      using ac False unfolding n(3) [OF full, symmetric]
      by (simp only: auto_capacity_def Let_def n(2) snd_conv if_False if_distrib [of "\<lambda>m. mem_reserve sz oc m (h, v)"])
    with mem full show ?thesis by fastforce
  qed
  moreover have "v_capacity (snd s') = v_capacity (snd s1)"
    using r ac n(1) by (auto simp: push_back_def s split: prod.splits sum.splits option.splits)
  ultimately show ?thesis by (simp add: s)
qed

lemma growths_bound:
  assumes "growths sz xs s = (s', k)" and "vec_inv sz s" and "2 \<le> sz"
    and "v_capacity (snd s) \<le> max 16 (2 * v_size (snd s))"
  shows "vec_inv sz s' \<and> v_capacity (snd s') \<le> max 16 (2 * v_size (snd s')) \<and>
    v_capacity (snd s) * 2 ^ k \<le> v_capacity (snd s') \<and>
    (0 < k \<longrightarrow> 8 * 2 ^ k \<le> v_capacity (snd s'))"
  using assms
proof (induction sz xs s arbitrary: s' k rule: growths.induct)
  case (2 sz oc x xs s)
  obtain s1 r where s1: "push_back sz oc (Temp x) s = (s1, r)" by (meson surj_pair)
  obtain k1 where k1: "growths sz xs s1 = (s', k1)"
      "k = (if v_capacity (snd s1) = v_capacity (snd s) then k1 else k1 + 1)"
    using "2.prems"(1) s1 by (auto split: prod.splits)
  have law: "refines sz s (vec_list s @ [x]) no_memory (s1, r)"
    using push_back_law [OF "2.prems"(2) vec_inv_size_lt [OF "2.prems"(2,3)], of x oc] s1 by simp
  have size: "length (vec_list t) = v_size (snd t)" if "vec_inv sz t" for t :: "'a vstate"
    using length_vec_list [of sz "fst t" "snd t"] that by simp
  have inv1: "vec_inv sz s1 \<and> (s1 = s \<or> v_size (snd s1) = v_size (snd s) + 1)"
    using law "2.prems"(2) size [of s1] size [of s]
    by (auto simp: refines_def split: sum.splits)
  have cap1: "v_capacity (snd s1) = v_capacity (snd s) \<or>
      v_size (snd s) = v_capacity (snd s) \<and> v_capacity (snd s1) = max 16 (2 * v_capacity (snd s))"
    by (rule push_back_capacity [OF "2.prems"(2,3) s1])
  then have "v_capacity (snd s1) \<le> max 16 (2 * v_size (snd s1))"
    using inv1 "2.prems"(4) by auto
  then have IH: "vec_inv sz s'" "v_capacity (snd s') \<le> max 16 (2 * v_size (snd s'))"
      "v_capacity (snd s1) * 2 ^ k1 \<le> v_capacity (snd s')"
      "0 < k1 \<Longrightarrow> 8 * 2 ^ k1 \<le> v_capacity (snd s')"
    using "2.IH" [OF s1 [symmetric] k1(1)] inv1 "2.prems"(3) by simp_all
  show ?case
  proof (cases "v_capacity (snd s1) = v_capacity (snd s)")
    case True
    with IH k1 show ?thesis by simp
  next
    case False
    then have "2 * v_capacity (snd s) \<le> v_capacity (snd s1)" "16 \<le> v_capacity (snd s1)" "k = k1 + 1"
      using cap1 k1 by auto
    then have "(2 * v_capacity (snd s)) * 2 ^ k1 \<le> v_capacity (snd s')"
        "16 * 2 ^ k1 \<le> v_capacity (snd s')"
      using IH(3) by (meson mult_le_mono1 order_trans)+
    with IH \<open>k = k1 + 1\<close> show ?thesis by (simp add: mult.assoc)
  qed
qed auto

text \<open>C38. Appending is amortised: when a new vector takes \<open>n\<close> elements of at least two bytes one by one,
  the number \<open>k\<close> of times that its block is resized satisfies \<open>8 * 2 ^ k \<le> max 16 (2 * n)\<close> unless it
  is zero, so that it grows with the logarithm of the number of elements.\<close>

theorem push_back_amortised:
  assumes "growths sz xs (h, vector_new) = (s', k)" and "heap_ok h" and "2 \<le> sz"
  shows "k = 0 \<or> 8 * 2 ^ k \<le> max 16 (2 * length (vec_list s'))"
proof -
  have new: "vec_inv sz (h, vector_new)" "v_capacity vector_new = 0"
    using assms(2,3) vec_inv_new [of sz h] by simp_all (simp add: vector_new_def)
  have "vec_inv sz s'" "0 < k \<Longrightarrow> 8 * 2 ^ k \<le> v_capacity (snd s')"
      "v_capacity (snd s') \<le> max 16 (2 * v_size (snd s'))"
    using growths_bound [OF assms(1) new(1) assms(3)] new(2) by simp_all
  moreover have "length (vec_list s') = v_size (snd s')"
    using length_vec_list [of sz "fst s'" "snd s'"] \<open>vec_inv sz s'\<close> by simp
  ultimately show ?thesis by (cases "k = 0") (auto intro: order_trans)
qed

theorem push_back_amortised_witness:
  "let out = growths 4 [(ReMove, 1), (ReFail, 2)] (\<lparr>blocks = Map.empty, next_addr = 0\<rparr>, vector_new)
   in snd out = 1 \<and> (8::nat) * 2 ^ snd out \<le> max 16 (2 * length (vec_list (fst out) :: nat list))"
proof -
  define h :: "nat heap" where "h = \<lparr>blocks = Map.empty, next_addr = 0\<rparr>"
  obtain s' k where g: "growths 4 [(ReMove, 1), (ReFail, 2)] (h, vector_new) = (s', k)"
    by (meson surj_pair)
  then have "k = 1"
    by (auto simp: h_def vector_new_def push_back_def auto_capacity_def
        mem_reserve_def std_realloc_def size_t_max_def store_cell_def)
  with push_back_amortised [OF g] g show ?thesis
    unfolding h_def by (simp add: heap_ok_def Let_def)
qed

theorem push_back_alias_witness:
  "let s = (\<lparr>blocks = [0 \<mapsto> replicate 16 (Some (3::nat))], next_addr = 1\<rparr>,
            \<lparr>v_ptr = Some 0, v_size = 16, v_capacity = 16\<rparr>)
   in snd (push_back 4 ReMove (Temp 3) s) = Inr () \<and>
      snd (push_back 4 ReMove (Cell 0 5) s) = Inl Undefined \<and>
      push_back 4 ReInPlace (Cell 0 5) s = push_back 4 ReInPlace (Temp 3) s"
proof -
  define h :: "nat heap" where "h = \<lparr>blocks = [0 \<mapsto> replicate 16 (Some 3)], next_addr = 1\<rparr>"
  define v where "v = \<lparr>v_ptr = Some 0, v_size = 16, v_capacity = 16\<rparr>"
  have s: "vec_inv 4 (h, v)" "v_size v < size_t_max" "v_ptr v = Some 0" "5 < v_size v"
      "vec_list (h, v) ! 5 = 3" "v_size v = v_capacity v"
    by (simp_all add: h_def v_def vec_inv_def heap_ok_def vec_list_def size_t_max_def list_all_iff)
  have "snd (push_back 4 ReMove (Temp 3) (h, v)) = Inr ()"
    by (simp add: h_def v_def push_back_def auto_capacity_def
        mem_reserve_def std_realloc_def size_t_max_def store_cell_def)
  with push_back_alias [OF s(1-4), of ReMove 3] push_back_alias [OF s(1-4), of ReInPlace 3] s(5,6)
  show ?thesis unfolding h_def [symmetric] v_def [symmetric] by (simp add: Let_def)
qed

text \<open>Reading is faithful: \<^verbatim>\<open>at\<close> gives the element or throws \<^verbatim>\<open>out_of_range\<close>, and within the size
  \<^verbatim>\<open>operator[]\<close>, \<^verbatim>\<open>front\<close> and \<^verbatim>\<open>back\<close> give what \<^verbatim>\<open>at\<close> gives.\<close>

theorem vec_reads_correct:
  assumes "vec_inv sz s"
  shows "vec_at i s = (if i < length (vec_list s) then Inr (vec_list s ! i)
                       else Inl (OutOfRange ''index out of range'')) \<and>
    (i < length (vec_list s) \<longrightarrow> vec_index i s = vec_at i s) \<and>
    (vec_list s \<noteq> [] \<longrightarrow> vec_front s = vec_at 0 s \<and> vec_back s = vec_at (length (vec_list s) - 1) s)"
  using vec_at_law [OF assms] vec_unchecked_law [OF assms]
  by (simp add: hd_conv_nth last_conv_nth)

theorem vec_reads_witness:
  "let s = (\<lparr>blocks = [0 \<mapsto> replicate 16 (Some (3::nat))], next_addr = 1\<rparr>,
            \<lparr>v_ptr = Some 0, v_size = 5, v_capacity = 16\<rparr>)
   in vec_at 4 s = Inr 3 \<and> vec_at 5 s = Inl (OutOfRange ''index out of range'') \<and>
      vec_back s = vec_at 4 s"
proof -
  define s :: "nat vstate" where "s = (\<lparr>blocks = [0 \<mapsto> replicate 16 (Some 3)], next_addr = 1\<rparr>,
            \<lparr>v_ptr = Some 0, v_size = 5, v_capacity = 16\<rparr>)"
  have s: "vec_inv 4 s" "vec_list s = replicate 5 3"
    by (simp_all add: s_def vec_inv_def heap_ok_def vec_list_def size_t_max_def list_all_iff)
  show ?thesis
    using vec_reads_correct [OF s(1), of 4] vec_reads_correct [OF s(1), of 5] s(2)
    unfolding s_def [symmetric] by (simp add: Let_def)
qed

end
