(* ===== verification/SvcbParams.thy ===== *)
theory SvcbParams
  imports NstlPrelude IpTools
begin

text \<open>
  The decoder of the SVCB/HTTPS parameters of \<^verbatim>\<open>nstl/dns_tools_posix.cpp\<close> (\<^verbatim>\<open>resolve_params\<close>). Pointers
  into the response are offsets into its bytes; every read is checked against the length of the
  buffer, a read outside of it being \<open>Undefined\<close>. \<^verbatim>\<open>ns_get16\<close> of the resolver library is the
  parameter \<open>get16\<close>: what it makes of the two bytes it reads. Loops over a \<^verbatim>\<open>std::uint16_t\<close> index
  keep the index at its width; they are partial, \<open>None\<close> being a loop that does not end.
\<close>

section \<open>Definitions\<close>

subsection \<open>Reading a buffer\<close>

definition byte_char :: "u8 \<Rightarrow> char" where
  "byte_char w = char_of (unat w)"

definition read8 :: "u8 list \<Rightarrow> nat \<Rightarrow> u8 result" where
  "read8 buf p = (if p < length buf then Inr (buf ! p) else Inl Undefined)"

definition read16 :: "(u8 \<Rightarrow> u8 \<Rightarrow> u16) \<Rightarrow> u8 list \<Rightarrow> nat \<Rightarrow> u16 result" where
  "read16 get16 buf p =
     bind_result (read8 buf p) (\<lambda>a. bind_result (read8 buf (p + 1)) (\<lambda>b. Inr (get16 a b)))"

definition read_bytes :: "u8 list \<Rightarrow> nat \<Rightarrow> nat \<Rightarrow> u8 list result" where
  "read_bytes buf p n = (if p + n \<le> length buf then Inr (take n (drop p buf)) else Inl Undefined)"

subsection \<open>Parameters\<close>

text \<open>The alternatives of the variant \<^verbatim>\<open>svcb_param\<close>.\<close>

datatype svcb_param =
  NoDefaultAlpn
| Mandatory "u16 list"
| DohPath string
| Port u16
| Alpns "string list"
| Ipv4Hints "ip_addr list"
| Ipv6Hints "ip_addr list"

definition KEY_MANDATORY :: u16 where "KEY_MANDATORY = 0"
definition KEY_ALPN :: u16 where "KEY_ALPN = 1"
definition KEY_NO_DEF_ALPN :: u16 where "KEY_NO_DEF_ALPN = 2"
definition KEY_PORT :: u16 where "KEY_PORT = 3"
definition KEY_IPV4HINT :: u16 where "KEY_IPV4HINT = 4"
definition KEY_IPV6HINT :: u16 where "KEY_IPV6HINT = 6"
definition KEY_DOH_PATH :: u16 where "KEY_DOH_PATH = 7"

text \<open>The loop of \<^verbatim>\<open>KEY_ALPN\<close>; the result is \<open>None\<close> when \<^verbatim>\<open>valid\<close> has become false.\<close>

function alpn_loop :: "u8 list \<Rightarrow> nat \<Rightarrow> nat \<Rightarrow> string list \<Rightarrow> string list option result" where
  "alpn_loop buf q vend alpns =
     (if q < vend then
        (case read8 buf q of
           Inl e \<Rightarrow> Inl e
         | Inr l \<Rightarrow>
             (if vend < q + 1 + unat l then Inr None
              else (case read_bytes buf (q + 1) (unat l) of
                      Inl e \<Rightarrow> Inl e
                    | Inr value \<Rightarrow>
                        alpn_loop buf (q + 1 + unat l) vend (alpns @ [map byte_char value]))))
      else Inr (Some alpns))"
  by pat_completeness auto
termination
  by (relation "measure (\<lambda>(buf, q, vend, alpns). vend - q)") auto

declare alpn_loop.simps [simp del]

text \<open>The loops \<^verbatim>\<open>for (std::uint16_t idx = 0; idx < len; idx += step)\<close> of the mandatory keys and of the
  address hints; \<open>rd\<close> is what an iteration reads at its index.\<close>

partial_function (option) idx_loop ::
    "u16 \<Rightarrow> (nat \<Rightarrow> 'a result) \<Rightarrow> u16 \<Rightarrow> u16 \<Rightarrow> 'a list \<Rightarrow> 'a list result option" where
  "idx_loop step rd len idx acc =
     (if idx < len then
        (case rd (unat idx) of
           Inl e \<Rightarrow> Some (Inl e)
         | Inr x \<Rightarrow> idx_loop step rd len (idx + step) (acc @ [x]))
      else Some (Inr acc))"

text \<open>The \<^verbatim>\<open>switch\<close>: what one parameter adds to the result, if anything.\<close>

definition svc_param ::
    "(u8 \<Rightarrow> u8 \<Rightarrow> u16) \<Rightarrow> u8 list \<Rightarrow> u16 \<Rightarrow> nat \<Rightarrow> u16 \<Rightarrow> svcb_param list result option" where
  "svc_param get16 buf key v len =
     (if key = KEY_ALPN then
        Some (bind_result (alpn_loop buf v (v + unat len) [])
                (\<lambda>r. Inr (case r of None \<Rightarrow> [] | Some alpns \<Rightarrow> [Alpns alpns])))
      else if key = KEY_PORT then
        (if len = 2 then Some (bind_result (read16 get16 buf v) (\<lambda>port. Inr [Port port]))
         else Some (Inr []))
      else if key = KEY_MANDATORY then
        (if unat len mod 2 = 0
         then map_option (\<lambda>r. bind_result r (\<lambda>keys. Inr [Mandatory keys]))
                (idx_loop 2 (\<lambda>idx. read16 get16 buf (v + idx)) len 0 [])
         else Some (Inr []))
      else if key = KEY_IPV4HINT then
        (if unat len mod ipv4_size = 0
         then map_option (\<lambda>r. bind_result r (\<lambda>ips. Inr [Ipv4Hints ips]))
                (idx_loop (of_nat ipv4_size) (\<lambda>idx. read_bytes buf (v + idx) ipv4_size) len 0 [])
         else Some (Inr []))
      else if key = KEY_IPV6HINT then
        (if unat len mod ipv6_size = 0
         then map_option (\<lambda>r. bind_result r (\<lambda>ips. Inr [Ipv6Hints ips]))
                (idx_loop (of_nat ipv6_size) (\<lambda>idx. read_bytes buf (v + idx) ipv6_size) len 0 [])
         else Some (Inr []))
      else if key = KEY_NO_DEF_ALPN then Some (Inr [NoDefaultAlpn])
      else if key = KEY_DOH_PATH then
        Some (bind_result (read_bytes buf v (unat len)) (\<lambda>bs. Inr [DohPath (map byte_char bs)]))
      else Some (Inr []))"

function resolve_loop ::
    "(u8 \<Rightarrow> u8 \<Rightarrow> u16) \<Rightarrow> u8 list \<Rightarrow> nat \<Rightarrow> nat \<Rightarrow> svcb_param list \<Rightarrow> svcb_param list result option" where
  "resolve_loop get16 buf p e retval =
     (if p + 4 \<le> e then
        (case read16 get16 buf p of
           Inl x \<Rightarrow> Some (Inl x)
         | Inr key \<Rightarrow>
             (case read16 get16 buf (p + 2) of
                Inl x \<Rightarrow> Some (Inl x)
              | Inr len \<Rightarrow>
                  (if e < p + 4 + unat len then Some (Inr retval)
                   else (case svc_param get16 buf key (p + 4) len of
                           None \<Rightarrow> None
                         | Some (Inl x) \<Rightarrow> Some (Inl x)
                         | Some (Inr ps) \<Rightarrow>
                             resolve_loop get16 buf (p + 4 + unat len) e (retval @ ps)))))
      else Some (Inr retval))"
  by pat_completeness auto
termination
  by (relation "measure (\<lambda>(get16, buf, p, e, retval). e - p)") auto

declare resolve_loop.simps [simp del]

definition resolve_params ::
    "(u8 \<Rightarrow> u8 \<Rightarrow> u16) \<Rightarrow> u8 list \<Rightarrow> nat \<Rightarrow> nat \<Rightarrow> svcb_param list result option" where
  "resolve_params get16 buf p e = resolve_loop get16 buf p e []"

subsection \<open>Specification\<close>

text \<open>The wire format on byte lists: a parameter is a key, a length and that many bytes; what is left
  at the end without forming a whole parameter is dropped.\<close>

function split_tlvs :: "(u8 \<Rightarrow> u8 \<Rightarrow> u16) \<Rightarrow> u8 list \<Rightarrow> (u16 \<times> u8 list) list" where
  "split_tlvs get16 bs =
     (if length bs < 4 then []
      else let len = unat (get16 (bs ! 2) (bs ! 3)) in
           if length bs < 4 + len then []
           else (get16 (bs ! 0) (bs ! 1), take len (drop 4 bs)) # split_tlvs get16 (drop (4 + len) bs))"
  by pat_completeness auto
termination
  by (relation "measure (\<lambda>(get16, bs). length bs)") auto

declare split_tlvs.simps [simp del]

fun alpn_split :: "u8 list \<Rightarrow> string list option" where
  "alpn_split [] = Some []"
| "alpn_split (l # bs) =
     (if unat l \<le> length bs
      then map_option (\<lambda>ss. map byte_char (take (unat l) bs) # ss) (alpn_split (drop (unat l) bs))
      else None)"

definition chunks :: "nat \<Rightarrow> u8 list \<Rightarrow> u8 list list" where
  "chunks k bs = map (\<lambda>j. take k (drop (k * j) bs)) [0..<length bs div k]"

definition tlv_meaning :: "(u8 \<Rightarrow> u8 \<Rightarrow> u16) \<Rightarrow> u16 \<times> u8 list \<Rightarrow> svcb_param list" where
  "tlv_meaning get16 kv =
     (case kv of (key, bs) \<Rightarrow>
        if key = KEY_ALPN then (case alpn_split bs of None \<Rightarrow> [] | Some ss \<Rightarrow> [Alpns ss])
        else if key = KEY_PORT then (if length bs = 2 then [Port (get16 (bs ! 0) (bs ! 1))] else [])
        else if key = KEY_MANDATORY
          then (if 2 dvd length bs then [Mandatory (map (\<lambda>c. get16 (c ! 0) (c ! 1)) (chunks 2 bs))] else [])
        else if key = KEY_IPV4HINT then (if 4 dvd length bs then [Ipv4Hints (chunks 4 bs)] else [])
        else if key = KEY_IPV6HINT then (if 16 dvd length bs then [Ipv6Hints (chunks 16 bs)] else [])
        else if key = KEY_NO_DEF_ALPN then [NoDefaultAlpn]
        else if key = KEY_DOH_PATH then [DohPath (map byte_char bs)]
        else [])"

text \<open>The encoder of the wire format, with 16-bit numbers in network order.\<close>

definition char_byte :: "char \<Rightarrow> u8" where
  "char_byte c = of_nat (of_char c)"

definition be16 :: "u16 \<Rightarrow> u8 list" where
  "be16 w = [ucast (drop_bit 8 w), ucast w]"

fun encode_param :: "svcb_param \<Rightarrow> u16 \<times> u8 list" where
  "encode_param NoDefaultAlpn = (KEY_NO_DEF_ALPN, [])"
| "encode_param (Mandatory ks) = (KEY_MANDATORY, concat (map be16 ks))"
| "encode_param (DohPath s) = (KEY_DOH_PATH, map char_byte s)"
| "encode_param (Port p) = (KEY_PORT, be16 p)"
| "encode_param (Alpns ss) =
     (KEY_ALPN, concat (map (\<lambda>s. of_nat (length s) # map char_byte s) ss))"
| "encode_param (Ipv4Hints ips) = (KEY_IPV4HINT, concat ips)"
| "encode_param (Ipv6Hints ips) = (KEY_IPV6HINT, concat ips)"

fun wf_param :: "svcb_param \<Rightarrow> bool" where
  "wf_param (Alpns ss) = list_all (\<lambda>s. length s < 256) ss"
| "wf_param (Ipv4Hints ips) = list_all (\<lambda>a. length a = 4) ips"
| "wf_param (Ipv6Hints ips) = list_all (\<lambda>a. length a = 16) ips"
| "wf_param _ = True"

definition encode_params :: "svcb_param list \<Rightarrow> u8 list" where
  "encode_params ps =
     concat (map (\<lambda>p. be16 (fst (encode_param p)) @ be16 (of_nat (length (snd (encode_param p)))) @
                       snd (encode_param p)) ps)"

definition network_order :: "(u8 \<Rightarrow> u8 \<Rightarrow> u16) \<Rightarrow> bool" where
  "network_order get16 \<longleftrightarrow> (\<forall>a b. unat (get16 a b) = 256 * unat a + unat b)"

section \<open>Theorems\<close>

subsection \<open>Loops\<close>

text \<open>A loop over a 16-bit index ends when the step divides the length: the index never wraps.\<close>

lemma idx_loop_total:
  assumes len: "unat len = k * n" and idx: "unat idx = k * i" and i: "i \<le> n"
    and k: "0 < k" "unat step = k" and rd: "\<And>j. j < n \<Longrightarrow> rd (k * j) = Inr (f j)"
  shows "idx_loop step rd len idx acc = Some (Inr (acc @ map f [i..<n]))"
  using i idx
proof (induction "n - i" arbitrary: i idx acc)
  case 0
  then have "i = n" by simp
  then have "\<not> idx < len" using 0 len by (simp add: word_less_nat_alt)
  then show ?case using \<open>i = n\<close> by (simp add: idx_loop.simps)
next
  case (Suc m)
  then have lt: "i < n" by simp
  then have less: "idx < len" using Suc.prems len k by (simp add: word_less_nat_alt)
  have "k * i + k \<le> k * n"
    using lt by (metis Suc_leI mult_Suc_right add.commute mult_le_mono2)
  then have bound: "unat idx + unat step < 2 ^ 16"
    using Suc.prems len k unsigned_less [of len, where ?'a = nat] by simp
  then have next_idx: "unat (idx + step) = k * (i + 1)"
    using Suc.prems k by (simp add: unat_word_ariths)
  have "idx_loop step rd len idx acc = idx_loop step rd len (idx + step) (acc @ [f i])"
    using less rd [OF lt] Suc.prems by (subst idx_loop.simps) simp
  also have "\<dots> = Some (Inr ((acc @ [f i]) @ map f [i + 1..<n]))"
    using Suc.hyps(1) [of "i + 1" "idx + step"] Suc.hyps(2) lt next_idx by simp
  finally show ?case using lt by (simp add: upt_conv_Cons)
qed

subsection \<open>Reads inside of the buffer\<close>

text \<open>A read of the window \<open>bs\<close> that starts at the offset \<open>length pre\<close>.\<close>

lemma read8_window:
  "i < length bs \<Longrightarrow> read8 (pre @ bs @ post) (length pre + i) = Inr (bs ! i)"
  by (simp add: read8_def nth_append)

lemma read16_window:
  "i + 1 < length bs \<Longrightarrow>
   read16 get16 (pre @ bs @ post) (length pre + i) = Inr (get16 (bs ! i) (bs ! (i + 1)))"
  using read8_window [of i bs pre post] read8_window [of "i + 1" bs pre post]
  by (simp add: read16_def)

lemma read_bytes_window:
  "i + n \<le> length bs \<Longrightarrow>
   read_bytes (pre @ bs @ post) (length pre + i) n = Inr (take n (drop i bs))"
  by (simp add: read_bytes_def)

lemma alpn_loop_window:
  "alpn_loop (pre @ bs @ post) (length pre) (length pre + length bs) acc =
     Inr (map_option (\<lambda>ss. acc @ ss) (alpn_split bs))"
proof (induction bs arbitrary: pre acc rule: alpn_split.induct)
  case 1
  show ?case by (simp add: alpn_loop.simps)
next
  case (2 l bs)
  have r8: "read8 (pre @ (l # bs) @ post) (length pre) = Inr l"
    using read8_window [of 0 "l # bs" pre post] by simp
  show ?case
  proof (cases "unat l \<le> length bs")
    case True
    define v where "v = take (unat l) bs"
    define pre' where "pre' = pre @ l # v"
    have split: "pre @ (l # bs) @ post = pre' @ drop (unat l) bs @ post"
      by (simp add: pre'_def v_def)
    have len: "length pre + 1 + unat l = length pre'"
        "length pre + length (l # bs) = length pre' + length (drop (unat l) bs)"
      using True by (simp_all add: pre'_def v_def)
    have rb: "read_bytes (pre @ (l # bs) @ post) (length pre + 1) (unat l) = Inr v"
      using read_bytes_window [of 1 "unat l" "l # bs" pre post] True by (simp add: v_def)
    have "alpn_loop (pre @ (l # bs) @ post) (length pre) (length pre + length (l # bs)) acc =
        alpn_loop (pre @ (l # bs) @ post) (length pre + 1 + unat l) (length pre + length (l # bs))
          (acc @ [map byte_char v])"
      by (subst alpn_loop.simps) (use True r8 rb in simp)
    also have "\<dots> = Inr (map_option (\<lambda>ss. (acc @ [map byte_char v]) @ ss) (alpn_split (drop (unat l) bs)))"
      unfolding split len by (rule "2.IH" [OF True])
    finally show ?thesis using True by (simp add: v_def option.map_comp comp_def)
  next
    case False
    then show ?thesis by (subst alpn_loop.simps) (use r8 in simp)
  qed
qed

lemma idx_loop_chunks:
  assumes len: "unat len = length bs" and k: "0 < k" "unat step = k" "k dvd length bs"
    and rd: "\<And>j. j < length bs div k \<Longrightarrow> rd (k * j) = Inr (f (take k (drop (k * j) bs)))"
  shows "idx_loop step rd len 0 [] = Some (Inr (map f (chunks k bs)))"
proof -
  have "idx_loop step rd len 0 [] =
      Some (Inr ([] @ map (\<lambda>j. f (take k (drop (k * j) bs))) [0..<length bs div k]))"
    using len k rd by (intro idx_loop_total) simp_all
  then show ?thesis by (simp add: chunks_def comp_def)
qed

lemma chunk_bound: "j < length bs div k \<Longrightarrow> k * j + k \<le> length bs"
  by (metis Suc_leI add.commute div_times_less_eq_dividend mult.commute mult_Suc_right mult_le_mono2 order_trans)

text \<open>One parameter: the \<^verbatim>\<open>switch\<close> always returns, throws nothing, and reads no byte outside of the value.\<close>

lemma svc_param_window:
  assumes len: "unat len = length bs"
  shows "svc_param get16 (pre @ bs @ post) key (length pre) len = Some (Inr (tlv_meaning get16 (key, bs)))"
proof -
  have hints: "idx_loop (of_nat k) (\<lambda>idx. read_bytes (pre @ bs @ post) (length pre + idx) k) len 0 [] =
      Some (Inr (chunks k bs))" if "0 < k" "k < 2 ^ 16" "k dvd length bs" for k
  proof -
    have "unat (of_nat k :: u16) = k" using that by (simp add: unsigned_of_nat take_bit_nat_eq_self)
    then show ?thesis
      using idx_loop_chunks [of len bs k "of_nat k" "\<lambda>idx. read_bytes (pre @ bs @ post) (length pre + idx) k" "\<lambda>x. x"]
        len that chunk_bound [of _ bs k]
      by (simp add: read_bytes_window)
  qed
  have keys: "idx_loop 2 (\<lambda>idx. read16 get16 (pre @ bs @ post) (length pre + idx)) len 0 [] =
      Some (Inr (map (\<lambda>c. get16 (c ! 0) (c ! 1)) (chunks 2 bs)))" if "2 dvd length bs"
    using len that chunk_bound [of _ bs 2]
    by (intro idx_loop_chunks) (auto simp: read16_window)
  have port: "read16 get16 (pre @ bs @ post) (length pre) = Inr (get16 (bs ! 0) (bs ! 1))"
    if "length bs = 2" using that read16_window [of 0 bs get16 pre post] by simp
  have len2: "len = 2 \<longleftrightarrow> length bs = 2"
    unfolding len [symmetric] by (auto intro: unsigned_word_eqI [where ?'a = nat])
  have doh: "read_bytes (pre @ bs @ post) (length pre) (length bs) = Inr bs"
    using read_bytes_window [of 0 "length bs" bs pre post] by simp
  define buf where "buf = pre @ bs @ post"
  have alpn: "bind_result (alpn_loop buf (length pre) (length pre + unat len) [])
        (\<lambda>r. Inr (case r of None \<Rightarrow> [] | Some alpns \<Rightarrow> [Alpns alpns])) =
      Inr (case alpn_split bs of None \<Rightarrow> [] | Some ss \<Rightarrow> [Alpns ss])"
    unfolding buf_def len alpn_loop_window by (simp split: option.splits)
  have hint4: "idx_loop (of_nat 4) (\<lambda>idx. read_bytes buf (length pre + idx) 4) len 0 [] =
      Some (Inr (chunks 4 bs))" if "4 dvd length bs"
    unfolding buf_def using that by (intro hints) simp_all
  have hint16: "idx_loop (of_nat 16) (\<lambda>idx. read_bytes buf (length pre + idx) 16) len 0 [] =
      Some (Inr (chunks 16 bs))" if "16 dvd length bs"
    unfolding buf_def using that by (intro hints) simp_all
  show ?thesis
    unfolding svc_param_def tlv_meaning_def prod.case buf_def [symmetric] len len2
      dvd_eq_mod_eq_0 [symmetric]
    by (simp only: if_distrib [of Inr] if_distrib [of Some] alpn [unfolded len] keys [folded buf_def] port [folded buf_def]
        doh [folded buf_def] hint4 hint16 option.map bind_result_simps cong: if_cong)
qed

subsection \<open>The decoder\<close>

lemma resolve_loop_window:
  "resolve_loop get16 (pre @ bs @ post) (length pre) (length pre + length bs) retval =
     Some (Inr (retval @ concat (map (tlv_meaning get16) (split_tlvs get16 bs))))"
proof (induction get16 bs arbitrary: pre retval rule: split_tlvs.induct)
  case (1 get16 bs)
  define buf where "buf = pre @ bs @ post"
  show ?case
  proof (cases "length bs < 4")
    case True
    then show ?thesis by (subst resolve_loop.simps, subst split_tlvs.simps) simp
  next
    case False
    define key where "key = get16 (bs ! 0) (bs ! 1)"
    define len where "len = get16 (bs ! 2) (bs ! 3)"
    have k: "read16 get16 buf (length pre) = Inr key"
      using False read16_window [of 0 bs get16 pre post] by (simp add: buf_def key_def)
    have l: "read16 get16 buf (length pre + 2) = Inr len"
      using False read16_window [of 2 bs get16 pre post] by (simp add: buf_def len_def eval_nat_numeral)
    show ?thesis
    proof (cases "length bs < 4 + unat len")
      case True
      then show ?thesis using k l False unfolding buf_def [symmetric]
        by (subst resolve_loop.simps, subst split_tlvs.simps) (simp add: len_def)
    next
      case enough: False
      define v where "v = take (unat len) (drop 4 bs)"
      define pre' where "pre' = pre @ take 4 bs @ v"
      define rest where "rest = drop (4 + unat len) bs"
      have split: "bs = take 4 bs @ v @ rest"
        by (simp add: v_def rest_def add.commute flip: drop_drop)
      have v: "length v = unat len" using enough by (simp add: v_def)
      have l4: "length (take 4 bs) = 4" using False by simp
      have sp: "svc_param get16 buf key (length pre + 4) len = Some (Inr (tlv_meaning get16 (key, v)))"
        using svc_param_window [of len v get16 "pre @ take 4 bs" "rest @ post" key] v l4 split
        by (metis append.assoc buf_def length_append)
      have buf': "buf = pre' @ rest @ post" using split by (simp add: buf_def pre'_def)
      have len': "length pre + 4 + unat len = length pre'" "length pre + length bs = length pre' + length rest"
        using v l4 enough by (simp_all add: pre'_def rest_def)
      have "resolve_loop get16 buf (length pre) (length pre + length bs) retval =
          resolve_loop get16 buf (length pre + 4 + unat len) (length pre + length bs)
            (retval @ tlv_meaning get16 (key, v))"
        using k l sp False enough by (subst resolve_loop.simps) simp
      also have "\<dots> = Some (Inr ((retval @ tlv_meaning get16 (key, v)) @
          concat (map (tlv_meaning get16) (split_tlvs get16 rest))))"
        unfolding len' buf' rest_def by (rule "1.IH" [OF False _ ]) (use enough in \<open>simp_all add: len_def\<close>)
      finally show ?thesis
        using False enough unfolding buf_def
        by (subst split_tlvs.simps) (simp add: key_def len_def v_def rest_def Let_def)
    qed
  qed
qed

text \<open>C3. \<^verbatim>\<open>resolve_params\<close> is total and memory safe: on every window of bytes of every buffer it
  returns (also from the loops over a 16-bit index), reads nothing outside of the window, and yields
  exactly the meanings of the whole parameters in it, in their order, the unknown and malformed ones
  and a truncated rest left out.\<close>

theorem resolve_params_correct:
  "resolve_params get16 (pre @ bs @ post) (length pre) (length pre + length bs) =
     Some (Inr (concat (map (tlv_meaning get16) (split_tlvs get16 bs))))"
  unfolding resolve_params_def resolve_loop_window by simp

subsection \<open>Round trip\<close>

lemma byte_char_inverse [simp]: "byte_char (char_byte c) = c"
  by (simp add: byte_char_def char_byte_def unsigned_of_nat take_bit_eq_mod)

lemma map_byte_char [simp]: "map (byte_char \<circ> char_byte) s = s"
  by (induction s) simp_all

lemma length_be16 [simp]: "length (be16 w) = 2"
  by (simp add: be16_def)

lemma get16_be16:
  assumes "network_order get16"
  shows "get16 (be16 w ! 0) (be16 w ! 1) = w"
proof -
  have "unat (get16 (be16 w ! 0) (be16 w ! 1)) = 256 * unat (ucast (drop_bit 8 w) :: u8) + unat (ucast w :: u8)"
    using assms by (simp add: network_order_def be16_def)
  also have "\<dots> = 256 * (unat w div 256) + unat w mod 256"
  proof -
    have "unat w < 65536" using unsigned_less [of w, where ?'a = nat] by simp
    then have "unat w div 256 < 256" by simp
    then show ?thesis
      by (simp add: unsigned_ucast_eq take_bit_eq_mod drop_bit_eq_div unat_div)
  qed
  finally show ?thesis by (intro unsigned_word_eqI [where ?'a = nat]) simp
qed

lemma chunks_concat:
  assumes "0 < k" and "list_all (\<lambda>a. length a = k) xs"
  shows "chunks k (concat xs) = xs" "k dvd length (concat xs)"
proof -
  have len: "length (concat xs) = k * length xs"
    using assms(2) by (induction xs) simp_all
  have nth: "take k (drop (k * j) (concat xs)) = xs ! j" if "j < length xs" for j
    using that assms(2)
  proof (induction xs arbitrary: j)
    case (Cons x xs)
    then show ?case by (cases j) auto
  qed simp
  show "chunks k (concat xs) = xs"
    using len nth assms(1) by (intro nth_equalityI) (simp_all add: chunks_def)
  show "k dvd length (concat xs)" using len by simp
qed

lemma alpn_split_encode:
  "list_all (\<lambda>s. length s < 256) ss \<Longrightarrow>
   alpn_split (concat (map (\<lambda>s. of_nat (length s) # map char_byte s) ss)) = Some ss"
  by (induction ss) (simp_all add: unsigned_of_nat take_bit_nat_eq_self)

lemma tlv_meaning_encode:
  assumes get16: "network_order get16" and wf: "wf_param p"
  shows "tlv_meaning get16 (encode_param p) = [p]"
proof (cases p)
  case (Mandatory ks)
  have "chunks 2 (concat (map be16 ks)) = map be16 ks" "2 dvd length (concat (map be16 ks))"
    by (intro chunks_concat; simp add: list_all_iff)+
  then show ?thesis
    using Mandatory get16_be16 [OF get16]
    by (simp add: tlv_meaning_def KEY_MANDATORY_def KEY_ALPN_def KEY_PORT_def comp_def)
next
  case (Port w)
  then show ?thesis
    using get16_be16 [OF get16] by (simp add: tlv_meaning_def KEY_ALPN_def KEY_PORT_def)
next
  case (Ipv4Hints ips)
  then show ?thesis
    using wf chunks_concat [of 4 ips]
    by (simp add: tlv_meaning_def KEY_MANDATORY_def KEY_ALPN_def KEY_PORT_def KEY_IPV4HINT_def)
next
  case (Ipv6Hints ips)
  then show ?thesis
    using wf chunks_concat [of 16 ips]
    by (simp add: tlv_meaning_def KEY_MANDATORY_def KEY_ALPN_def KEY_PORT_def KEY_IPV4HINT_def KEY_IPV6HINT_def)
qed (use wf in \<open>simp_all add: tlv_meaning_def KEY_MANDATORY_def KEY_ALPN_def KEY_PORT_def KEY_IPV4HINT_def
      KEY_IPV6HINT_def KEY_NO_DEF_ALPN_def KEY_DOH_PATH_def alpn_split_encode\<close>)

lemma split_tlvs_encode:
  assumes get16: "network_order get16" and len: "list_all (\<lambda>p. length (snd (encode_param p)) < 65536) ps"
  shows "split_tlvs get16 (encode_params ps) = map encode_param ps"
  using len
proof (induction ps)
  case Nil
  show ?case by (subst split_tlvs.simps) (simp add: encode_params_def)
next
  case (Cons p ps)
  define v where "v = snd (encode_param p)"
  define k where "k = be16 (fst (encode_param p))"
  define l where "l = be16 (of_nat (length v))"
  have enc: "encode_params (p # ps) = k @ l @ v @ encode_params ps"
    by (simp add: encode_params_def k_def l_def v_def)
  have nth: "encode_params (p # ps) ! 0 = k ! 0" "encode_params (p # ps) ! 1 = k ! 1"
      "encode_params (p # ps) ! 2 = l ! 0" "encode_params (p # ps) ! 3 = l ! 1"
    unfolding enc by (simp_all add: k_def l_def be16_def)
  have g: "get16 (k ! 0) (k ! 1) = fst (encode_param p)" "get16 (l ! 0) (l ! 1) = of_nat (length v)"
    using get16_be16 [OF get16] by (simp_all add: k_def l_def)
  have u: "unat (of_nat (length v) :: u16) = length v"
    using Cons.prems by (simp add: v_def unsigned_of_nat take_bit_nat_eq_self)
  have d: "drop 4 (encode_params (p # ps)) = v @ encode_params ps" "length k = 2" "length l = 2"
    unfolding enc by (simp_all add: k_def l_def)
  have "split_tlvs get16 (encode_params (p # ps)) =
      (fst (encode_param p), v) # split_tlvs get16 (encode_params ps)"
    using d u g nth
    by (subst split_tlvs.simps) (simp add: Let_def enc flip: drop_drop)
  then show ?case using Cons by (simp add: v_def)
qed

lemma concat_tlv_meaning:
  assumes "network_order get16" and "list_all wf_param ps"
  shows "concat (map (tlv_meaning get16) (map encode_param ps)) = ps"
  using assms(2) by (induction ps) (simp_all add: tlv_meaning_encode [OF assms(1)])

lemma network_order_sum: "network_order (\<lambda>a b. 256 * ucast a + ucast b)"
  unfolding network_order_def
proof (intro allI)
  fix a b :: u8
  have "unat a < 256" "unat b < 256"
    using unsigned_less [of a, where ?'a = nat] unsigned_less [of b, where ?'a = nat] by simp_all
  then show "unat (256 * ucast a + ucast b :: u16) = 256 * unat a + unat b"
    by (simp add: unat_word_ariths unsigned_ucast_eq take_bit_nat_eq_self)
qed

text \<open>C33. The decoder inverts the wire format: with 16-bit numbers read in network order, decoding the
  encoding of parameters that fit their length fields gives the parameters back.\<close>

theorem resolve_params_roundtrip:
  assumes "network_order get16" and "list_all wf_param ps"
    and "list_all (\<lambda>p. length (snd (encode_param p)) < 65536) ps"
  shows "resolve_params get16 (encode_params ps) 0 (length (encode_params ps)) = Some (Inr ps)"
  using resolve_loop_window [of get16 "[]" "encode_params ps" "[]" "[]"]
    split_tlvs_encode [OF assms(1,3)] concat_tlv_meaning [OF assms(1,2)]
  by (simp add: resolve_params_def)

theorem resolve_params_roundtrip_witness:
  "let get16 = (\<lambda>a b. 256 * ucast a + ucast b);
       ps = [Port 443, Alpns [''h2'', ''h3''], Ipv4Hints [[1, 2, 3, 4]]]
   in resolve_params get16 (encode_params ps) 0 (length (encode_params ps)) = Some (Inr ps)"
  using resolve_params_roundtrip [OF network_order_sum, of "[Port 443, Alpns [''h2'', ''h3''], Ipv4Hints [[1, 2, 3, 4]]]"]
  by (simp add: Let_def)

end
