(* ===== verification/DnsClient.thy ===== *)
theory DnsClient
  imports SvcbParams Charconv
begin

text \<open>
  The name lookups of \<^verbatim>\<open>nstl/dns_tools.cpp\<close> and \<^verbatim>\<open>nstl/dns_tools_posix.cpp\<close>. The socket and the resolver
  library are parameters: \<open>gethost\<close> for \<^verbatim>\<open>gethostname\<close>, \<open>gai\<close> for \<^verbatim>\<open>getaddrinfo\<close>, and a record of the
  functions of \<^verbatim>\<open>resolv.h\<close> and \<^verbatim>\<open>arpa/nameser.h\<close>. The answer to a query may differ from call to call,
  so the calls are numbered. Records refer to the message by offsets, and every read is checked
  against the length of the message.
\<close>

section \<open>Definitions\<close>

subsection \<open>dns_tools.cpp\<close>

abbreviation (input) "max_host_size \<equiv> (256::nat)"

definition cstr :: "string \<Rightarrow> string" where
  "cstr s = takeWhile (\<lambda>c. code_of c \<noteq> 0) s"

text \<open>The array is read by its users as a C string: \<^verbatim>\<open>strncpy\<close> stops at a NUL of the view.\<close>

definition stack_name :: "string \<Rightarrow> string result" where
  "stack_name name =
     throw_if (name = []) (NstlException ''name_ cannot be nullptr'')
       (throw_if (max_host_size \<le> length name) (NstlException ''Target stack is small (it should be fine: FQDN is 255 bytes maximum)'')
         (Inr (cstr name)))"

definition hostname :: "int \<times> string \<Rightarrow> string result" where
  "hostname gethost =
     throw_if (fst gethost \<noteq> 0) (NstlException ''hostname cannot be resolved'')
       (let buffer = snd gethost @ replicate (max_host_size - length (snd gethost)) (CHR 0x00)
        in if CHR 0x00 \<in> set (take max_host_size buffer) then Inr (cstr buffer) else Inl Undefined)"

text \<open>\<^verbatim>\<open>addrinfo\<close>: \<open>ai_addr\<close> holds the bytes of \<^verbatim>\<open>sin_addr\<close> or \<^verbatim>\<open>sin6_addr\<close>, as the family says; the list
  linked by \<^verbatim>\<open>ai_next\<close> is a list.\<close>

record addrinfo =
  ai_family :: nat
  ai_canonname :: cstring
  ai_addr :: "u8 list"

record addr_hints =
  hint_family :: nat
  hint_flags :: nat
  hint_socktype :: nat

abbreviation (input) "AF_UNSPEC \<equiv> (0::nat)"
abbreviation (input) "AF_INET \<equiv> (2::nat)"
abbreviation (input) "AF_INET6 \<equiv> (10::nat)"
abbreviation (input) "AI_CANONNAME \<equiv> (2::nat)"
abbreviation (input) "AI_ADDRCONFIG \<equiv> (32::nat)"
abbreviation (input) "SOCK_STREAM \<equiv> (1::nat)"
abbreviation (input) "host_not_found \<equiv> (- 2 :: int)"

type_synonym getaddrinfo = "string \<Rightarrow> addr_hints \<Rightarrow> int \<times> addrinfo list"

fun canonical_loop :: "addrinfo list \<Rightarrow> string option" where
  "canonical_loop [] = None"
| "canonical_loop (a # as) = (case ai_canonname a of Some n \<Rightarrow> Some n | None \<Rightarrow> canonical_loop as)"

definition canonical_name :: "getaddrinfo \<Rightarrow> string \<Rightarrow> string option result" where
  "canonical_name gai name =
     bind_result (stack_name name) (\<lambda>n.
       (case gai n \<lparr>hint_family = AF_UNSPEC, hint_flags = AI_CANONNAME, hint_socktype = 0\<rparr> of
          (success, res) \<Rightarrow>
            if success \<noteq> 0
            then throw_if (success \<noteq> host_not_found) (NstlException ''Issues on resolving '') (Inr None)
            else Inr (canonical_loop res)))"

datatype IpClass = Ipv4 | Ipv6 | IpvAll | IpClassOther

fun ips_loop :: "addrinfo list \<Rightarrow> ip_addr_gen list option \<Rightarrow> ip_addr_gen list option" where
  "ips_loop [] retval = retval"
| "ips_loop (a # as) retval =
     (if ai_family a = AF_INET
      then ips_loop as (Some ((case retval of None \<Rightarrow> [] | Some xs \<Rightarrow> xs) @ [AddrV4 (take ipv4_size (ai_addr a))]))
      else if ai_family a = AF_INET6
      then ips_loop as (Some ((case retval of None \<Rightarrow> [] | Some xs \<Rightarrow> xs) @ [AddrV6 (take ipv6_size (ai_addr a))]))
      else ips_loop as retval)"

definition ip_class_family :: "IpClass \<Rightarrow> nat result" where
  "ip_class_family c =
     (case c of Ipv4 \<Rightarrow> Inr AF_INET | Ipv6 \<Rightarrow> Inr AF_INET6 | IpvAll \<Rightarrow> Inr AF_UNSPEC
              | IpClassOther \<Rightarrow> Inl (NstlException ''Unknown IpClass type''))"

definition ips_name :: "getaddrinfo \<Rightarrow> string \<Rightarrow> IpClass \<Rightarrow> ip_addr_gen list option result" where
  "ips_name gai name cls =
     bind_result (stack_name name) (\<lambda>n.
       bind_result (ip_class_family cls) (\<lambda>family.
         (case gai n \<lparr>hint_family = family, hint_flags = AI_ADDRCONFIG, hint_socktype = SOCK_STREAM\<rparr> of
            (success, res) \<Rightarrow>
              if success \<noteq> 0
              then throw_if (success \<noteq> host_not_found) (NstlException ''Issues on resolving '') (Inr None)
              else Inr (ips_loop res None))))"

subsection \<open>The resolver library\<close>

record ns_rr =
  rr_class :: nat
  rr_type :: nat
  rr_rdata :: nat
  rr_rdlen :: nat

text \<open>\<open>res_nquery\<close> of a call number, a name, a type and a buffer size is the length it returns and the
  bytes it stores; \<open>ns_initparse\<close> tells whether the message parses; \<open>dn_expand\<close> of a message and an
  offset is the number of bytes the (possibly compressed) name takes up there and the expanded name.\<close>

record resolver =
  res_nquery :: "nat \<Rightarrow> string \<Rightarrow> nat \<Rightarrow> nat \<Rightarrow> int \<times> u8 list"
  ns_initparse :: "u8 list \<Rightarrow> bool"
  ns_msg_count :: "u8 list \<Rightarrow> nat"
  ns_parserr :: "u8 list \<Rightarrow> nat \<Rightarrow> ns_rr option"
  ns_get16 :: "u8 \<Rightarrow> u8 \<Rightarrow> u16"
  dn_expand :: "u8 list \<Rightarrow> nat \<Rightarrow> (nat \<times> string) option"

abbreviation (input) "ns_c_in \<equiv> (1::nat)"
abbreviation (input) "ns_t_cname \<equiv> (5::nat)"
abbreviation (input) "ns_t_mx \<equiv> (15::nat)"
abbreviation (input) "ns_t_txt \<equiv> (16::nat)"
abbreviation (input) "ns_t_srv \<equiv> (33::nat)"
abbreviation (input) "NS_INT16SZ \<equiv> (2::nat)"
abbreviation (input) "NS_MAXDNAME \<equiv> (1025::nat)"

subsection \<open>The client\<close>

text \<open>The state that outlives a query: the size of \<^verbatim>\<open>_response\<close> and the number of calls so far.\<close>

record dns_client =
  response_size :: nat
  calls :: nat

definition dns_client_new :: "bool \<Rightarrow> dns_client result" where
  "dns_client_new ninit_ok =
     throw_if (\<not> ninit_ok) (NstlException ''Resolver initialize failed'')
       (Inr \<lparr>response_size = 4096, calls = 0\<rparr>)"

text \<open>The loop of \<^verbatim>\<open>_process_item\<close>: ask again with a larger buffer while the answer does not fit.\<close>

partial_function (option) query_loop ::
    "resolver \<Rightarrow> string \<Rightarrow> nat \<Rightarrow> dns_client \<Rightarrow> (dns_client \<times> u8 list option) option" where
  "query_loop r name ns_type c =
     (case res_nquery r (calls c) name ns_type (response_size c) of
        (len, bytes) \<Rightarrow>
          (let c' = c\<lparr>calls := calls c + 1\<rparr> in
           if len \<le> 0 then Some (c', None)
           else if response_size c \<le> nat len
           then query_loop r name ns_type (c'\<lparr>response_size := nat len + 1\<rparr>)
           else Some (c', Some (take (nat len) bytes))))"

definition process_item ::
    "resolver \<Rightarrow> string \<Rightarrow> nat \<Rightarrow> (u8 list \<Rightarrow> nat \<Rightarrow> 'a list option result) \<Rightarrow> dns_client \<Rightarrow>
     (dns_client \<times> 'a list option result) option" where
  "process_item r name ns_type func c =
     (case query_loop r name ns_type c of
        None \<Rightarrow> None
      | Some (c', None) \<Rightarrow> Some (c', Inr None)
      | Some (c', Some message) \<Rightarrow>
          if \<not> ns_initparse r message then Some (c', Inr None)
          else Some (c', func message (ns_msg_count r message)))"

text \<open>The loop over the answers that every lookup has: \<open>item\<close> gives what the body appends, if it does
  not \<^verbatim>\<open>continue\<close>; the result is created with the first item.\<close>

fun records_loop :: "(nat \<Rightarrow> 'a option result) \<Rightarrow> nat list \<Rightarrow> 'a list option \<Rightarrow> 'a list option result" where
  "records_loop item [] retval = Inr retval"
| "records_loop item (idx # idxs) retval =
     (case item idx of
        Inl e \<Rightarrow> Inl e
      | Inr None \<Rightarrow> records_loop item idxs retval
      | Inr (Some x) \<Rightarrow>
          records_loop item idxs (Some ((case retval of None \<Rightarrow> [] | Some xs \<Rightarrow> xs) @ [x])))"

definition matching_rr :: "resolver \<Rightarrow> u8 list \<Rightarrow> nat \<Rightarrow> nat \<Rightarrow> ns_rr option" where
  "matching_rr r msg tgt_type idx =
     (case ns_parserr r msg idx of
        None \<Rightarrow> None
      | Some rr \<Rightarrow> if rr_class rr \<noteq> ns_c_in \<or> rr_type rr \<noteq> tgt_type then None else Some rr)"

record mx_srv =
  mx_address :: string
  mx_priority :: u16

definition mx_item :: "resolver \<Rightarrow> u8 list \<Rightarrow> nat \<Rightarrow> mx_srv option result" where
  "mx_item r msg idx =
     (case matching_rr r msg ns_t_mx idx of
        None \<Rightarrow> Inr None
      | Some rr \<Rightarrow>
          if rr_rdlen rr < NS_INT16SZ + 1 then Inr None
          else bind_result (read16 (ns_get16 r) msg (rr_rdata rr)) (\<lambda>priority.
            (case dn_expand r msg (rr_rdata rr + NS_INT16SZ) of
               None \<Rightarrow> Inr None
             | Some (expanded_length, item_name) \<Rightarrow>
                 Inr (Some \<lparr>mx_address = take expanded_length item_name, mx_priority = priority\<rparr>))))"

definition mx_name_client ::
    "resolver \<Rightarrow> string \<Rightarrow> dns_client \<Rightarrow> (dns_client \<times> mx_srv list option result) option" where
  "mx_name_client r name =
     process_item r name ns_t_mx (\<lambda>msg count. records_loop (mx_item r msg) [0..<count] None)"

text \<open>The loop over the character strings of a TXT record; \<open>None\<close> when \<^verbatim>\<open>valid\<close> has become false.\<close>

function txt_loop :: "u8 list \<Rightarrow> nat \<Rightarrow> nat \<Rightarrow> string \<Rightarrow> string option result" where
  "txt_loop msg p e item =
     (if p < e then
        (case read8 msg p of
           Inl x \<Rightarrow> Inl x
         | Inr text_len \<Rightarrow>
             (let next_p = p + 1 + unat text_len in
              if e < next_p then Inr None
              else (case read_bytes msg (p + 1) (unat text_len) of
                      Inl x \<Rightarrow> Inl x
                    | Inr bs \<Rightarrow> txt_loop msg next_p e (item @ map byte_char bs))))
      else Inr (Some item))"
  by pat_completeness auto
termination
  by (relation "measure (\<lambda>(msg, p, e, item). e - p)") auto

declare txt_loop.simps [simp del]

definition txt_item :: "resolver \<Rightarrow> u8 list \<Rightarrow> nat \<Rightarrow> string option result" where
  "txt_item r msg idx =
     (case matching_rr r msg ns_t_txt idx of
        None \<Rightarrow> Inr None
      | Some rr \<Rightarrow> txt_loop msg (rr_rdata rr) (rr_rdata rr + rr_rdlen rr) [])"

definition txt_name_client ::
    "resolver \<Rightarrow> string \<Rightarrow> dns_client \<Rightarrow> (dns_client \<times> string list option result) option" where
  "txt_name_client r name =
     process_item r name ns_t_txt (\<lambda>msg count. records_loop (txt_item r msg) [0..<count] None)"

definition cname_item :: "resolver \<Rightarrow> u8 list \<Rightarrow> nat \<Rightarrow> string option result" where
  "cname_item r msg idx =
     (case matching_rr r msg ns_t_cname idx of
        None \<Rightarrow> Inr None
      | Some rr \<Rightarrow>
          (case dn_expand r msg (rr_rdata rr) of
             None \<Rightarrow> Inr None
           | Some (len, item_name) \<Rightarrow> Inr (Some (take len item_name))))"

definition c_name_client ::
    "resolver \<Rightarrow> string \<Rightarrow> dns_client \<Rightarrow> (dns_client \<times> string list option result) option" where
  "c_name_client r name =
     process_item r name ns_t_cname (\<lambda>msg count. records_loop (cname_item r msg) [0..<count] None)"

record gen_srv =
  srv_address :: string
  srv_port :: u64
  srv_priority :: u16
  srv_weight :: u16

definition srv_item :: "resolver \<Rightarrow> u8 list \<Rightarrow> nat \<Rightarrow> gen_srv option result" where
  "srv_item r msg idx =
     (case matching_rr r msg ns_t_srv idx of
        None \<Rightarrow> Inr None
      | Some rr \<Rightarrow>
          if rr_rdlen rr \<le> 6 then Inr None
          else bind_result (read16 (ns_get16 r) msg (rr_rdata rr)) (\<lambda>priority.
            bind_result (read16 (ns_get16 r) msg (rr_rdata rr + 2)) (\<lambda>weight.
              bind_result (read16 (ns_get16 r) msg (rr_rdata rr + 4)) (\<lambda>port.
                (case dn_expand r msg (rr_rdata rr + 6) of
                   None \<Rightarrow> Inr None
                 | Some (len, item_name) \<Rightarrow>
                     Inr (Some \<lparr>srv_address = take len item_name, srv_port = ucast port,
                                srv_priority = priority, srv_weight = weight\<rparr>))))))"

definition srv_name_client ::
    "resolver \<Rightarrow> string \<Rightarrow> dns_client \<Rightarrow> (dns_client \<times> gen_srv list option result) option" where
  "srv_name_client r name =
     process_item r name ns_t_srv (\<lambda>msg count. records_loop (srv_item r msg) [0..<count] None)"

record gen_svcb =
  svcb_address :: string
  svcb_priority :: u16
  svcb_params :: "svcb_param list"

datatype SvcbType = Svcb | Https

definition svcb_type_code :: "SvcbType \<Rightarrow> nat" where
  "svcb_type_code t = (case t of Svcb \<Rightarrow> 64 | Https \<Rightarrow> 65)"

text \<open>A loop of \<^verbatim>\<open>resolve_params\<close> that did not end would be \<open>Undefined\<close> here.\<close>

definition svcb_item :: "resolver \<Rightarrow> u8 list \<Rightarrow> nat \<Rightarrow> nat \<Rightarrow> gen_svcb option result" where
  "svcb_item r msg tgt_type idx =
     (case matching_rr r msg tgt_type idx of
        None \<Rightarrow> Inr None
      | Some rr \<Rightarrow>
          if rr_rdlen rr < 2 then Inr None
          else bind_result (read16 (ns_get16 r) msg (rr_rdata rr)) (\<lambda>priority.
            (case dn_expand r msg (rr_rdata rr + 2) of
               None \<Rightarrow> Inr None
             | Some (buff_n, buffer) \<Rightarrow>
                 (let address = (if buffer = [] then ''.'' else take NS_MAXDNAME buffer) in
                  (case resolve_params (ns_get16 r) msg (rr_rdata rr + 2 + buff_n)
                          (rr_rdata rr + rr_rdlen rr) of
                     None \<Rightarrow> Inl Undefined
                   | Some (Inl e) \<Rightarrow> Inl e
                   | Some (Inr params) \<Rightarrow>
                       Inr (Some \<lparr>svcb_address = address, svcb_priority = priority,
                                  svcb_params = params\<rparr>))))))"

definition svcb_name_client ::
    "resolver \<Rightarrow> string \<Rightarrow> SvcbType \<Rightarrow> dns_client \<Rightarrow> (dns_client \<times> gen_svcb list option result) option" where
  "svcb_name_client r name ty =
     process_item r name (svcb_type_code ty)
       (\<lambda>msg count. records_loop (svcb_item r msg (svcb_type_code ty)) [0..<count] None)"

text \<open>The functions of the interface: the name is checked before the client is asked.\<close>

definition with_stack_name ::
    "string \<Rightarrow> (string \<Rightarrow> dns_client \<Rightarrow> (dns_client \<times> 'a result) option) \<Rightarrow> dns_client \<Rightarrow>
     (dns_client \<times> 'a result) option" where
  "with_stack_name name lookup c =
     (case stack_name name of Inl e \<Rightarrow> Some (c, Inl e) | Inr n \<Rightarrow> lookup n c)"

definition mx_name :: "resolver \<Rightarrow> string \<Rightarrow> dns_client \<Rightarrow> (dns_client \<times> mx_srv list option result) option" where
  "mx_name r name = with_stack_name name (mx_name_client r)"

definition txt_name :: "resolver \<Rightarrow> string \<Rightarrow> dns_client \<Rightarrow> (dns_client \<times> string list option result) option" where
  "txt_name r name = with_stack_name name (txt_name_client r)"

definition c_name :: "resolver \<Rightarrow> string \<Rightarrow> dns_client \<Rightarrow> (dns_client \<times> string list option result) option" where
  "c_name r name = with_stack_name name (c_name_client r)"

definition srv_name :: "resolver \<Rightarrow> string \<Rightarrow> dns_client \<Rightarrow> (dns_client \<times> gen_srv list option result) option" where
  "srv_name r name = with_stack_name name (srv_name_client r)"

definition svcb_name ::
    "resolver \<Rightarrow> string \<Rightarrow> SvcbType \<Rightarrow> dns_client \<Rightarrow> (dns_client \<times> gen_svcb list option result) option" where
  "svcb_name r name ty = with_stack_name name (\<lambda>n. svcb_name_client r n ty)"

subsection \<open>Printing\<close>

text \<open>The two loops over addresses of \<^verbatim>\<open>param_visitor\<close>; \<open>put\<close> writes one address.\<close>

fun print_ips_loop :: "('a \<Rightarrow> ostream \<Rightarrow> ostream) \<Rightarrow> 'a list \<Rightarrow> ostream \<Rightarrow> ostream" where
  "print_ips_loop put [] os = os"
| "print_ips_loop put (x # xs) os = print_ips_loop put xs (put x (os_put '','' os))"

fun print_ips :: "('a \<Rightarrow> ostream \<Rightarrow> ostream) \<Rightarrow> 'a list \<Rightarrow> ostream \<Rightarrow> ostream" where
  "print_ips put [] os = os"
| "print_ips put (x # xs) os = print_ips_loop put xs (put x os)"

fun param_visitor ::
    "(ip_addr \<Rightarrow> string option) \<Rightarrow> (ip_addr \<Rightarrow> string option) \<Rightarrow> svcb_param \<Rightarrow> ostream \<Rightarrow> ostream" where
  "param_visitor ntop4 ntop6 NoDefaultAlpn os = os_put ''NO_DEF_ALPN'' os"
| "param_visitor ntop4 ntop6 (Mandatory ks) os =
     os_put ''}'' (os_put (range_print (\<lambda>k. show_nat (unat k)) ks '','' '''') (os_put ''KEYS={'' os))"
| "param_visitor ntop4 ntop6 (DohPath doh) os =
     os_put [CHR 0x22] (os_put doh (os_put (''DOH='' @ [CHR 0x22]) os))"
| "param_visitor ntop4 ntop6 (Port p) os = os_put (show_nat (unat p)) (os_put ''PORT='' os)"
| "param_visitor ntop4 ntop6 (Alpns alpns) os =
     (let os1 = os_put ''ALPNS={'' os;
          os2 = (if alpns \<noteq> []
                 then os_put [CHR 0x22] (os_put (range_print (\<lambda>s. s) alpns [CHR 0x22, CHR '','', CHR 0x22] '''')
                        (os_put [CHR 0x22] os1))
                 else os1)
      in os_put ''}'' os2)"
| "param_visitor ntop4 ntop6 (Ipv4Hints ips) os =
     os_put ''}'' (print_ips (ip_to_stream ntop4 INET_ADDRSTRLEN) ips (os_put ''IPV4S={'' os))"
| "param_visitor ntop4 ntop6 (Ipv6Hints ips) os =
     os_put ''}'' (print_ips (ip_to_stream ntop6 INET6_ADDRSTRLEN) ips (os_put ''IPV6S={'' os))"

fun print_params_loop ::
    "(ip_addr \<Rightarrow> string option) \<Rightarrow> (ip_addr \<Rightarrow> string option) \<Rightarrow> svcb_param list \<Rightarrow> ostream \<Rightarrow> ostream" where
  "print_params_loop ntop4 ntop6 [] os = os"
| "print_params_loop ntop4 ntop6 (x # xs) os =
     print_params_loop ntop4 ntop6 xs (param_visitor ntop4 ntop6 x (os_put '' '' os))"

definition svcb_to_stream ::
    "(ip_addr \<Rightarrow> string option) \<Rightarrow> (ip_addr \<Rightarrow> string option) \<Rightarrow> gen_svcb \<Rightarrow> ostream \<Rightarrow> ostream" where
  "svcb_to_stream ntop4 ntop6 item os =
     (let os1 = os_put '' ['' (os_put (show_nat (unat (svcb_priority item)))
                  (os_put '' '' (os_put (svcb_address item) os)));
          os2 = (case svcb_params item of
                   [] \<Rightarrow> os1
                 | x # xs \<Rightarrow> print_params_loop ntop4 ntop6 xs (param_visitor ntop4 ntop6 x os1))
      in os_put '']'' os2)"

subsection \<open>Specification\<close>

text \<open>What the documentation of the resolver library says: answers are at most \<open>M\<close> bytes long, and a
  parsed record lies inside of its message.\<close>

definition answers_bounded :: "resolver \<Rightarrow> nat \<Rightarrow> bool" where
  "answers_bounded r M \<longleftrightarrow> (\<forall>k name ty size. fst (res_nquery r k name ty size) \<le> int M)"

definition rr_within :: "resolver \<Rightarrow> u8 list \<Rightarrow> bool" where
  "rr_within r msg \<longleftrightarrow>
     (\<forall>idx rr. ns_parserr r msg idx = Some rr \<longrightarrow> rr_rdata rr + rr_rdlen rr \<le> length msg)"

definition rdata_of :: "u8 list \<Rightarrow> ns_rr \<Rightarrow> u8 list" where
  "rdata_of msg rr = take (rr_rdlen rr) (drop (rr_rdata rr) msg)"

definition nonempty :: "'a list \<Rightarrow> 'a list option" where
  "nonempty xs = (if xs = [] then None else Some xs)"

text \<open>The records of the answer of a type, as the library parses them.\<close>

definition matching_rrs :: "resolver \<Rightarrow> u8 list \<Rightarrow> nat \<Rightarrow> nat \<Rightarrow> ns_rr list" where
  "matching_rrs r msg ty n = List.map_filter (matching_rr r msg ty) [0..<n]"

definition svcb_spec :: "resolver \<Rightarrow> u8 list \<Rightarrow> ns_rr \<Rightarrow> gen_svcb option" where
  "svcb_spec r msg rr =
     (if rr_rdlen rr < 2 then None
      else case dn_expand r msg (rr_rdata rr + 2) of
             None \<Rightarrow> None
           | Some (n, name) \<Rightarrow>
               Some \<lparr>svcb_address = (if name = [] then ''.'' else take NS_MAXDNAME name),
                     svcb_priority = ns_get16 r (rdata_of msg rr ! 0) (rdata_of msg rr ! 1),
                     svcb_params = concat (map (tlv_meaning (ns_get16 r))
                       (split_tlvs (ns_get16 r) (drop (2 + n) (rdata_of msg rr))))\<rparr>)"

text \<open>A resolver whose answers hold one record of a type, with the data at offset 2 and of 4 bytes.\<close>

definition demo_resolver :: "nat \<Rightarrow> resolver" where
  "demo_resolver ty =
     \<lparr>res_nquery = (\<lambda>_ _ _ size. (9, [0, 0, 0, 10, 0xC0, 0x0C, 3, 104, 105])),
      ns_initparse = (\<lambda>_. True), ns_msg_count = (\<lambda>_. 1),
      ns_parserr = (\<lambda>msg _. if 6 \<le> length msg
        then Some \<lparr>rr_class = 1, rr_type = ty, rr_rdata = 2, rr_rdlen = 4\<rparr> else None),
      ns_get16 = (\<lambda>a b. 256 * ucast a + ucast b),
      dn_expand = (\<lambda>_ _. Some (2, ''mail.example.org''))\<rparr>"

section \<open>Theorems\<close>

subsection \<open>Names\<close>

lemma ips_loop_eq:
  "ips_loop as retval =
     (case List.map_filter (\<lambda>a. if ai_family a = AF_INET then Some (AddrV4 (take 4 (ai_addr a)))
                          else if ai_family a = AF_INET6 then Some (AddrV6 (take 16 (ai_addr a)))
                          else None) as of
        [] \<Rightarrow> retval
      | xs \<Rightarrow> Some ((case retval of None \<Rightarrow> [] | Some ys \<Rightarrow> ys) @ xs))"
  by (induction as arbitrary: retval) (auto simp: List.map_filter_simps split: list.splits option.splits)

text \<open>\<^verbatim>\<open>ips_name\<close>: an empty name, a name of more than 255 bytes and an unknown class throw; a host
  that does not exist gives no value, any other failure of the lookup throws; otherwise the result
  holds the IPv4 and IPv6 addresses of the answer in their order, and no value if there are none.\<close>

theorem ips_name_correct:
  "ips_name gai name cls =
     (if name = [] then Inl (NstlException ''name_ cannot be nullptr'')
      else if 256 \<le> length name
      then Inl (NstlException ''Target stack is small (it should be fine: FQDN is 255 bytes maximum)'')
      else if cls = IpClassOther then Inl (NstlException ''Unknown IpClass type'')
      else let family = (case cls of Ipv4 \<Rightarrow> AF_INET | Ipv6 \<Rightarrow> AF_INET6 | _ \<Rightarrow> AF_UNSPEC);
               answer = gai (cstr name) \<lparr>hint_family = family, hint_flags = AI_ADDRCONFIG,
                                         hint_socktype = SOCK_STREAM\<rparr>
           in if fst answer = 0
              then Inr (nonempty (List.map_filter
                     (\<lambda>a. if ai_family a = AF_INET then Some (AddrV4 (take 4 (ai_addr a)))
                          else if ai_family a = AF_INET6 then Some (AddrV6 (take 16 (ai_addr a)))
                          else None) (snd answer)))
              else if fst answer = host_not_found then Inr None
              else Inl (NstlException ''Issues on resolving ''))"
  by (cases cls)
    (auto simp: ips_name_def stack_name_def ip_class_family_def throw_if_def ips_loop_eq nonempty_def Let_def
      split: prod.splits list.splits)

subsection \<open>Queries\<close>

lemma query_loop_returns:
  assumes "answers_bounded r M"
  shows "\<exists>c' out. query_loop r name ty c = Some (c', out) \<and> response_size c \<le> response_size c'"
proof (induction "M + 1 - response_size c" arbitrary: c rule: less_induct)
  case less
  obtain len bytes where q: "res_nquery r (calls c) name ty (response_size c) = (len, bytes)" by force
  have M: "len \<le> int M"
    using assms q unfolding answers_bounded_def by (metis fst_conv)
  show ?case
  proof (cases "len \<le> 0 \<or> nat len < response_size c")
    case True
    then show ?thesis
      by (subst query_loop.simps) (auto simp: q Let_def)
  next
    case False
    define c1 where "c1 = c\<lparr>calls := calls c + 1, response_size := nat len + 1\<rparr>"
    have step: "query_loop r name ty c = query_loop r name ty c1"
      using False by (subst query_loop.simps) (auto simp: q c1_def Let_def)
    have "M + 1 - response_size c1 < M + 1 - response_size c" "response_size c \<le> response_size c1"
      using False M by (auto simp: c1_def)
    with less.hyps [of c1] step show ?thesis by (metis le_trans)
  qed
qed

lemma process_item_returns:
  assumes "answers_bounded r M"
  shows "\<exists>c' out. process_item r name ty func c = Some (c', out)"
  using query_loop_returns [OF assms, of name ty c]
  by (auto simp: process_item_def split: option.splits)

lemma with_stack_name_returns:
  "(\<And>n. \<exists>c' out. lookup n c = Some (c', out)) \<Longrightarrow> \<exists>c' out. with_stack_name name lookup c = Some (c', out)"
  by (simp add: with_stack_name_def split: sum.splits)

lemma with_stack_name_bad:
  "name = [] \<or> 256 \<le> length name \<Longrightarrow> \<exists>e. with_stack_name name lookup c = Some (c, Inl (NstlException e))"
  by (auto simp: with_stack_name_def stack_name_def throw_if_def)


subsection \<open>Records\<close>

lemma map_filter_map_filter:
  "List.map_filter g (List.map_filter f xs) = List.map_filter (\<lambda>x. Option.bind (f x) g) xs"
  by (induction xs) (auto simp: List.map_filter_simps split: option.splits bind_splits)

lemma records_loop_eq:
  assumes "\<And>idx. idx \<in> set idxs \<Longrightarrow> item idx = Inr (g idx)"
  shows "records_loop item idxs retval =
    Inr (case List.map_filter g idxs of
           [] \<Rightarrow> retval
         | x # xs \<Rightarrow> Some ((case retval of None \<Rightarrow> [] | Some ys \<Rightarrow> ys) @ x # xs))"
  using assms
  by (induction idxs arbitrary: retval) (auto simp: List.map_filter_simps split: list.splits option.splits)

lemma records_loop_nonempty:
  assumes "\<And>idx. item idx = Inr (Option.bind (matching_rr r msg ty idx) f)"
  shows "records_loop item [0..<n] None = Inr (nonempty (List.map_filter f (matching_rrs r msg ty n)))"
  by (subst records_loop_eq [OF assms])
    (simp add: matching_rrs_def map_filter_map_filter nonempty_def split: list.splits)

lemma matching_rr_within:
  assumes "rr_within r msg" and "matching_rr r msg ty idx = Some rr"
  obtains pre post where "msg = pre @ rdata_of msg rr @ post" "length pre = rr_rdata rr"
    "length (rdata_of msg rr) = rr_rdlen rr"
proof -
  have le: "rr_rdata rr + rr_rdlen rr \<le> length msg"
    using assms by (auto simp: matching_rr_def rr_within_def split: option.splits if_splits)
  show ?thesis
  proof (rule that)
    show "msg = take (rr_rdata rr) msg @ rdata_of msg rr @ drop (rr_rdlen rr) (drop (rr_rdata rr) msg)"
      unfolding rdata_of_def append_take_drop_id ..
    show "length (take (rr_rdata rr) msg) = rr_rdata rr" using le by simp
    show "length (rdata_of msg rr) = rr_rdlen rr" using le by (simp add: rdata_of_def)
  qed
qed

lemma txt_loop_window:
  "txt_loop (pre @ bs @ post) (length pre) (length pre + length bs) item =
     Inr (map_option (\<lambda>ss. item @ concat ss) (alpn_split bs))"
proof (induction bs arbitrary: pre item rule: alpn_split.induct)
  case 1
  show ?case by (simp add: txt_loop.simps)
next
  case (2 l bs)
  have r8: "read8 (pre @ (l # bs) @ post) (length pre) = Inr l"
    using read8_window [of 0 "l # bs" pre post] by simp
  show ?case
  proof (cases "unat l \<le> length bs")
    case True
    define v where "v = take (unat l) bs"
    define pre' where "pre' = pre @ l # v"
    have split: "pre @ (l # bs) @ post = pre' @ drop (unat l) bs @ post"
      by (simp add: pre'_def v_def)
    have len: "length pre + 1 + unat l = length pre'"
        "length pre + length (l # bs) = length pre' + length (drop (unat l) bs)"
      using True by (simp_all add: pre'_def v_def)
    have rb: "read_bytes (pre @ (l # bs) @ post) (length pre + 1) (unat l) = Inr v"
      using read_bytes_window [of 1 "unat l" "l # bs" pre post] True by (simp add: v_def)
    have "txt_loop (pre @ (l # bs) @ post) (length pre) (length pre + length (l # bs)) item =
        txt_loop (pre @ (l # bs) @ post) (length pre + 1 + unat l) (length pre + length (l # bs))
          (item @ map byte_char v)"
      by (subst txt_loop.simps) (use True r8 rb in \<open>simp add: Let_def\<close>)
    also have "\<dots> = Inr (map_option (\<lambda>ss. (item @ map byte_char v) @ concat ss) (alpn_split (drop (unat l) bs)))"
      unfolding split len by (rule "2.IH" [OF True])
    finally show ?thesis using True by (simp add: v_def option.map_comp comp_def)
  next
    case False
    then show ?thesis by (subst txt_loop.simps) (use r8 in \<open>simp add: Let_def\<close>)
  qed
qed

text \<open>C26. The TXT lookup reads no byte outside of the message and gives, for every well-formed TXT record
  of the answer in its order, the concatenation of its character strings; records whose lengths do
  not add up are skipped, and there is no value if none is left.\<close>

theorem txt_records_correct:
  assumes "rr_within r msg"
  shows "records_loop (txt_item r msg) [0..<n] None =
    Inr (nonempty (List.map_filter (\<lambda>rr. map_option concat (alpn_split (rdata_of msg rr)))
      (matching_rrs r msg ns_t_txt n)))"
proof (rule records_loop_nonempty)
  fix idx
  show "txt_item r msg idx =
      Inr (Option.bind (matching_rr r msg ns_t_txt idx) (\<lambda>rr. map_option concat (alpn_split (rdata_of msg rr))))"
  proof (cases "matching_rr r msg ns_t_txt idx")
    case (Some rr)
    obtain pre post where msg: "msg = pre @ rdata_of msg rr @ post" "length pre = rr_rdata rr"
        "length (rdata_of msg rr) = rr_rdlen rr"
      using matching_rr_within [OF assms Some] .
    with Some txt_loop_window [of pre "rdata_of msg rr" post "[]"] show ?thesis
      by (simp add: txt_item_def)
  qed (simp add: txt_item_def)
qed

lemma resolve_params_rdata:
  assumes msg: "msg = pre @ bs @ post"
  shows "resolve_params get16 msg (length pre + k) (length pre + length bs) =
    Some (Inr (concat (map (tlv_meaning get16) (split_tlvs get16 (drop k bs)))))"
proof (cases "k \<le> length bs")
  case True
  have "msg = (pre @ take k bs) @ drop k bs @ post" using msg by simp
  with True resolve_loop_window [of get16 "pre @ take k bs" "drop k bs" post "[]"] show ?thesis
    by (simp add: resolve_params_def)
next
  case False
  then show ?thesis
    unfolding resolve_params_def by (subst resolve_loop.simps, subst split_tlvs.simps) simp
qed

text \<open>C13. The SVCB and HTTPS lookups read no byte outside of the message, always come to an end, and give
  for every usable record its priority, its target (a dot for the root) and the parameters that its
  wire format holds behind the target.\<close>

theorem svcb_records_correct:
  assumes "rr_within r msg"
  shows "records_loop (svcb_item r msg (svcb_type_code ty)) [0..<n] None =
    Inr (nonempty (List.map_filter (svcb_spec r msg) (matching_rrs r msg (svcb_type_code ty) n)))"
proof (rule records_loop_nonempty)
  fix idx
  show "svcb_item r msg (svcb_type_code ty) idx =
      Inr (Option.bind (matching_rr r msg (svcb_type_code ty) idx) (svcb_spec r msg))"
  proof (cases "matching_rr r msg (svcb_type_code ty) idx")
    case (Some rr)
    obtain pre post where msg: "msg = pre @ rdata_of msg rr @ post" "length pre = rr_rdata rr"
        "length (rdata_of msg rr) = rr_rdlen rr"
      using matching_rr_within [OF assms Some] .
    have r16: "read16 (ns_get16 r) msg (rr_rdata rr) =
        Inr (ns_get16 r (rdata_of msg rr ! 0) (rdata_of msg rr ! 1))" if "\<not> rr_rdlen rr < 2"
      using read16_window [of 0 "rdata_of msg rr" "ns_get16 r" pre post] msg that by simp
    have rp: "resolve_params (ns_get16 r) msg (rr_rdata rr + 2 + k) (rr_rdata rr + rr_rdlen rr) =
        Some (Inr (concat (map (tlv_meaning (ns_get16 r)) (split_tlvs (ns_get16 r) (drop (2 + k) (rdata_of msg rr))))))"
      for k
      using resolve_params_rdata [OF msg(1), of "ns_get16 r" "2 + k"] msg(2,3) by (simp add: add.assoc)
    show ?thesis
      using Some r16 rp by (auto simp: svcb_item_def svcb_spec_def Let_def split: option.splits)
  qed (simp add: svcb_item_def)
qed




theorem txt_records_witness:
  "records_loop (txt_item (demo_resolver 16) [0, 0, 3, 97, 98, 99]) [0..<1] None = Inr (Some [''abc''])"
proof -
  have "rr_within (demo_resolver 16) [0, 0, 3, 97, 98, 99]"
    by (simp add: rr_within_def demo_resolver_def)
  from txt_records_correct [OF this, of 1] show ?thesis
    by (simp add: matching_rrs_def matching_rr_def demo_resolver_def rdata_of_def nonempty_def
        List.map_filter_simps byte_char_def char_of_def bit_0)
qed

theorem svcb_records_witness:
  "records_loop (svcb_item (demo_resolver 65) [0, 0, 0, 1, 0xC0, 0x0C] (svcb_type_code Https)) [0..<1] None =
     Inr (Some [\<lparr>svcb_address = ''mail.example.org'', svcb_priority = 1, svcb_params = []\<rparr>])"
proof -
  have "rr_within (demo_resolver 65) [0, 0, 0, 1, 0xC0, 0x0C]"
    by (simp add: rr_within_def demo_resolver_def)
  from svcb_records_correct [OF this, of Https 1] show ?thesis
    by (simp add: matching_rrs_def matching_rr_def demo_resolver_def rdata_of_def nonempty_def
        List.map_filter_simps svcb_type_code_def svcb_spec_def split_tlvs.simps)
qed

end
