(* ===== verification/DnsWindows.thy ===== *)
theory DnsWindows
  imports DnsClient
begin

text \<open>
  The name lookups of \<^verbatim>\<open>nstl/dns_tools_w32.cpp\<close>, which take the records that the Windows DNS client has
  already parsed. The calls of the system are parameters: \<open>query\<close> for \<^verbatim>\<open>DnsQuery_UTF8\<close>, \<open>query_ex\<close> for
  \<^verbatim>\<open>DnsQueryEx\<close> and \<open>to_wide\<close> for \<^verbatim>\<open>MultiByteToWideChar\<close>. A record list is a list, a counted array is a
  list, a C string is its bytes; reading a member of a union that does not hold it is \<open>Undefined\<close>.
\<close>

section \<open>Definitions\<close>

subsection \<open>The structures of windns.h\<close>

datatype win_value =
  WMandatory "u16 list"
| WAlpn "u8 list list"
| WPort u16
| WDohPath string
| WIpv4Hints "u8 list list"
| WIpv6Hints "u8 list list"
| WOpaque "u8 list"

record win_param =
  wSvcParamKey :: u16
  wSvcValue :: win_value

record win_svcb =
  pszTargetName :: string
  wSvcPriority :: u16
  pSvcParams :: "win_param list"

datatype win_data =
  WinMX string u16
| WinTXT "string list"
| WinCNAME string
| WinSRV string u16 u16 u16
| WinSVCB win_svcb
| WinOther

record win_record =
  wType :: nat
  wData :: win_data

abbreviation (input) "DNS_TYPE_CNAME \<equiv> (5::nat)"
abbreviation (input) "DNS_TYPE_MX \<equiv> (15::nat)"
abbreviation (input) "DNS_TYPE_TEXT \<equiv> (16::nat)"
abbreviation (input) "DNS_TYPE_SRV \<equiv> (33::nat)"
abbreviation (input) "DNS_TYPE_SVCB \<equiv> (64::nat)"
abbreviation (input) "DNS_TYPE_HTTPS \<equiv> (65::nat)"

type_synonym dns_query = "string \<Rightarrow> nat \<Rightarrow> int \<times> win_record list"
type_synonym dns_query_ex = "u16 list \<Rightarrow> nat \<Rightarrow> int \<times> win_record list"
type_synonym multi_byte_to_wide = "string \<Rightarrow> int \<Rightarrow> int \<times> u16 list"

subsection \<open>Queries\<close>

text \<open>A null result is the empty list.\<close>

definition get_results_ex_wide :: "dns_query_ex \<Rightarrow> u16 list option \<Rightarrow> nat \<Rightarrow> win_record list result" where
  "get_results_ex_wide query_ex name ty =
     (case name of
        None \<Rightarrow> Inl (NstlException ''name_ cannot be nullptr'')
      | Some n \<Rightarrow> (case query_ex n ty of (status, res) \<Rightarrow> Inr (if status \<noteq> 0 then [] else res)))"

definition get_results_ex ::
    "multi_byte_to_wide \<Rightarrow> dns_query_ex \<Rightarrow> string \<Rightarrow> nat \<Rightarrow> win_record list result" where
  "get_results_ex to_wide query_ex name ty =
     throw_if (name = []) (NstlException ''empty / nullptr cannot be resolved'')
       (let size = fst (to_wide name 0) in
        throw_if (size \<le> 0) (NstlException '' cannot be converted to wchar_t'')
          (case to_wide name size of
             (written, wide) \<Rightarrow>
               throw_if (written \<le> 0) (NstlException '' cannot be converted to wchar_t'')
                 (get_results_ex_wide query_ex (Some (takeWhile (\<lambda>w. w \<noteq> 0) (take (nat written) wide))) ty)))"

definition get_results :: "dns_query \<Rightarrow> string \<Rightarrow> nat \<Rightarrow> win_record list result" where
  "get_results query name ty =
     bind_result (stack_name name) (\<lambda>n.
       (case query n ty of (status, res) \<Rightarrow> Inr (if status \<noteq> 0 then [] else res)))"

text \<open>The loop that every lookup has: records of another type are passed over, the result is created
  with the first item; \<open>item\<close> reads the data of a record.\<close>

fun win_loop ::
    "nat \<Rightarrow> (win_data \<Rightarrow> 'a result) \<Rightarrow> win_record list \<Rightarrow> 'a list option \<Rightarrow> 'a list option result" where
  "win_loop ty item [] retval = Inr retval"
| "win_loop ty item (r # rs) retval =
     (if wType r \<noteq> ty then win_loop ty item rs retval
      else bind_result (item (wData r)) (\<lambda>x.
        win_loop ty item rs (Some ((case retval of None \<Rightarrow> [] | Some xs \<Rightarrow> xs) @ [x]))))"

definition win_mx_item :: "win_data \<Rightarrow> mx_srv result" where
  "win_mx_item d =
     (case d of WinMX name pref \<Rightarrow> Inr \<lparr>mx_address = name, mx_priority = pref\<rparr> | _ \<Rightarrow> Inl Undefined)"

definition win_mx_name :: "dns_query \<Rightarrow> string \<Rightarrow> mx_srv list option result" where
  "win_mx_name query name =
     bind_result (get_results query name DNS_TYPE_MX) (\<lambda>rs. win_loop DNS_TYPE_MX win_mx_item rs None)"

fun win_txt_loop :: "string list \<Rightarrow> string \<Rightarrow> string" where
  "win_txt_loop [] target = target"
| "win_txt_loop (s # ss) target = win_txt_loop ss (target @ s)"

definition win_txt_item :: "win_data \<Rightarrow> string result" where
  "win_txt_item d = (case d of WinTXT ss \<Rightarrow> Inr (win_txt_loop ss []) | _ \<Rightarrow> Inl Undefined)"

definition win_txt_name :: "dns_query \<Rightarrow> string \<Rightarrow> string list option result" where
  "win_txt_name query name =
     bind_result (get_results query name DNS_TYPE_TEXT) (\<lambda>rs. win_loop DNS_TYPE_TEXT win_txt_item rs None)"

definition win_cname_item :: "win_data \<Rightarrow> string result" where
  "win_cname_item d = (case d of WinCNAME name \<Rightarrow> Inr name | _ \<Rightarrow> Inl Undefined)"

definition win_c_name :: "dns_query \<Rightarrow> string \<Rightarrow> string list option result" where
  "win_c_name query name =
     bind_result (get_results query name DNS_TYPE_CNAME) (\<lambda>rs. win_loop DNS_TYPE_CNAME win_cname_item rs None)"

definition win_srv_item :: "win_data \<Rightarrow> gen_srv result" where
  "win_srv_item d =
     (case d of
        WinSRV name port priority weight \<Rightarrow>
          Inr \<lparr>srv_address = name, srv_port = ucast port, srv_priority = priority, srv_weight = weight\<rparr>
      | _ \<Rightarrow> Inl Undefined)"

definition win_srv_name :: "dns_query \<Rightarrow> string \<Rightarrow> gen_srv list option result" where
  "win_srv_name query name =
     bind_result (get_results query name DNS_TYPE_SRV) (\<lambda>rs. win_loop DNS_TYPE_SRV win_srv_item rs None)"

subsection \<open>Service bindings\<close>

definition convert_param :: "win_param \<Rightarrow> svcb_param option result" where
  "convert_param p =
     (if wSvcParamKey p = 0 then
        (case wSvcValue p of WMandatory ks \<Rightarrow> Inr (Some (Mandatory ks)) | _ \<Rightarrow> Inl Undefined)
      else if wSvcParamKey p = 1 then
        (case wSvcValue p of WAlpn ids \<Rightarrow> Inr (Some (Alpns (map (map byte_char) ids))) | _ \<Rightarrow> Inl Undefined)
      else if wSvcParamKey p = 2 then Inr (Some NoDefaultAlpn)
      else if wSvcParamKey p = 3 then
        (case wSvcValue p of WPort port \<Rightarrow> Inr (Some (Port port)) | _ \<Rightarrow> Inl Undefined)
      else if wSvcParamKey p = 7 then
        (case wSvcValue p of WDohPath doh \<Rightarrow> Inr (Some (DohPath doh)) | _ \<Rightarrow> Inl Undefined)
      else if wSvcParamKey p = 4 then
        (case wSvcValue p of WIpv4Hints ips \<Rightarrow> Inr (Some (Ipv4Hints (map (take 4) ips))) | _ \<Rightarrow> Inl Undefined)
      else if wSvcParamKey p = 6 then
        (case wSvcValue p of WIpv6Hints ips \<Rightarrow> Inr (Some (Ipv6Hints (map (take 16) ips))) | _ \<Rightarrow> Inl Undefined)
      else Inr None)"

fun convert_params_loop :: "win_param list \<Rightarrow> svcb_param list \<Rightarrow> svcb_param list result" where
  "convert_params_loop [] params = Inr params"
| "convert_params_loop (p # ps) params =
     bind_result (convert_param p) (\<lambda>r.
       convert_params_loop ps (case r of None \<Rightarrow> params | Some x \<Rightarrow> params @ [x]))"

definition convert_data :: "win_svcb \<Rightarrow> gen_svcb result" where
  "convert_data d =
     bind_result (convert_params_loop (pSvcParams d) []) (\<lambda>params.
       Inr \<lparr>svcb_address = pszTargetName d, svcb_priority = wSvcPriority d, svcb_params = params\<rparr>)"

text \<open>\<open>None\<close> is a value of \<^verbatim>\<open>SvcbType\<close> other than its two enumerators.\<close>

definition get_type_id :: "SvcbType option \<Rightarrow> nat result" where
  "get_type_id ty =
     (case ty of
        Some Svcb \<Rightarrow> Inr DNS_TYPE_SVCB
      | Some Https \<Rightarrow> Inr DNS_TYPE_HTTPS
      | None \<Rightarrow> Inl (NstlException ''invalid svcb type''))"

definition win_svcb_item :: "win_data \<Rightarrow> gen_svcb result" where
  "win_svcb_item d = (case d of WinSVCB s \<Rightarrow> convert_data s | _ \<Rightarrow> Inl Undefined)"

definition win_svcb_name ::
    "multi_byte_to_wide \<Rightarrow> dns_query_ex \<Rightarrow> string \<Rightarrow> SvcbType option \<Rightarrow> gen_svcb list option result" where
  "win_svcb_name to_wide query_ex name ty =
     bind_result (get_type_id ty) (\<lambda>dns_type.
       bind_result (get_results_ex to_wide query_ex name dns_type) (\<lambda>rs.
         win_loop dns_type win_svcb_item rs None))"

subsection \<open>Specification\<close>

text \<open>How the Windows client hands out a parameter.\<close>

fun win_of_param :: "svcb_param \<Rightarrow> win_param" where
  "win_of_param NoDefaultAlpn = \<lparr>wSvcParamKey = 2, wSvcValue = WOpaque []\<rparr>"
| "win_of_param (Mandatory ks) = \<lparr>wSvcParamKey = 0, wSvcValue = WMandatory ks\<rparr>"
| "win_of_param (DohPath s) = \<lparr>wSvcParamKey = 7, wSvcValue = WDohPath s\<rparr>"
| "win_of_param (Port p) = \<lparr>wSvcParamKey = 3, wSvcValue = WPort p\<rparr>"
| "win_of_param (Alpns ss) = \<lparr>wSvcParamKey = 1, wSvcValue = WAlpn (map (map char_byte) ss)\<rparr>"
| "win_of_param (Ipv4Hints ips) = \<lparr>wSvcParamKey = 4, wSvcValue = WIpv4Hints ips\<rparr>"
| "win_of_param (Ipv6Hints ips) = \<lparr>wSvcParamKey = 6, wSvcValue = WIpv6Hints ips\<rparr>"

section \<open>Theorems\<close>

lemma convert_param_of: "wf_param p \<Longrightarrow> convert_param (win_of_param p) = Inr (Some p)"
  by (cases p) (auto simp: convert_param_def list_all_iff comp_def intro!: map_idI)

lemma convert_params_loop_of:
  "list_all wf_param ps \<Longrightarrow> convert_params_loop (map win_of_param ps) acc = Inr (acc @ ps)"
  by (induction ps arbitrary: acc) (simp_all add: convert_param_of)



lemma win_loop_correct:
  assumes "\<And>r. r \<in> set rs \<Longrightarrow> wType r = ty \<Longrightarrow> item (wData r) = Inr (f r)"
  shows "win_loop ty item rs retval =
    Inr (case map f (filter (\<lambda>r. wType r = ty) rs) of
           [] \<Rightarrow> retval
         | x # xs \<Rightarrow> Some ((case retval of None \<Rightarrow> [] | Some ys \<Rightarrow> ys) @ x # xs))"
  using assms by (induction rs arbitrary: retval) (auto split: list.splits option.splits)

lemma win_txt_loop_concat: "win_txt_loop ss t = t @ concat ss"
  by (induction ss arbitrary: t) simp_all

end
