(* ===== verification/CsvReader.thy ===== *)
theory CsvReader
  imports NstlPrelude StringTools "HOL-Library.RBT" "HOL-Library.List_Lexorder" "HOL-Library.Char_ord"
begin

text \<open>
  The CSV reader and writer of \<^verbatim>\<open>nstl/csv_dict_reader.cpp\<close>. Boost is a parameter: \<open>tok\<close> is the
  tokenizer with \<^verbatim>\<open>escaped_list_separator\<close>, which gives the fields of a line and the exception it ends
  with, if any; the records \<open>cm\<close> and \<open>vm\<close> hold the operations of \<^verbatim>\<open>flat_map\<close> for the columns and for
  the values. \<^verbatim>\<open>std::getline\<close> is modelled on the characters that are left in the stream and on its
  state being good.
\<close>

section \<open>Definitions\<close>

subsection \<open>Streams\<close>

record istream =
  in_rest :: string
  in_good :: bool

text \<open>\<^verbatim>\<open>std::getline\<close>: the new stream, the string it was given, and whether it succeeded. A stream that is
  not good leaves the string alone; the end of the input clears the good state.\<close>

definition getline :: "istream \<Rightarrow> string \<Rightarrow> istream \<times> string \<times> bool" where
  "getline s old =
     (if \<not> in_good s then (s, old, False)
      else case find_idx (CHR 0x0A) (in_rest s) of
             Some i \<Rightarrow> (s\<lparr>in_rest := drop (i + 1) (in_rest s)\<rparr>, take i (in_rest s), True)
           | None \<Rightarrow> (\<lparr>in_rest = [], in_good = False\<rparr>, in_rest s, in_rest s \<noteq> []))"

subsection \<open>Boost\<close>

record csv_separator =
  sep_escape :: char
  sep_c :: char
  sep_quote :: char

type_synonym tokenizer = "csv_separator \<Rightarrow> string \<Rightarrow> string list \<times> exn option"

record ('m, 'v) flat_map =
  fm_empty :: 'm
  fm_emplace :: "string \<Rightarrow> 'v \<Rightarrow> 'm \<Rightarrow> 'm \<times> bool"
  fm_find :: "'m \<Rightarrow> string \<Rightarrow> 'v option"
  fm_size :: "'m \<Rightarrow> nat"
  fm_items :: "'m \<Rightarrow> (string \<times> 'v) list"

subsection \<open>The reader\<close>

record csv_parse_config =
  parse_headers :: bool
  skip_empty_lines :: bool
  check_columns_size :: bool
  comment :: char
  escape :: char
  coma :: char
  quote :: char

definition csv_parse_config_default :: csv_parse_config where
  "csv_parse_config_default =
     \<lparr>parse_headers = True, skip_empty_lines = True, check_columns_size = True, comment = CHR ''#'',
      escape = CHR 0x5C, coma = CHR '','', quote = CHR 0x22\<rparr>"

definition config_sep :: "csv_parse_config \<Rightarrow> csv_separator" where
  "config_sep cfg = \<lparr>sep_escape = escape cfg, sep_c = coma cfg, sep_quote = quote cfg\<rparr>"

record 'm csv_dict_reader =
  r_config :: csv_parse_config
  r_sep :: csv_separator
  r_iss :: istream
  r_data :: string
  r_line :: "32 word"
  r_columns :: "'m option"
  r_values :: "string list option"

text \<open>The loop of \<^verbatim>\<open>parse_columns\<close> over the tokens; the tokenizer's exception comes after them.\<close>

fun columns_loop :: "('m, nat) flat_map \<Rightarrow> string list \<Rightarrow> nat \<Rightarrow> 'm \<Rightarrow> 'm result" where
  "columns_loop cm [] idx columns = Inr columns"
| "columns_loop cm (t # ts) idx columns =
     (case fm_emplace cm t idx columns of
        (columns', inserted) \<Rightarrow>
          throw_if (\<not> inserted) (NstlException '' column duplicated ('')
            (columns_loop cm ts (idx + 1) columns'))"

definition parse_columns ::
    "('m, nat) flat_map \<Rightarrow> tokenizer \<Rightarrow> istream \<Rightarrow> string \<Rightarrow> csv_separator \<Rightarrow> bool \<Rightarrow>
     istream \<times> string \<times> 'm option result" where
  "parse_columns cm tok iss data sep headers =
     (if \<not> headers then (iss, data, Inr None)
      else case getline iss data of
             (iss', data', ok) \<Rightarrow>
               if ok
               then (iss', data',
                     (case tok sep data' of
                        (ts, err) \<Rightarrow>
                          bind_result (columns_loop cm ts 0 (fm_empty cm))
                            (\<lambda>columns. case err of Some e \<Rightarrow> Inl e | None \<Rightarrow> Inr (Some columns))))
               else (iss', data', Inl (NstlException ''failed to read from istream'')))"

definition csv_dict_reader_new ::
    "('m, nat) flat_map \<Rightarrow> tokenizer \<Rightarrow> istream \<Rightarrow> csv_parse_config \<Rightarrow> 'm csv_dict_reader result" where
  "csv_dict_reader_new cm tok iss cfg =
     (case parse_columns cm tok iss [] (config_sep cfg) (parse_headers cfg) of
        (iss', data, r) \<Rightarrow>
          bind_result r (\<lambda>columns.
            Inr \<lparr>r_config = cfg, r_sep = config_sep cfg, r_iss = iss', r_data = data, r_line = 1,
                 r_columns = columns, r_values = None\<rparr>))"

definition skipped_line :: "csv_parse_config \<Rightarrow> string \<Rightarrow> bool" where
  "skipped_line cfg l =
     (if skip_empty_lines cfg \<and> l = [] then True
      else comment cfg \<noteq> CHR 0x00 \<and> l \<noteq> [] \<and> hd l = comment cfg)"

text \<open>\<^verbatim>\<open>next()\<close>: the state after it and what it returns or throws.\<close>

function csv_next ::
    "('m, nat) flat_map \<Rightarrow> tokenizer \<Rightarrow> 'm csv_dict_reader \<Rightarrow> 'm csv_dict_reader \<times> bool result" where
  "csv_next cm tok r =
     (case getline (r_iss r) (r_data r) of
        (iss', data', ok) \<Rightarrow>
          (let r1 = r\<lparr>r_iss := iss', r_data := data'\<rparr> in
           if \<not> ok then (r1\<lparr>r_values := None\<rparr>, Inr False)
           else if skipped_line (r_config r) data' then csv_next cm tok (r1\<lparr>r_line := r_line r + 1\<rparr>)
           else case tok (r_sep r) data' of
                  (ts, err) \<Rightarrow>
                    (let r2 = r1\<lparr>r_values := Some ts\<rparr> in
                     case err of
                       Some e \<Rightarrow> (r2, Inl e)
                     | None \<Rightarrow>
                         if r_columns r \<noteq> None \<and> check_columns_size (r_config r) \<and>
                            length ts \<noteq> fm_size cm (the (r_columns r))
                         then (r2, Inl (NstlException ''columns not in line with the number of fields (line: ''))
                         else (r2, Inr True))))"
  by pat_completeness auto
termination
  by (relation "measure (\<lambda>(cm, tok, r). length (in_rest (r_iss r)) + (if in_good (r_iss r) then 1 else 0))")
    (auto simp: getline_def find_idx_Some split: if_splits option.splits)

declare csv_next.simps [simp del]

definition csv_header :: "'m csv_dict_reader \<Rightarrow> 'm option" where
  "csv_header r = r_columns r"

definition csv_row :: "'m csv_dict_reader \<Rightarrow> string list option" where
  "csv_row r = r_values r"

definition get_field_of :: "('m, nat) flat_map \<Rightarrow> 'm csv_dict_reader \<Rightarrow> 'm \<Rightarrow> string \<Rightarrow> string option" where
  "get_field_of cm r columns col =
     (case r_values r of
        None \<Rightarrow> None
      | Some values \<Rightarrow>
          (case fm_find cm columns col of
             None \<Rightarrow> None
           | Some idx \<Rightarrow> if length values \<le> idx then None else Some (values ! idx)))"

definition get_field :: "('m, nat) flat_map \<Rightarrow> 'm csv_dict_reader \<Rightarrow> string \<Rightarrow> string option" where
  "get_field cm r col =
     (case r_columns r of None \<Rightarrow> None | Some columns \<Rightarrow> get_field_of cm r columns col)"

fun data_loop :: "('n, string) flat_map \<Rightarrow> string list \<Rightarrow> (string \<times> nat) list \<Rightarrow> 'n \<Rightarrow> 'n" where
  "data_loop vm values [] target = target"
| "data_loop vm values ((column, idx) # cols) target =
     (if idx < length values
      then data_loop vm values cols (fst (fm_emplace vm column (values ! idx) target))
      else data_loop vm values cols target)"

text \<open>\<^verbatim>\<open>get_data(target_)\<close>: the reader, the target and what is returned or thrown.\<close>

definition get_data_into ::
    "('m, nat) flat_map \<Rightarrow> ('n, string) flat_map \<Rightarrow> tokenizer \<Rightarrow> 'm csv_dict_reader \<Rightarrow> 'n \<Rightarrow>
     'm csv_dict_reader \<times> 'n \<times> bool result" where
  "get_data_into cm vm tok r target =
     (case r_columns r of
        None \<Rightarrow> (r, target, Inl (NstlException ''this API can be used only when headers parsed''))
      | Some columns \<Rightarrow>
          (case csv_next cm tok r of
             (r', Inl e) \<Rightarrow> (r', target, Inl e)
           | (r', Inr False) \<Rightarrow> (r', target, Inr False)
           | (r', Inr True) \<Rightarrow>
               (case r_values r' of
                  None \<Rightarrow> (r', target, Inl (NstlException ''This is a massive bug''))
                | Some values \<Rightarrow>
                    (r', data_loop vm values (fm_items cm columns) (fm_empty vm), Inr True))))"

definition get_data ::
    "('m, nat) flat_map \<Rightarrow> ('n, string) flat_map \<Rightarrow> tokenizer \<Rightarrow> 'm csv_dict_reader \<Rightarrow>
     'm csv_dict_reader \<times> 'n option result" where
  "get_data cm vm tok r =
     (case get_data_into cm vm tok r (fm_empty vm) of
        (r', target, res) \<Rightarrow> (r', bind_result res (\<lambda>b. Inr (if b then Some target else None))))"

subsection \<open>Lines\<close>

fun tokens_loop :: "(string \<Rightarrow> 's \<Rightarrow> 's) \<Rightarrow> string list \<Rightarrow> nat \<Rightarrow> 's \<Rightarrow> nat \<times> 's" where
  "tokens_loop f [] retval s = (retval, s)"
| "tokens_loop f (t # ts) retval s = tokens_loop f ts (retval + 1) (f t s)"

text \<open>\<^verbatim>\<open>parse_csv_line\<close>: the callback acts on a state of the caller; \<open>None\<close> is an empty functor.\<close>

definition parse_csv_line ::
    "tokenizer \<Rightarrow> string \<Rightarrow> (string \<Rightarrow> 's \<Rightarrow> 's) option \<Rightarrow> csv_separator \<Rightarrow> 's \<Rightarrow> 's \<times> nat result" where
  "parse_csv_line tok l result sep s =
     (case result of
        None \<Rightarrow> (s, Inl (NstlException ''Functor not set''))
      | Some f \<Rightarrow>
          (case tok sep l of
             (ts, err) \<Rightarrow>
               (case tokens_loop f ts 0 s of
                  (n, s') \<Rightarrow> (s', case err of Some e \<Rightarrow> Inl e | None \<Rightarrow> Inr n))))"

text \<open>\<^verbatim>\<open>special_chars.data()\<close> is read as a C string.\<close>

definition special_chars :: "csv_parse_config \<Rightarrow> string" where
  "special_chars cfg = takeWhile (\<lambda>ch. ch \<noteq> CHR 0x00) [escape cfg, coma cfg, quote cfg, CHR 0x0A, CHR 0x00]"

fun write_field_loop :: "csv_parse_config \<Rightarrow> string \<Rightarrow> ostream \<Rightarrow> ostream" where
  "write_field_loop cfg [] os = os"
| "write_field_loop cfg (ch # chs) os =
     (if ch = escape cfg \<or> ch = quote cfg
      then write_field_loop cfg chs (os_put [ch] (os_put [escape cfg] os))
      else if ch = CHR 0x0A
      then write_field_loop cfg chs (os_put ''n'' (os_put [escape cfg] os))
      else write_field_loop cfg chs (os_put [ch] os))"

definition write_field :: "string \<Rightarrow> csv_parse_config \<Rightarrow> ostream \<Rightarrow> ostream" where
  "write_field data cfg os =
     (if list_all (\<lambda>ch. ch \<notin> set (special_chars cfg)) data then os_put data os
      else os_put [quote cfg] (write_field_loop cfg data (os_put [quote cfg] os)))"

fun write_row_loop :: "string list \<Rightarrow> csv_parse_config \<Rightarrow> ostream \<Rightarrow> ostream" where
  "write_row_loop [] cfg os = os"
| "write_row_loop (x # xs) cfg os = write_row_loop xs cfg (write_field x cfg (os_put [coma cfg] os))"

definition write_row :: "string list \<Rightarrow> csv_parse_config \<Rightarrow> ostream \<Rightarrow> ostream" where
  "write_row row cfg os =
     (case row of [] \<Rightarrow> os | x # xs \<Rightarrow> write_row_loop xs cfg (write_field x cfg os))"

subsection \<open>Specification\<close>

text \<open>The documented grammar of \<^verbatim>\<open>boost::escaped_list_separator\<close>: fields end at a separator outside of
  quotes, quotes are dropped, and the escape character takes \<^verbatim>\<open>n\<close> for a newline and the quote, the
  separator and itself literally; an empty line has no fields.\<close>

fun csv_fields :: "csv_separator \<Rightarrow> string \<Rightarrow> bool \<Rightarrow> string \<Rightarrow> string list \<times> exn option" where
  "csv_fields sep [] in_quote cur = ([cur], None)"
| "csv_fields sep [x] in_quote cur =
     (if x = sep_escape sep then ([], Some (RuntimeError ''cannot end with escape''))
      else if x = sep_c sep then (if in_quote then ([cur @ [x]], None) else ([cur, []], None))
      else if x = sep_quote sep then ([cur], None)
      else ([cur @ [x]], None))"
| "csv_fields sep (x # y # ys) in_quote cur =
     (if x = sep_escape sep then
        (if y = CHR ''n'' then csv_fields sep ys in_quote (cur @ [CHR 0x0A])
         else if y \<in> {sep_quote sep, sep_c sep, sep_escape sep}
         then csv_fields sep ys in_quote (cur @ [y])
         else ([], Some (RuntimeError ''unknown escape sequence'')))
      else if x = sep_c sep then
        (if in_quote then csv_fields sep (y # ys) in_quote (cur @ [x])
         else case csv_fields sep (y # ys) False [] of (ts, err) \<Rightarrow> (cur # ts, err))
      else if x = sep_quote sep then csv_fields sep (y # ys) (\<not> in_quote) cur
      else csv_fields sep (y # ys) in_quote (cur @ [x]))"

definition csv_tokens :: tokenizer where
  "csv_tokens sep l = (if l = [] then ([], None) else csv_fields sep l False [])"

definition flat_map_ok :: "('m, 'v) flat_map \<Rightarrow> bool" where
  "flat_map_ok fm \<longleftrightarrow>
     (\<forall>k. fm_find fm (fm_empty fm) k = None) \<and> fm_size fm (fm_empty fm) = 0 \<and>
     (\<forall>k v m m' b. fm_emplace fm k v m = (m', b) \<longrightarrow>
        b = (fm_find fm m k = None) \<and>
        fm_find fm m' = (if b then (fm_find fm m)(k \<mapsto> v) else fm_find fm m) \<and>
        fm_size fm m' = (if b then fm_size fm m + 1 else fm_size fm m)) \<and>
     (\<forall>m. sorted (map fst (fm_items fm m)) \<and> distinct (map fst (fm_items fm m)) \<and>
        map_of (fm_items fm m) = fm_find fm m)"

text \<open>The lines that \<^verbatim>\<open>std::getline\<close> gives.\<close>

function lines_of :: "string \<Rightarrow> string list" where
  "lines_of s =
     (if s = [] then []
      else case find_idx (CHR 0x0A) s of
             None \<Rightarrow> [s]
           | Some i \<Rightarrow> take i s # lines_of (drop (i + 1) s))"
  by pat_completeness auto
termination
  by (relation "measure length") (auto simp: find_idx_Some)

declare lines_of.simps [simp del]

definition stream_lines :: "istream \<Rightarrow> string list" where
  "stream_lines s = (if in_good s then lines_of (in_rest s) else [])"

text \<open>What the writer puts for a field and for a row.\<close>

definition escaped_char :: "csv_parse_config \<Rightarrow> char \<Rightarrow> string" where
  "escaped_char cfg ch =
     (if ch = escape cfg \<or> ch = quote cfg then [escape cfg, ch]
      else if ch = CHR 0x0A then [escape cfg, CHR ''n''] else [ch])"

definition field_text :: "csv_parse_config \<Rightarrow> string \<Rightarrow> string" where
  "field_text cfg f =
     (if list_all (\<lambda>ch. ch \<notin> set (special_chars cfg)) f then f
      else quote cfg # concat (map (escaped_char cfg) f) @ [quote cfg])"

definition row_text :: "csv_parse_config \<Rightarrow> string list \<Rightarrow> string" where
  "row_text cfg row =
     (case row of [] \<Rightarrow> []
      | x # xs \<Rightarrow> field_text cfg x @ concat (map (\<lambda>f. coma cfg # field_text cfg f) xs))"

definition csv_config_ok :: "csv_parse_config \<Rightarrow> bool" where
  "csv_config_ok cfg \<longleftrightarrow>
     distinct [escape cfg, coma cfg, quote cfg, CHR 0x0A, CHR 0x00] \<and>
     escape cfg \<noteq> CHR ''n'' \<and> quote cfg \<noteq> CHR ''n''"

definition csv_file :: "csv_parse_config \<Rightarrow> string list list \<Rightarrow> ostream" where
  "csv_file cfg rows =
     fold (\<lambda>row os. os_put [CHR 0x0A] (write_row row cfg os)) rows \<lparr>os_text = [], os_fail = False\<rparr>"

fun csv_read ::
    "('m, nat) flat_map \<Rightarrow> tokenizer \<Rightarrow> nat \<Rightarrow> 'm csv_dict_reader \<Rightarrow> 'm csv_dict_reader \<times> string list list result" where
  "csv_read cm tok 0 r = (r, Inr [])"
| "csv_read cm tok (Suc n) r =
     (case csv_next cm tok r of
        (r', Inl e) \<Rightarrow> (r', Inl e)
      | (r', Inr False) \<Rightarrow> (r', Inr [])
      | (r', Inr True) \<Rightarrow>
          (case csv_read cm tok n r' of
             (r'', res) \<Rightarrow> (r'', bind_result res (\<lambda>rows. Inr (the (r_values r') # rows)))))"

text \<open>Red-black trees as an instance of the container.\<close>

definition rbt_map :: "((string, 'v) RBT.rbt, 'v) flat_map" where
  "rbt_map =
     \<lparr>fm_empty = RBT.empty,
      fm_emplace = (\<lambda>k v m. if RBT.lookup m k = None then (RBT.insert k v m, True) else (m, False)),
      fm_find = RBT.lookup, fm_size = (\<lambda>m. length (RBT.entries m)), fm_items = RBT.entries\<rparr>"

definition same_setup :: "'m csv_dict_reader \<Rightarrow> 'm csv_dict_reader \<Rightarrow> bool" where
  "same_setup r r' \<longleftrightarrow>
     r_config r' = r_config r \<and> r_sep r' = r_sep r \<and> r_columns r' = r_columns r"

definition fields_fit :: "('m, nat) flat_map \<Rightarrow> 'm csv_dict_reader \<Rightarrow> string list \<Rightarrow> bool" where
  "fields_fit cm r ts \<longleftrightarrow>
     (case r_columns r of
        None \<Rightarrow> True
      | Some columns \<Rightarrow> check_columns_size (r_config r) \<longrightarrow> length ts = fm_size cm columns)"

definition next_outcome ::
    "('m, nat) flat_map \<Rightarrow> tokenizer \<Rightarrow> 'm csv_dict_reader \<Rightarrow> 'm csv_dict_reader \<times> bool result \<Rightarrow> bool" where
  "next_outcome cm tok r res \<longleftrightarrow>
     (case res of (r', out) \<Rightarrow>
        same_setup r r' \<and>
        r_line r' = r_line r + of_nat (length (takeWhile (skipped_line (r_config r)) (stream_lines (r_iss r)))) \<and>
        (case dropWhile (skipped_line (r_config r)) (stream_lines (r_iss r)) of
           [] \<Rightarrow> out = Inr False \<and> r_values r' = None \<and> stream_lines (r_iss r') = []
         | l # ls \<Rightarrow>
             stream_lines (r_iss r') = ls \<and> r_values r' = Some (fst (tok (r_sep r) l)) \<and>
             out = (case snd (tok (r_sep r) l) of
                      Some e \<Rightarrow> Inl e
                    | None \<Rightarrow>
                        if fields_fit cm r (fst (tok (r_sep r) l)) then Inr True
                        else Inl (NstlException ''columns not in line with the number of fields (line: ''))))"

section \<open>Theorems\<close>

subsection \<open>Container\<close>

lemma dom_lookup_entries: "dom (RBT.lookup m) = fst ` set (RBT.entries m)"
  by (metis RBT.map_of_entries dom_map_of_conv_image_fst)

lemma finite_dom_lookup: "finite (dom (RBT.lookup m))"
  by (simp add: dom_lookup_entries)

lemma length_entries: "length (RBT.entries m) = card (dom (RBT.lookup m))"
  unfolding dom_lookup_entries using RBT.distinct_entries [of m]
  by (metis distinct_card length_map set_map)

lemma length_entries_insert:
  "RBT.lookup m k = None \<Longrightarrow> length (RBT.entries (RBT.insert k v m)) = length (RBT.entries m) + 1"
  by (simp add: length_entries finite_dom_lookup domIff)

lemma entries_empty: "RBT.entries RBT.empty = []"
  using length_entries [of RBT.empty] by simp

lemma rbt_map_ok: "flat_map_ok rbt_map"
  by (auto simp: flat_map_ok_def rbt_map_def entries_empty length_entries_insert RBT.map_of_entries
      RBT.distinct_entries RBT.sorted_entries split: if_splits)

subsection \<open>Lines\<close>

lemma lines_of_Nil [simp]: "lines_of [] = []"
  by (simp add: lines_of.simps)

lemma lines_of_append: "CHR 0x0A \<notin> set xs \<Longrightarrow> lines_of (xs @ CHR 0x0A # ys) = xs # lines_of ys"
  by (subst lines_of.simps) (simp add: find_idx_append)

lemma getline_lines:
  "case stream_lines s of
     [] \<Rightarrow> \<exists>s' d. getline s old = (s', d, False) \<and> stream_lines s' = []
   | l # ls \<Rightarrow> \<exists>s'. getline s old = (s', l, True) \<and> stream_lines s' = ls"
proof (cases "in_good s \<and> in_rest s \<noteq> []")
  case True
  then have "stream_lines s =
      (case find_idx (CHR 0x0A) (in_rest s) of
         None \<Rightarrow> [in_rest s]
       | Some i \<Rightarrow> take i (in_rest s) # lines_of (drop (i + 1) (in_rest s)))"
    by (simp add: stream_lines_def lines_of.simps [of "in_rest s"])
  with True show ?thesis
    by (cases "find_idx (CHR 0x0A) (in_rest s)") (auto simp: stream_lines_def getline_def simp del: find_idx_None)
next
  case False
  then show ?thesis by (auto simp: stream_lines_def getline_def)
qed

lemma getline_Nil:
  assumes "stream_lines s = []"
  obtains s' d where "getline s old = (s', d, False)" "stream_lines s' = []"
  using getline_lines [of s old] assms by auto

lemma getline_Cons:
  assumes "stream_lines s = l # ls"
  obtains s' where "getline s old = (s', l, True)" "stream_lines s' = ls"
  using getline_lines [of s old] assms by auto

subsection \<open>Reading\<close>

lemma csv_next_outcome: "next_outcome cm tok r (csv_next cm tok r)"
proof (induction "stream_lines (r_iss r)" arbitrary: r)
  case Nil
  obtain s' d where g: "getline (r_iss r) (r_data r) = (s', d, False)" "stream_lines s' = []"
    using getline_Nil [OF Nil [symmetric]] .
  then show ?case
    using Nil [symmetric] by (subst csv_next.simps) (simp add: next_outcome_def same_setup_def)
next
  case (Cons l ls)
  obtain s' where g: "getline (r_iss r) (r_data r) = (s', l, True)" "stream_lines s' = ls"
    using getline_Cons [OF Cons.hyps(2) [symmetric]] .
  show ?case
  proof (cases "skipped_line (r_config r) l")
    case True
    define r1 where "r1 = r\<lparr>r_iss := s', r_data := l, r_line := r_line r + 1\<rparr>"
    have step: "csv_next cm tok r = csv_next cm tok r1"
      using True g by (subst csv_next.simps) (simp add: r1_def)
    have IH: "next_outcome cm tok r1 (csv_next cm tok r1)"
      using g(2) by (intro Cons.hyps(1)) (simp add: r1_def)
    have eqs: "r_config r1 = r_config r" "r_sep r1 = r_sep r" "stream_lines (r_iss r1) = ls"
        "r_line r1 = r_line r + 1" "fields_fit cm r1 = fields_fit cm r" "same_setup r1 = same_setup r"
      using g(2) by (simp_all add: r1_def fields_fit_def same_setup_def fun_eq_iff split: option.splits)
    show ?thesis
      using IH [unfolded next_outcome_def eqs] True
      unfolding step next_outcome_def Cons.hyps(2) [symmetric] by (simp add: add.assoc)
  next
    case False
    obtain ts err where tok: "tok (r_sep r) l = (ts, err)" by force
    show ?thesis
      using False g Cons.hyps(2) [symmetric] tok
      by (subst csv_next.simps)
        (auto simp: next_outcome_def same_setup_def fields_fit_def Let_def split: option.splits)
  qed
qed

text \<open>C34. \<^verbatim>\<open>next()\<close> takes the first line that is neither skipped as empty nor as a comment, whatever the
  stream holds: it ends with no row and false when there is none; otherwise the fields of the line are
  the row, and it returns true, or throws what the tokenizer throws, or throws when their number
  differs from the number of columns while that is checked. The configuration and the columns stay,
  and the line counter moves by the number of the lines that were skipped.\<close>

theorem csv_next_correct:
  "case csv_next cm tok r of (r', out) \<Rightarrow>
     same_setup r r' \<and>
     r_line r' = r_line r + of_nat (length (takeWhile (skipped_line (r_config r)) (stream_lines (r_iss r)))) \<and>
     (case dropWhile (skipped_line (r_config r)) (stream_lines (r_iss r)) of
        [] \<Rightarrow> out = Inr False \<and> r_values r' = None \<and> stream_lines (r_iss r') = []
      | l # ls \<Rightarrow>
          stream_lines (r_iss r') = ls \<and> r_values r' = Some (fst (tok (r_sep r) l)) \<and>
          out = (case snd (tok (r_sep r) l) of
                   Some e \<Rightarrow> Inl e
                 | None \<Rightarrow>
                     if fields_fit cm r (fst (tok (r_sep r) l)) then Inr True
                     else Inl (NstlException ''columns not in line with the number of fields (line: '')))"
  using csv_next_outcome [of cm tok r] unfolding next_outcome_def .

subsection \<open>Columns and fields\<close>

lemma columns_loop_correct:
  assumes ok: "flat_map_ok cm"
  shows "if distinct ts \<and> (\<forall>t \<in> set ts. fm_find cm m t = None)
         then \<exists>m'. columns_loop cm ts idx m = Inr m' \<and> fm_size cm m' = fm_size cm m + length ts \<and>
                   fm_find cm m' = fm_find cm m ++ map_of (zip ts [idx..<idx + length ts])
         else columns_loop cm ts idx m = Inl (NstlException '' column duplicated ('')"
proof (induction ts arbitrary: idx m)
  case (Cons t ts)
  obtain m1 b where e: "fm_emplace cm t idx m = (m1, b)" by force
  have b: "b = (fm_find cm m t = None)"
      "fm_find cm m1 = (if b then (fm_find cm m)(t \<mapsto> idx) else fm_find cm m)"
      "fm_size cm m1 = (if b then fm_size cm m + 1 else fm_size cm m)"
    using ok e unfolding flat_map_ok_def by blast+
  show ?case
  proof (cases b)
    case False
    with b e show ?thesis by simp
  next
    case True
    have upt: "[idx..<idx + length (t # ts)] = idx # [idx + 1..<idx + 1 + length ts]"
      by (subst upt_conv_Cons) (simp_all del: upt_Suc)
    show ?thesis
    proof (cases "distinct (t # ts) \<and> (\<forall>u \<in> set (t # ts). fm_find cm m u = None)")
      case good: True
      then have "distinct ts \<and> (\<forall>u \<in> set ts. fm_find cm m1 u = None)" using True b by auto
      then obtain m' where m': "columns_loop cm ts (idx + 1) m1 = Inr m'"
          "fm_size cm m' = fm_size cm m1 + length ts"
          "fm_find cm m' = fm_find cm m1 ++ map_of (zip ts [idx + 1..<idx + 1 + length ts])"
        using Cons.IH [of m1 "idx + 1"] by auto
      have "t \<notin> dom (map_of (zip ts [idx + 1..<idx + 1 + length ts]))"
        using good by (auto simp: dom_map_of_zip)
      then have "fm_find cm m' = fm_find cm m ++ map_of (zip (t # ts) [idx..<idx + length (t # ts)])"
        unfolding upt using m'(3) True b by (simp add: map_add_upd_left)
      with m' True b e good show ?thesis by simp
    next
      case bad: False
      then have "\<not> (distinct ts \<and> (\<forall>u \<in> set ts. fm_find cm m1 u = None))"
        using True b by auto
      then have "columns_loop cm ts (idx + 1) m1 = Inl (NstlException '' column duplicated ('')"
        using Cons.IH [of m1 "idx + 1"] by presburger
      with True e bad show ?thesis by simp
    qed
  qed
qed simp

lemma csv_new_lines:
  assumes ok: "flat_map_ok cm" and hd: "parse_headers cfg" and ls: "stream_lines iss = l # ls"
    and tok: "tok (config_sep cfg) l = (ts, None)" and dist: "distinct ts"
  obtains r columns where "csv_dict_reader_new cm tok iss cfg = Inr r" "r_config r = cfg"
    "r_sep r = config_sep cfg" "r_columns r = Some columns" "r_values r = None"
    "stream_lines (r_iss r) = ls" "fm_size cm columns = length ts"
    "fm_find cm columns = map_of (zip ts [0..<length ts])"
proof -
  obtain s' where g: "getline iss [] = (s', l, True)" "stream_lines s' = ls"
    using getline_Cons [OF ls] .
  have e: "fm_find cm (fm_empty cm) = Map.empty" "fm_size cm (fm_empty cm) = 0"
    using ok by (auto simp: flat_map_ok_def)
  obtain m where "columns_loop cm ts 0 (fm_empty cm) = Inr m" "fm_size cm m = length ts"
      "fm_find cm m = map_of (zip ts [0..<length ts])"
    using columns_loop_correct [OF ok, of ts "fm_empty cm" 0] dist e by auto
  with g tok hd show ?thesis
    by (intro that) (auto simp: csv_dict_reader_new_def parse_columns_def)
qed

text \<open>The header: constructing the reader on a stream whose first line has the fields \<open>ts\<close> succeeds
  exactly when no column name occurs twice, and throws otherwise; then the column of a name is its
  position in the header, and \<^verbatim>\<open>get_field\<close> of the reader with a row gives the field at that position, or
  no value when the row is too short or the name is not a column.\<close>

theorem csv_header_correct:
  assumes ok: "flat_map_ok cm" and hd: "parse_headers cfg" and ls: "stream_lines iss = l # ls"
    and tok: "tok (config_sep cfg) l = (ts, None)"
  shows "if distinct ts
     then \<exists>r. csv_dict_reader_new cm tok iss cfg = Inr r \<and> stream_lines (r_iss r) = ls \<and>
            (\<forall>i < length ts. \<forall>vs. get_field cm (r\<lparr>r_values := Some vs\<rparr>) (ts ! i) =
               (if i < length vs then Some (vs ! i) else None)) \<and>
            (\<forall>vs col. col \<notin> set ts \<longrightarrow> get_field cm (r\<lparr>r_values := vs\<rparr>) col = None)
     else csv_dict_reader_new cm tok iss cfg = Inl (NstlException '' column duplicated ('')"
proof (cases "distinct ts")
  case True
  obtain r columns where r: "csv_dict_reader_new cm tok iss cfg = Inr r" "r_columns r = Some columns"
    "stream_lines (r_iss r) = ls" "fm_find cm columns = map_of (zip ts [0..<length ts])"
    using csv_new_lines [where tok = tok, OF ok hd ls tok True] by metis
  have idx: "map_of (zip ts [0..<length ts]) (ts ! i) = Some i" if "i < length ts" for i
    using True that by (simp add: map_of_zip_nth)
  have none: "map_of (zip ts [0..<length ts]) col = None" if "col \<notin> set ts" for col
    using that by (simp add: map_of_zip_is_None)
  have "get_field cm (r\<lparr>r_values := Some vs\<rparr>) (ts ! i) = (if i < length vs then Some (vs ! i) else None)"
    if "i < length ts" for i vs
    using r idx [OF that] by (simp add: get_field_def get_field_of_def)
  moreover have "get_field cm (r\<lparr>r_values := vs\<rparr>) col = None" if "col \<notin> set ts" for vs col
    using r by (cases vs) (simp_all add: get_field_def get_field_of_def none [OF that])
  ultimately show ?thesis using True r by auto
next
  case False
  obtain s' where g: "getline iss [] = (s', l, True)" "stream_lines s' = ls"
    using getline_Cons [OF ls] .
  have "columns_loop cm ts 0 (fm_empty cm) = Inl (NstlException '' column duplicated ('')"
    using columns_loop_correct [OF ok, of ts "fm_empty cm" 0] False by auto
  with False g tok hd show ?thesis
    by (simp add: csv_dict_reader_new_def parse_columns_def)
qed

theorem csv_header_witness:
  "\<exists>r. csv_dict_reader_new rbt_map csv_tokens \<lparr>in_rest = ''a,b'' @ [CHR 0x0A], in_good = True\<rparr> csv_parse_config_default =
         Inr r \<and> get_field rbt_map (r\<lparr>r_values := Some [''1'', ''2'']\<rparr>) ''b'' = Some ''2''"
proof -
  define iss where "iss = \<lparr>in_rest = ''a,b'' @ [CHR 0x0A], in_good = True\<rparr>"
  have "stream_lines iss = [''a,b'']"
    using lines_of_append [of "''a,b''" "[]"] by (simp add: stream_lines_def iss_def)
  moreover have "csv_tokens (config_sep csv_parse_config_default) ''a,b'' = ([''a'', ''b''], None)"
    by (simp add: csv_tokens_def config_sep_def csv_parse_config_default_def)
  moreover have "parse_headers csv_parse_config_default" by (simp add: csv_parse_config_default_def)
  ultimately obtain r where "csv_dict_reader_new rbt_map csv_tokens iss csv_parse_config_default = Inr r"
      "\<forall>i < length [''a'', ''b'']. \<forall>vs. get_field rbt_map (r\<lparr>r_values := Some vs\<rparr>) ([''a'', ''b''] ! i) =
         (if i < length vs then Some (vs ! i) else None)"
    using csv_header_correct [OF rbt_map_ok, of csv_parse_config_default iss "''a,b''" "[]" csv_tokens "[''a'', ''b'']"]
    by auto
  from this(1) this(2) [rule_format, of 1 "[''1'', ''2'']"] show ?thesis
    unfolding iss_def by auto
qed

subsection \<open>Writing\<close>

lemma os_put_put: "os_put b (os_put a os) = os_put (a @ b) os"
  by (simp add: os_put_def)

lemma os_put_Nil [simp]: "os_put [] os = os"
  by (simp add: os_put_def)

lemma write_field_loop_text:
  "write_field_loop cfg f os = os_put (concat (map (escaped_char cfg) f)) os"
  by (induction cfg f os rule: write_field_loop.induct) (simp_all add: escaped_char_def os_put_put)

lemma write_field_text: "write_field f cfg os = os_put (field_text cfg f) os"
  by (simp add: write_field_def field_text_def write_field_loop_text os_put_put)

lemma write_row_text: "write_row row cfg os = os_put (row_text cfg row) os"
proof -
  have "write_row_loop xs cfg os = os_put (concat (map (\<lambda>f. coma cfg # field_text cfg f) xs)) os" for xs os
    by (induction xs arbitrary: os) (simp_all add: write_field_text os_put_put)
  then show ?thesis
    by (cases row) (simp_all add: write_row_def row_text_def write_field_text os_put_put)
qed

lemma csv_file_text:
  "os_text (csv_file cfg rows) = concat (map (\<lambda>row. row_text cfg row @ [CHR 0x0A]) rows)"
proof -
  have "fold (\<lambda>row os. os_put [CHR 0x0A] (write_row row cfg os)) rows os =
      os_put (concat (map (\<lambda>row. row_text cfg row @ [CHR 0x0A]) rows)) os" for os
    by (induction rows arbitrary: os) (simp_all add: write_row_text os_put_put)
  then show ?thesis by (simp add: csv_file_def os_put_def)
qed

subsection \<open>Round trip\<close>

lemma csv_fields_plain:
  "x \<noteq> sep_escape sep \<Longrightarrow> x \<noteq> sep_c sep \<Longrightarrow> x \<noteq> sep_quote sep \<Longrightarrow>
   csv_fields sep (x # xs) b cur = csv_fields sep xs b (cur @ [x])"
  by (cases xs) simp_all

lemma csv_fields_quote:
  "sep_quote sep \<noteq> sep_escape sep \<Longrightarrow> sep_quote sep \<noteq> sep_c sep \<Longrightarrow>
   csv_fields sep (sep_quote sep # xs) b cur = csv_fields sep xs (\<not> b) cur"
  by (cases xs) simp_all

lemma csv_fields_sep:
  "sep_c sep \<noteq> sep_escape sep \<Longrightarrow>
   csv_fields sep (sep_c sep # xs) b cur =
     (if b then csv_fields sep xs True (cur @ [sep_c sep])
      else (cur # fst (csv_fields sep xs False []), snd (csv_fields sep xs False [])))"
  by (cases xs) (simp_all split: prod.splits)

lemma csv_config_okD:
  assumes "csv_config_ok cfg"
  shows "escape cfg \<noteq> coma cfg" "escape cfg \<noteq> quote cfg" "coma cfg \<noteq> quote cfg"
    "escape cfg \<noteq> CHR 0x0A" "coma cfg \<noteq> CHR 0x0A" "quote cfg \<noteq> CHR 0x0A"
    "escape cfg \<noteq> CHR ''n''" "quote cfg \<noteq> CHR ''n''"
    "set (special_chars cfg) = {escape cfg, coma cfg, quote cfg, CHR 0x0A}"
  using assms by (auto simp: csv_config_ok_def special_chars_def)

lemma csv_fields_escaped:
  assumes ok: "csv_config_ok cfg"
  shows "csv_fields (config_sep cfg) (escaped_char cfg ch @ rest) True cur =
    csv_fields (config_sep cfg) rest True (cur @ [ch])"
proof -
  note d = csv_config_okD [OF ok]
  consider "ch = escape cfg" | "ch = quote cfg" | "ch = CHR 0x0A" | "ch = coma cfg"
    | "ch \<notin> {escape cfg, quote cfg, CHR 0x0A, coma cfg}" by blast
  then show ?thesis
  proof cases
    case 4
    with d show ?thesis
      using csv_fields_sep [of "config_sep cfg" rest True cur] by (simp add: escaped_char_def config_sep_def)
  next
    case 5
    with d show ?thesis
      using csv_fields_plain [of ch "config_sep cfg" rest True cur] by (simp add: escaped_char_def config_sep_def)
  qed (use d in \<open>simp_all add: escaped_char_def config_sep_def\<close>)
qed

lemma csv_fields_field:
  assumes ok: "csv_config_ok cfg"
  shows "csv_fields (config_sep cfg) (field_text cfg f @ rest) False cur =
    csv_fields (config_sep cfg) rest False (cur @ f)"
proof -
  note d = csv_config_okD [OF ok]
  let ?sep = "config_sep cfg"
  have esc: "csv_fields ?sep (concat (map (escaped_char cfg) f) @ rest) True cur =
      csv_fields ?sep rest True (cur @ f)" for f rest cur
    by (induction f arbitrary: cur) (simp_all add: csv_fields_escaped [OF ok])
  have plain: "csv_fields ?sep (f @ rest) False cur = csv_fields ?sep rest False (cur @ f)"
    if "list_all (\<lambda>ch. ch \<notin> set (special_chars cfg)) f" for f rest cur
    using that
  proof (induction f arbitrary: cur)
    case (Cons ch f)
    then show ?case
      using csv_fields_plain [of ch ?sep "f @ rest" False cur] d(9) by (simp add: config_sep_def)
  qed simp
  have q: "csv_fields ?sep (quote cfg # xs) b cur = csv_fields ?sep xs (\<not> b) cur" for xs b cur
    using csv_fields_quote [of ?sep xs b cur] d by (simp add: config_sep_def)
  show ?thesis by (simp add: field_text_def plain esc q)
qed

lemma csv_tokens_row:
  assumes ok: "csv_config_ok cfg" and row: "row \<noteq> [[]]"
  shows "csv_tokens (config_sep cfg) (row_text cfg row) = (row, None)"
proof (cases row)
  case Nil
  then show ?thesis by (simp add: csv_tokens_def row_text_def)
next
  case (Cons x xs)
  note d = csv_config_okD [OF ok]
  have sep: "csv_fields (config_sep cfg) (coma cfg # ys) False cur =
      (cur # fst (csv_fields (config_sep cfg) ys False []), snd (csv_fields (config_sep cfg) ys False []))" for ys cur
    using csv_fields_sep [of "config_sep cfg" ys False cur] d by (simp add: config_sep_def)
  have tail: "csv_fields (config_sep cfg) (concat (map (\<lambda>f. coma cfg # field_text cfg f) xs)) False cur = (cur # xs, None)"
    for xs cur
    by (induction xs arbitrary: cur) (simp_all add: sep csv_fields_field [OF ok])
  have "row_text cfg row \<noteq> []"
    using Cons row by (cases xs) (auto simp: row_text_def field_text_def)
  moreover have "csv_fields (config_sep cfg) (row_text cfg row) False [] = (row, None)"
    using Cons by (simp add: row_text_def csv_fields_field [OF ok] tail)
  ultimately show ?thesis by (simp add: csv_tokens_def)
qed

lemma row_text_no_newline:
  assumes ok: "csv_config_ok cfg"
  shows "CHR 0x0A \<notin> set (row_text cfg row)"
proof -
  note d = csv_config_okD [OF ok]
  have f: "CHR 0x0A \<notin> set (field_text cfg f)" for f
    using d by (auto simp: field_text_def escaped_char_def list_all_iff split: if_splits)
  with d show ?thesis by (auto simp: row_text_def split: list.splits)
qed

lemma lines_of_csv_file:
  assumes ok: "csv_config_ok cfg"
  shows "lines_of (os_text (csv_file cfg rows)) = map (row_text cfg) rows"
  unfolding csv_file_text
  by (induction rows) (simp_all add: lines_of_append [OF row_text_no_newline [OF ok]])

text \<open>Writing and parsing a row are inverse, for every configuration whose escape, separator and quote
  characters are distinct and neither a newline nor a NUL, and where escape and quote are not the
  letter of the newline escape: a written row has no newline, and its fields are the fields of the
  row, empty ones, newlines and special characters included. The only exception is a row of one empty
  field, whose text is that of a row without fields.\<close>

theorem csv_row_roundtrip:
  assumes "csv_config_ok cfg" and "\<And>sep l. tok sep l = csv_tokens sep l" and "row \<noteq> [[]]"
  shows "let text = os_text (write_row row cfg \<lparr>os_text = [], os_fail = False\<rparr>)
    in CHR 0x0A \<notin> set text \<and> tok (config_sep cfg) text = (row, None)"
  using assms row_text_no_newline [OF assms(1)] csv_tokens_row [OF assms(1,3)]
  by (simp add: Let_def write_row_text os_put_def)

theorem csv_row_roundtrip_witness:
  "csv_tokens (config_sep csv_parse_config_default)
     (os_text (write_row [''a,b'', [CHR 0x0A, CHR 0x22], []] csv_parse_config_default \<lparr>os_text = [], os_fail = False\<rparr>)) =
   ([''a,b'', [CHR 0x0A, CHR 0x22], []], None)"
  using csv_row_roundtrip [of csv_parse_config_default csv_tokens "[''a,b'', [CHR 0x0A, CHR 0x22], []]"]
  by (simp add: csv_config_ok_def csv_parse_config_default_def Let_def)

lemma csv_read_rows:
  assumes ok: "csv_config_ok cfg" and r: "r_config r = cfg" "r_sep r = config_sep cfg" "r_columns r = Some columns"
    and lines: "stream_lines (r_iss r) = map (row_text cfg) rows"
    and rows: "\<And>row. row \<in> set rows \<Longrightarrow>
      row \<noteq> [[]] \<and> length row = fm_size cm columns \<and> \<not> skipped_line cfg (row_text cfg row)"
  shows "\<exists>r'. csv_read cm csv_tokens (length rows + 1) r = (r', Inr rows)"
  using r lines rows
proof (induction rows arbitrary: r)
  case Nil
  then show ?case
    using csv_next_outcome [of cm csv_tokens r]
    by (auto simp: next_outcome_def split: prod.splits)
next
  case (Cons row rows)
  have row: "row \<noteq> [[]]" "length row = fm_size cm columns" "\<not> skipped_line cfg (row_text cfg row)"
    using Cons.prems(5) [of row] by simp_all
  obtain r1 out where n: "csv_next cm csv_tokens r = (r1, out)" by force
  have "fields_fit cm r row" using row Cons.prems(3) by (simp add: fields_fit_def)
  then have r1: "out = Inr True" "r_values r1 = Some row" "same_setup r r1"
      "stream_lines (r_iss r1) = map (row_text cfg) rows"
    using csv_next_outcome [of cm csv_tokens r, unfolded n] row Cons.prems(1,2,4) csv_tokens_row [OF ok row(1)]
    by (simp_all add: next_outcome_def)
  obtain r' where "csv_read cm csv_tokens (length rows + 1) r1 = (r', Inr rows)"
    using Cons.IH [of r1] r1 Cons.prems by (auto simp: same_setup_def)
  with n r1 show ?case by simp
qed

text \<open>C7. Writing a table and reading it back: with the header and the rows written line by line, the
  reader finds the columns and then exactly the rows in their order, when the column names are
  distinct, the rows have as many fields as the header, and no row is written as a line that the
  reader skips as empty or as a comment.\<close>

theorem csv_file_roundtrip:
  assumes fm: "flat_map_ok cm" and tok: "\<And>sep l. tok sep l = csv_tokens sep l"
    and ok: "csv_config_ok cfg" "parse_headers cfg"
    and hd: "distinct header" "header \<noteq> [[]]"
    and rows: "\<And>row. row \<in> set rows \<Longrightarrow>
      row \<noteq> [[]] \<and> length row = length header \<and> \<not> skipped_line cfg (row_text cfg row)"
  shows "\<exists>r r'. csv_dict_reader_new cm tok \<lparr>in_rest = os_text (csv_file cfg (header # rows)), in_good = True\<rparr> cfg = Inr r \<and>
    csv_read cm tok (length rows + 1) r = (r', Inr rows)"
proof -
  have tok': "tok = csv_tokens" using tok by blast
  define iss where "iss = \<lparr>in_rest = os_text (csv_file cfg (header # rows)), in_good = True\<rparr>"
  have lines: "stream_lines iss = row_text cfg header # map (row_text cfg) rows"
    by (simp add: stream_lines_def iss_def lines_of_csv_file [OF ok(1)])
  obtain r columns where r: "csv_dict_reader_new cm csv_tokens iss cfg = Inr r" "r_config r = cfg"
    "r_sep r = config_sep cfg" "r_columns r = Some columns" "stream_lines (r_iss r) = map (row_text cfg) rows"
    "fm_size cm columns = length header"
    using csv_new_lines [where tok = csv_tokens, OF fm ok(2) lines csv_tokens_row [OF ok(1) hd(2)] hd(1)] by metis
  have "\<exists>r'. csv_read cm csv_tokens (length rows + 1) r = (r', Inr rows)"
    using r rows by (intro csv_read_rows [OF ok(1)]) auto
  with r(1) show ?thesis unfolding tok' iss_def by blast
qed

theorem csv_file_roundtrip_witness:
  "\<exists>r r'. csv_dict_reader_new rbt_map csv_tokens
       \<lparr>in_rest = os_text (csv_file csv_parse_config_default [[''name'', ''note''], [''x,y'', [CHR 0x22]], [[], ''z'']]),
        in_good = True\<rparr> csv_parse_config_default = Inr r \<and>
     csv_read rbt_map csv_tokens 3 r = (r', Inr [[''x,y'', [CHR 0x22]], [[], ''z'']])"
proof -
  define cfg where "cfg = csv_parse_config_default"
  define header where "header = [''name'', ''note'']"
  define rows where "rows = [[''x,y'', [CHR 0x22]], [[], ''z'']]"
  have rows: "row \<noteq> [[]] \<and> length row = length header \<and> \<not> skipped_line cfg (row_text cfg row)"
    if "row \<in> set rows" for row
    using that by (auto simp: cfg_def header_def rows_def skipped_line_def csv_parse_config_default_def
        row_text_def field_text_def special_chars_def)
  have ok: "csv_config_ok cfg" "parse_headers cfg" "distinct header" "header \<noteq> [[]]"
    by (simp_all add: cfg_def header_def csv_config_ok_def csv_parse_config_default_def)
  have len: "length rows + 1 = 3" by (simp add: rows_def)
  have "\<exists>r r'. csv_dict_reader_new rbt_map csv_tokens
      \<lparr>in_rest = os_text (csv_file cfg (header # rows)), in_good = True\<rparr> cfg = Inr r \<and>
      csv_read rbt_map csv_tokens (length rows + 1) r = (r', Inr rows)"
    using csv_file_roundtrip [where tok = csv_tokens and rows = rows, OF rbt_map_ok refl ok] rows by blast
  then show ?thesis unfolding len unfolding cfg_def header_def rows_def .
qed

text \<open>A row whose first field begins with the comment character is written as a line that the reader
  takes for a comment.\<close>

lemma comment_row_skipped:
  "skipped_line csv_parse_config_default (row_text csv_parse_config_default [''#1'', ''2''])"
  by (simp add: skipped_line_def csv_parse_config_default_def row_text_def field_text_def special_chars_def)

end
