(* ===== verification/DataHash.thy ===== *)
theory DataHash
  imports NstlPrelude StringTools SvcbParams
begin

text \<open>
  The hash functions of \<^verbatim>\<open>nstl/datahash.cpp\<close> and the three implementations of the class \<^verbatim>\<open>Hasher\<close>:
  \<^verbatim>\<open>datahashopenssl.cpp\<close>, \<^verbatim>\<open>datahashwin32.cpp\<close> and \<^verbatim>\<open>datahashmacos.cpp\<close>. A class derived from \<^verbatim>\<open>Hasher\<close> is
  the record of its virtual functions over its own state. The cryptographic libraries and the file
  system are parameters.
\<close>

section \<open>Definitions\<close>

subsection \<open>Types of hashes\<close>

text \<open>\<^verbatim>\<open>HashOther\<close> is any value cast to the enumeration that is none of its enumerators; \<^verbatim>\<open>Default\<close> is another
  name of \<^verbatim>\<open>SHA256\<close>.\<close>

datatype HashType = MD5 | SHA1 | SHA256 | SHA512 | HashOther

abbreviation (input) "HashDefault \<equiv> SHA256"

fun hash_type_size :: "HashType \<Rightarrow> nat" where
  "hash_type_size MD5 = 16"
| "hash_type_size SHA1 = 20"
| "hash_type_size SHA256 = 32"
| "hash_type_size SHA512 = 64"
| "hash_type_size HashOther = 0"

text \<open>The variant \<^verbatim>\<open>HashValue\<close>: the alternative and the bytes of its array.\<close>

type_synonym HashValue = "HashType \<times> u8 list"

definition get_hash_type :: "HashValue \<Rightarrow> HashType" where
  "get_hash_type hash = fst hash"

definition get_hash_type_span :: "u8 list \<Rightarrow> HashType option" where
  "get_hash_type_span hash =
     (if length hash = hash_type_size MD5 then Some MD5
      else if length hash = hash_type_size SHA1 then Some SHA1
      else if length hash = hash_type_size SHA256 then Some SHA256
      else if length hash = hash_type_size SHA512 then Some SHA512
      else None)"

definition parseHashType :: "string \<Rightarrow> HashType option result" where
  "parseHashType name =
     (if name = [] then Inr None
      else if name = ''MD5'' then Inr (Some MD5)
      else if name = ''SHA'' \<or> name = ''SHA1'' then Inr (Some SHA1)
      else if name = ''SHA256'' then Inr (Some SHA256)
      else if name = ''SHA512'' then Inr (Some SHA512)
      else if name = ''Default'' then Inr (Some HashDefault)
      else Inl (NstlException '' is unknown hash type''))"

subsection \<open>Text forms\<close>

definition hex_digits :: string where
  "hex_digits = ''0123456789ABCDEF''"

text \<open>The loop of \<^verbatim>\<open>hash_to_hex_visitor\<close>; the wide form only has other characters.\<close>

fun hex_loop :: "'c list \<Rightarrow> u8 list \<Rightarrow> 'c list \<Rightarrow> 'c list" where
  "hex_loop digits [] retval = retval"
| "hex_loop digits (b # bs) retval =
     hex_loop digits bs ((retval @ [digits ! unat (drop_bit 4 b)]) @ [digits ! unat (b AND 0x0F)])"

definition hash_to_hex :: "HashValue \<Rightarrow> string" where
  "hash_to_hex hash = hex_loop hex_digits (snd hash) []"

text \<open>\<open>to_b64\<close> is \<^verbatim>\<open>to_base64\<close> of a range.\<close>

definition hash_to_base64 :: "(u8 list \<Rightarrow> string) \<Rightarrow> HashValue \<Rightarrow> string" where
  "hash_to_base64 to_b64 hash = to_b64 (snd hash)"

subsection \<open>The class Hasher\<close>

record 's hasher_class =
  hc_factory :: "HashType \<Rightarrow> 's result"
  hc_reset :: "'s \<Rightarrow> 's result"
  hc_add :: "u8 list \<Rightarrow> 's \<Rightarrow> 's result"
  hc_finish :: "'s \<Rightarrow> HashValue result"

text \<open>\<^verbatim>\<open>add(const char*)\<close>: a null pointer and the empty string add nothing.\<close>

definition add_cstring :: "'s hasher_class \<Rightarrow> cstring \<Rightarrow> 's \<Rightarrow> 's result" where
  "add_cstring hc data s =
     (let size = nstl_strlen data in
      if 0 < size then hc_add hc (map char_byte (take size (the data))) s else Inr s)"

text \<open>The loop of \<^verbatim>\<open>hash_file_impl\<close>: \<open>rd k n\<close> is the result of the \<open>k\<close>-th call of \<^verbatim>\<open>read\<close> with a buffer of
  \<open>n\<close> bytes.\<close>

partial_function (option) read_loop ::
    "'s hasher_class \<Rightarrow> (nat \<Rightarrow> nat \<Rightarrow> int \<times> u8 list) \<Rightarrow> nat \<Rightarrow> nat \<Rightarrow> 's \<Rightarrow> 's result option" where
  "read_loop hc rd buffersize k s =
     (case rd k buffersize of
        (n_read, buffer) \<Rightarrow>
          if 0 < n_read
          then (case hc_add hc (take (nat n_read) buffer) s of
                  Inl e \<Rightarrow> Some (Inl e)
                | Inr s' \<Rightarrow> read_loop hc rd buffersize (k + 1) s')
          else if n_read < 0 then Some (Inl (NstlException ''Error while reading file: ''))
          else Some (Inr s))"

text \<open>\<open>open_ok\<close> tells whether \<^verbatim>\<open>open\<close> of the path succeeds.\<close>

definition hash_file_impl ::
    "'s hasher_class \<Rightarrow> (nat \<Rightarrow> nat \<Rightarrow> int \<times> u8 list) \<Rightarrow> string \<Rightarrow> bool \<Rightarrow> HashType \<Rightarrow> nat \<Rightarrow> HashValue result option" where
  "hash_file_impl hc rd path open_ok ty buffersize =
     (if path = [] then Some (Inl (NstlException ''filename is empty''))
      else if \<not> open_ok then Some (Inl (NstlException '' cannot be opened''))
      else case hc_factory hc ty of
             Inl e \<Rightarrow> Some (Inl e)
           | Inr s \<Rightarrow>
               map_option (\<lambda>r. bind_result r (hc_finish hc)) (read_loop hc rd buffersize 0 s))"

text \<open>\<^verbatim>\<open>static_cast<unsigned int>(buffer.size())\<close> keeps 32 bits of the size.\<close>

definition hash_file ::
    "'s hasher_class \<Rightarrow> (nat \<Rightarrow> nat \<Rightarrow> int \<times> u8 list) \<Rightarrow> string \<Rightarrow> bool \<Rightarrow> HashType \<Rightarrow> nat \<Rightarrow> HashValue result option" where
  "hash_file hc rd path open_ok ty buffersize =
     (if buffersize = 0 then Some (Inl (NstlException ''Buffer size must not be 0''))
      else hash_file_impl hc rd path open_ok ty (buffersize mod 2 ^ 32))"

definition hash_file_span ::
    "'s hasher_class \<Rightarrow> (nat \<Rightarrow> nat \<Rightarrow> int \<times> u8 list) \<Rightarrow> string \<Rightarrow> bool \<Rightarrow> nat \<Rightarrow> HashType \<Rightarrow> HashValue result option" where
  "hash_file_span hc rd path open_ok buffer_size ty =
     (if buffer_size = 0 then Some (Inl (NstlException ''Span is empty!''))
      else hash_file_impl hc rd path open_ok ty (buffer_size mod 2 ^ 32))"

subsection \<open>OpenSSL\<close>

text \<open>The library: contexts of type \<open>'c\<close>; \<open>None\<close> is a null context or a call that reports a failure.\<close>

record 'c evp_lib =
  EVP_MD_CTX_new :: "'c option"
  EVP_DigestInit_ex2 :: "HashType \<Rightarrow> 'c \<Rightarrow> 'c option"
  EVP_MD_CTX_reset :: "'c \<Rightarrow> 'c option"
  EVP_DigestUpdate :: "u8 list \<Rightarrow> 'c \<Rightarrow> 'c option"
  EVP_DigestFinal_ex :: "'c \<Rightarrow> u8 list option"

record 'c ossl_hasher =
  ossl_type :: HashType
  ossl_mdctx :: "'c option"

definition ossl_init :: "'c evp_lib \<Rightarrow> 'c ossl_hasher \<Rightarrow> 'c ossl_hasher result" where
  "ossl_init lib s =
     throw_if (ossl_type s = HashOther) (NstlException '' is invalid'')
       (case Option.bind (ossl_mdctx s) (EVP_DigestInit_ex2 lib (ossl_type s)) of
          None \<Rightarrow> Inl (NstlException ''EVP_DigestInit_ex2 failed'')
        | Some c \<Rightarrow> Inr (s\<lparr>ossl_mdctx := Some c\<rparr>))"

definition ossl_factory :: "'c evp_lib \<Rightarrow> HashType \<Rightarrow> 'c ossl_hasher result" where
  "ossl_factory lib ty = ossl_init lib \<lparr>ossl_type = ty, ossl_mdctx = EVP_MD_CTX_new lib\<rparr>"

definition ossl_reset :: "'c evp_lib \<Rightarrow> 'c ossl_hasher \<Rightarrow> 'c ossl_hasher result" where
  "ossl_reset lib s =
     (case ossl_mdctx s of
        None \<Rightarrow> Inl (NstlException ''Null context cannot be reset'')
      | Some c \<Rightarrow>
          (case EVP_MD_CTX_reset lib c of
             None \<Rightarrow> Inl (NstlException ''reset context failed'')
           | Some c' \<Rightarrow> ossl_init lib (s\<lparr>ossl_mdctx := Some c'\<rparr>)))"

definition ossl_add :: "'c evp_lib \<Rightarrow> u8 list \<Rightarrow> 'c ossl_hasher \<Rightarrow> 'c ossl_hasher result" where
  "ossl_add lib data s =
     (case Option.bind (ossl_mdctx s) (EVP_DigestUpdate lib data) of
        None \<Rightarrow> Inl (NstlException ''EVP_DigestUpdate failed'')
      | Some c \<Rightarrow> Inr (s\<lparr>ossl_mdctx := Some c\<rparr>))"

definition ossl_finish :: "'c evp_lib \<Rightarrow> 'c ossl_hasher \<Rightarrow> HashValue result" where
  "ossl_finish lib s =
     throw_if (ossl_type s = HashOther) (NstlException ''Unknown hash type'')
       (case Option.bind (ossl_mdctx s) (EVP_DigestFinal_ex lib) of
          None \<Rightarrow> Inl (NstlException ''EVP_DigestFinal_ex failed'')
        | Some v \<Rightarrow> Inr (ossl_type s, take (hash_type_size (ossl_type s)) v))"

definition ossl_class :: "'c evp_lib \<Rightarrow> 'c ossl_hasher hasher_class" where
  "ossl_class lib =
     \<lparr>hc_factory = ossl_factory lib, hc_reset = ossl_reset lib, hc_add = ossl_add lib,
      hc_finish = ossl_finish lib\<rparr>"

subsection \<open>Windows\<close>

text \<open>\<^verbatim>\<open>static_cast<DWORD>(size_)\<close> keeps 32 bits of the size of the data.\<close>

record 'c crypt_lib =
  CryptCreateHash :: "HashType \<Rightarrow> 'c option"
  CryptHashData :: "u8 list \<Rightarrow> 'c \<Rightarrow> 'c option"
  CryptGetHashParam :: "'c \<Rightarrow> u8 list option"

record 'c win_hasher =
  win_type :: HashType
  win_hHash :: "'c option"

definition translateAlgoId :: "HashType \<Rightarrow> HashType result" where
  "translateAlgoId ty = throw_if (ty = HashOther) (NstlException '' is invalid'') (Inr ty)"

definition win_clear :: "'c win_hasher \<Rightarrow> 'c win_hasher" where
  "win_clear s = s\<lparr>win_hHash := None\<rparr>"

definition win_create :: "'c crypt_lib \<Rightarrow> 'c win_hasher \<Rightarrow> 'c win_hasher result" where
  "win_create lib s =
     bind_result (translateAlgoId (win_type s)) (\<lambda>algoid.
       throw_if (win_hHash s \<noteq> None) (NstlException ''Reinit of _hHash'')
         (case CryptCreateHash lib algoid of
            None \<Rightarrow> Inl (NstlException ''CryptCreateHash failed: '')
          | Some c \<Rightarrow> Inr (s\<lparr>win_hHash := Some c\<rparr>)))"

definition win_factory :: "'c crypt_lib \<Rightarrow> HashType \<Rightarrow> 'c win_hasher result" where
  "win_factory lib ty = win_create lib \<lparr>win_type = ty, win_hHash = None\<rparr>"

definition win_reset :: "'c crypt_lib \<Rightarrow> 'c win_hasher \<Rightarrow> 'c win_hasher result" where
  "win_reset lib s = win_create lib (win_clear s)"

definition win_add :: "'c crypt_lib \<Rightarrow> u8 list \<Rightarrow> 'c win_hasher \<Rightarrow> 'c win_hasher result" where
  "win_add lib data s =
     (case Option.bind (win_hHash s) (CryptHashData lib (take (length data mod 2 ^ 32) data)) of
        None \<Rightarrow> Inl (NstlException ''CryptHashData failed: '')
      | Some c \<Rightarrow> Inr (s\<lparr>win_hHash := Some c\<rparr>))"

definition win_finish :: "'c crypt_lib \<Rightarrow> 'c win_hasher \<Rightarrow> HashValue result" where
  "win_finish lib s =
     throw_if (win_type s = HashOther) (NstlException ''Unknown hash type'')
       (case Option.bind (win_hHash s) (CryptGetHashParam lib) of
          None \<Rightarrow> Inl (NstlException ''CryptGetHashParam HP_HASHVAL failed: '')
        | Some v \<Rightarrow> Inr (win_type s, take (hash_type_size (win_type s)) v))"

definition win_class :: "'c crypt_lib \<Rightarrow> 'c win_hasher hasher_class" where
  "win_class lib =
     \<lparr>hc_factory = win_factory lib, hc_reset = win_reset lib, hc_add = win_add lib,
      hc_finish = win_finish lib\<rparr>"

subsection \<open>macOS\<close>

text \<open>The length argument of the \<^verbatim>\<open>CC_..._Update\<close> functions is a 32-bit \<^verbatim>\<open>CC_LONG\<close>. The four classes differ
  in the functions they call, here in the type of the hash.\<close>

record 'c cc_lib =
  CC_Init :: "HashType \<Rightarrow> 'c"
  CC_Update :: "HashType \<Rightarrow> u8 list \<Rightarrow> 'c \<Rightarrow> 'c"
  CC_Final :: "HashType \<Rightarrow> 'c \<Rightarrow> u8 list"

record 'c mac_hasher =
  mac_type :: HashType
  mac_ctx :: 'c

definition mac_factory :: "'c cc_lib \<Rightarrow> HashType \<Rightarrow> 'c mac_hasher result" where
  "mac_factory lib ty =
     throw_if (ty = HashOther) (NstlException ''Invalid hash type!'')
       (Inr \<lparr>mac_type = ty, mac_ctx = CC_Init lib ty\<rparr>)"

definition mac_reset :: "'c cc_lib \<Rightarrow> 'c mac_hasher \<Rightarrow> 'c mac_hasher result" where
  "mac_reset lib s = Inr (s\<lparr>mac_ctx := CC_Init lib (mac_type s)\<rparr>)"

definition mac_add :: "'c cc_lib \<Rightarrow> u8 list \<Rightarrow> 'c mac_hasher \<Rightarrow> 'c mac_hasher result" where
  "mac_add lib data s =
     Inr (s\<lparr>mac_ctx := CC_Update lib (mac_type s) (take (length data mod 2 ^ 32) data) (mac_ctx s)\<rparr>)"

definition mac_finish :: "'c cc_lib \<Rightarrow> 'c mac_hasher \<Rightarrow> HashValue result" where
  "mac_finish lib s = Inr (mac_type s, take (hash_type_size (mac_type s)) (CC_Final lib (mac_type s) (mac_ctx s)))"

definition mac_class :: "'c cc_lib \<Rightarrow> 'c mac_hasher hasher_class" where
  "mac_class lib =
     \<lparr>hc_factory = mac_factory lib, hc_reset = mac_reset lib, hc_add = mac_add lib,
      hc_finish = mac_finish lib\<rparr>"

subsection \<open>Specification\<close>

text \<open>What the libraries document: \<open>dig\<close> is the hash of a type over the bytes fed into a context since it
  was initialised, which \<open>fed\<close> tells.\<close>

definition digest_sizes :: "(HashType \<Rightarrow> u8 list \<Rightarrow> u8 list) \<Rightarrow> bool" where
  "digest_sizes dig \<longleftrightarrow> (\<forall>t x. length (dig t x) = hash_type_size t)"

definition evp_ok ::
    "'c evp_lib \<Rightarrow> (HashType \<Rightarrow> u8 list \<Rightarrow> u8 list) \<Rightarrow> ('c \<Rightarrow> (HashType \<times> u8 list) option) \<Rightarrow> bool" where
  "evp_ok lib dig fed \<longleftrightarrow> digest_sizes dig \<and>
     (\<forall>t c c'. EVP_DigestInit_ex2 lib t c = Some c' \<longrightarrow> fed c' = Some (t, [])) \<and>
     (\<forall>d c c' t x. EVP_DigestUpdate lib d c = Some c' \<longrightarrow> fed c = Some (t, x) \<longrightarrow> fed c' = Some (t, x @ d)) \<and>
     (\<forall>c v t x. EVP_DigestFinal_ex lib c = Some v \<longrightarrow> fed c = Some (t, x) \<longrightarrow> v = dig t x)"

definition crypt_ok ::
    "'c crypt_lib \<Rightarrow> (HashType \<Rightarrow> u8 list \<Rightarrow> u8 list) \<Rightarrow> ('c \<Rightarrow> (HashType \<times> u8 list) option) \<Rightarrow> bool" where
  "crypt_ok lib dig fed \<longleftrightarrow> digest_sizes dig \<and>
     (\<forall>t c. CryptCreateHash lib t = Some c \<longrightarrow> fed c = Some (t, [])) \<and>
     (\<forall>d c c' t x. CryptHashData lib d c = Some c' \<longrightarrow> fed c = Some (t, x) \<longrightarrow> fed c' = Some (t, x @ d)) \<and>
     (\<forall>c v t x. CryptGetHashParam lib c = Some v \<longrightarrow> fed c = Some (t, x) \<longrightarrow> v = dig t x)"

definition cc_ok ::
    "'c cc_lib \<Rightarrow> (HashType \<Rightarrow> u8 list \<Rightarrow> u8 list) \<Rightarrow> ('c \<Rightarrow> (HashType \<times> u8 list) option) \<Rightarrow> bool" where
  "cc_ok lib dig fed \<longleftrightarrow> digest_sizes dig \<and>
     (\<forall>t. fed (CC_Init lib t) = Some (t, [])) \<and>
     (\<forall>d c t x. fed c = Some (t, x) \<longrightarrow> fed (CC_Update lib t d c) = Some (t, x @ d)) \<and>
     (\<forall>c t x. fed c = Some (t, x) \<longrightarrow> CC_Final lib t c = dig t x)"

definition ossl_fed :: "('c \<Rightarrow> (HashType \<times> u8 list) option) \<Rightarrow> 'c ossl_hasher \<Rightarrow> (HashType \<times> u8 list) option" where
  "ossl_fed fed s =
     (case Option.bind (ossl_mdctx s) fed of
        Some (t, x) \<Rightarrow> if t = ossl_type s then Some (t, x) else None
      | None \<Rightarrow> None)"

definition win_fed :: "('c \<Rightarrow> (HashType \<times> u8 list) option) \<Rightarrow> 'c win_hasher \<Rightarrow> (HashType \<times> u8 list) option" where
  "win_fed fed s =
     (case Option.bind (win_hHash s) fed of
        Some (t, x) \<Rightarrow> if t = win_type s then Some (t, x) else None
      | None \<Rightarrow> None)"

definition mac_fed :: "('c \<Rightarrow> (HashType \<times> u8 list) option) \<Rightarrow> 'c mac_hasher \<Rightarrow> (HashType \<times> u8 list) option" where
  "mac_fed fed s =
     (case fed (mac_ctx s) of
        Some (t, x) \<Rightarrow> if t = mac_type s then Some (t, x) else None
      | None \<Rightarrow> None)"

text \<open>The calls of \<^verbatim>\<open>read\<close> on a file: some way to cut its contents into pieces that fit the buffer, and
  then the end of the file; with an empty buffer nothing is read.\<close>

definition file_reads :: "(nat \<Rightarrow> nat \<Rightarrow> int \<times> u8 list) \<Rightarrow> nat \<Rightarrow> u8 list list \<Rightarrow> bool" where
  "file_reads rd n cs \<longleftrightarrow>
     (\<forall>k < length cs. fst (rd k n) = int (length (cs ! k)) \<and> take (length (cs ! k)) (snd (rd k n)) = cs ! k \<and>
        cs ! k \<noteq> [] \<and> length (cs ! k) \<le> n) \<and>
     fst (rd (length cs) n) = 0"

fun unhex :: "string \<Rightarrow> u8 list" where
  "unhex (a # b # cs) =
     of_nat (16 * the (find_idx a hex_digits) + the (find_idx b hex_digits)) # unhex cs"
| "unhex _ = []"

text \<open>A library for examples: contexts that keep what they were fed, with a hash of the right size.\<close>

definition demo_digest :: "HashType \<Rightarrow> u8 list \<Rightarrow> u8 list" where
  "demo_digest t x = replicate (hash_type_size t) (of_nat (length x))"

definition demo_evp :: "(HashType \<times> u8 list) evp_lib" where
  "demo_evp =
     \<lparr>EVP_MD_CTX_new = Some (HashOther, []), EVP_DigestInit_ex2 = (\<lambda>t c. Some (t, [])),
      EVP_MD_CTX_reset = Some, EVP_DigestUpdate = (\<lambda>d c. Some (fst c, snd c @ d)),
      EVP_DigestFinal_ex = (\<lambda>c. Some (demo_digest (fst c) (snd c)))\<rparr>"

definition demo_crypt :: "(HashType \<times> u8 list) crypt_lib" where
  "demo_crypt =
     \<lparr>CryptCreateHash = (\<lambda>t. Some (t, [])), CryptHashData = (\<lambda>d c. Some (fst c, snd c @ d)),
      CryptGetHashParam = (\<lambda>c. Some (demo_digest (fst c) (snd c)))\<rparr>"

definition demo_cc :: "(HashType \<times> u8 list) cc_lib" where
  "demo_cc =
     \<lparr>CC_Init = (\<lambda>t. (t, [])), CC_Update = (\<lambda>t d c. (fst c, snd c @ d)),
      CC_Final = (\<lambda>t c. demo_digest (fst c) (snd c))\<rparr>"

definition demo_read :: "nat \<Rightarrow> nat \<Rightarrow> int \<times> u8 list" where
  "demo_read k n = (if n = 0 then (0, []) else if k = 0 then (2, [1, 2]) else if k = 1 then (1, [3]) else (0, []))"

text \<open>The contract of the class: \<open>valid\<close> says that the library behaves as documented, \<open>fits\<close> which data an
  implementation takes in whole.\<close>

locale hasher_contract =
  fixes hc :: "'s hasher_class" and valid :: bool and fed :: "'s \<Rightarrow> (HashType \<times> u8 list) option"
    and dig :: "HashType \<Rightarrow> u8 list \<Rightarrow> u8 list" and fits :: "u8 list \<Rightarrow> bool"
  assumes factory_fed: "\<lbrakk>valid; hc_factory hc t = Inr s\<rbrakk> \<Longrightarrow> fed s = Some (t, [])"
    and reset_fed: "\<lbrakk>valid; hc_reset hc s = Inr s'; fed s = Some (t, x)\<rbrakk> \<Longrightarrow> fed s' = Some (t, [])"
    and add_fed: "\<lbrakk>valid; hc_add hc d s = Inr s'; fed s = Some (t, x); fits d\<rbrakk> \<Longrightarrow> fed s' = Some (t, x @ d)"
    and finish_fed: "\<lbrakk>valid; hc_finish hc s = Inr v; fed s = Some (t, x)\<rbrakk> \<Longrightarrow> v = (t, dig t x)"
    and fits_small: "length d < 2 ^ 32 \<Longrightarrow> fits d"
begin

lemma read_loop_returns:
  assumes "file_reads rd n cs"
  shows "k \<le> length cs \<Longrightarrow> \<exists>r. read_loop hc rd n k s = Some r"
proof (induction "length cs - k" arbitrary: k s)
  case 0
  then have "fst (rd k n) = 0" using assms by (simp add: file_reads_def)
  then show ?case by (subst read_loop.simps) (auto split: prod.splits)
next
  case (Suc m)
  then have k: "k < length cs" "0 < fst (rd k n)" using assms by (auto simp: file_reads_def)
  obtain i b where rd: "rd k n = (i, b)" by force
  show ?case
  proof (cases "hc_add hc (take (nat i) b) s")
    case (Inl e)
    with k rd show ?thesis by (subst read_loop.simps) simp
  next
    case (Inr s1)
    have "\<exists>r. read_loop hc rd n (k + 1) s1 = Some r"
      using Suc.hyps k(1) by (intro Suc.hyps(1)) simp_all
    with Inr k rd show ?thesis by (subst read_loop.simps) simp
  qed
qed

lemma read_loop_fed:
  assumes rds: "file_reads rd n cs" and n: "n < 2 ^ 32" and valid
  shows "\<lbrakk>k \<le> length cs; read_loop hc rd n k s = Some (Inr s'); fed s = Some (t, x)\<rbrakk> \<Longrightarrow>
    fed s' = Some (t, x @ concat (drop k cs))"
proof (induction "length cs - k" arbitrary: k s x)
  case 0
  then have "fst (rd k n) = 0" using rds by (simp add: file_reads_def)
  then have "s' = s" using 0 by (subst (asm) read_loop.simps) (auto split: prod.splits)
  with 0 show ?case by simp
next
  case (Suc m)
  then have k: "k < length cs" by simp
  obtain i b where rd: "rd k n = (i, b)" by force
  have i: "0 < i" "take (nat i) b = cs ! k" "length (cs ! k) < 2 ^ 32"
    using rds k rd n by (auto simp: file_reads_def)
  obtain s1 where s1: "hc_add hc (cs ! k) s = Inr s1" "read_loop hc rd n (k + 1) s1 = Some (Inr s')"
    using Suc.prems(2) i rd by (subst (asm) read_loop.simps) (auto split: sum.splits)
  have "fed s1 = Some (t, x @ cs ! k)"
    using add_fed [OF \<open>valid\<close> s1(1) Suc.prems(3)] i(3) fits_small by blast
  then have "fed s' = Some (t, (x @ cs ! k) @ concat (drop (k + 1) cs))"
    using Suc.hyps k s1(2) by (intro Suc.hyps(1)) simp_all
  then show ?case using k by (simp add: Cons_nth_drop_Suc [symmetric])
qed

lemma hash_file_impl_correct:
  assumes "file_reads rd n cs" and "n < 2 ^ 32" and valid
  shows "\<exists>r. hash_file_impl hc rd path open_ok ty n = Some r \<and>
    (\<forall>v. r = Inr v \<longrightarrow> v = (ty, dig ty (concat cs)))"
proof (cases "path = [] \<or> \<not> open_ok \<or> (\<exists>e. hc_factory hc ty = Inl e)")
  case True
  then show ?thesis by (auto simp: hash_file_impl_def)
next
  case False
  then obtain s where s: "hc_factory hc ty = Inr s" by (cases "hc_factory hc ty") auto
  obtain r where r: "read_loop hc rd n 0 s = Some r" using read_loop_returns [OF assms(1)] by blast
  show ?thesis
  proof (cases r)
    case (Inl e)
    with False s r show ?thesis by (simp add: hash_file_impl_def)
  next
    case (Inr s')
    have "fed s' = Some (ty, concat cs)"
      using read_loop_fed [OF assms, of 0 s s' ty "[]"] r Inr factory_fed [OF assms(3) s] by simp
    then have "\<And>v. hc_finish hc s' = Inr v \<Longrightarrow> v = (ty, dig ty (concat cs))"
      using finish_fed [OF assms(3)] by blast
    with False s r Inr show ?thesis by (auto simp: hash_file_impl_def)
  qed
qed

end

section \<open>Theorems\<close>

subsection \<open>Three implementations\<close>

interpretation ossl: hasher_contract "ossl_class lib" "evp_ok lib dig fed" "ossl_fed fed" dig "\<lambda>d. True"
  for lib :: "'c evp_lib" and dig fed
proof unfold_locales
  have init: "ossl_fed fed s' = Some (ossl_type s, []) \<and> ossl_type s' = ossl_type s"
    if "evp_ok lib dig fed" "ossl_init lib s = Inr s'" for s s'
    using that by (auto simp: evp_ok_def ossl_init_def ossl_fed_def throw_if_Inr split: option.splits bind_splits)
  fix t x d and s s' :: "'c ossl_hasher" and v
  show "\<lbrakk>evp_ok lib dig fed; hc_factory (ossl_class lib) t = Inr s\<rbrakk> \<Longrightarrow> ossl_fed fed s = Some (t, [])"
    using init [of "\<lparr>ossl_type = t, ossl_mdctx = EVP_MD_CTX_new lib\<rparr>" s]
    by (simp add: ossl_class_def ossl_factory_def)
  show "\<lbrakk>evp_ok lib dig fed; hc_reset (ossl_class lib) s = Inr s'; ossl_fed fed s = Some (t, x)\<rbrakk> \<Longrightarrow>
      ossl_fed fed s' = Some (t, [])"
    by (auto simp: ossl_class_def ossl_reset_def ossl_fed_def split: option.splits if_splits dest!: init)
  show "\<lbrakk>evp_ok lib dig fed; hc_add (ossl_class lib) d s = Inr s'; ossl_fed fed s = Some (t, x); True\<rbrakk> \<Longrightarrow>
      ossl_fed fed s' = Some (t, x @ d)"
    by (auto simp: evp_ok_def ossl_class_def ossl_add_def ossl_fed_def split: option.splits if_splits bind_splits)
  show "\<lbrakk>evp_ok lib dig fed; hc_finish (ossl_class lib) s = Inr v; ossl_fed fed s = Some (t, x)\<rbrakk> \<Longrightarrow>
      v = (t, dig t x)"
    by (auto simp: evp_ok_def digest_sizes_def ossl_class_def ossl_finish_def ossl_fed_def throw_if_Inr
        split: option.splits if_splits bind_splits) (metis order_refl)
qed simp

interpretation win: hasher_contract "win_class lib" "crypt_ok lib dig fed" "win_fed fed" dig "\<lambda>d. length d < 2 ^ 32"
  for lib :: "'c crypt_lib" and dig fed
proof unfold_locales
  have create: "win_fed fed s' = Some (win_type s, [])"
    if "crypt_ok lib dig fed" "win_create lib s = Inr s'" for s s'
    using that by (auto simp: crypt_ok_def win_create_def translateAlgoId_def win_fed_def throw_if_Inr bind_result_Inr
        split: option.splits)
  fix t x d and s s' :: "'c win_hasher" and v
  show "\<lbrakk>crypt_ok lib dig fed; hc_factory (win_class lib) t = Inr s\<rbrakk> \<Longrightarrow> win_fed fed s = Some (t, [])"
    using create [of "\<lparr>win_type = t, win_hHash = None\<rparr>" s] by (simp add: win_class_def win_factory_def)
  show "\<lbrakk>crypt_ok lib dig fed; hc_reset (win_class lib) s = Inr s'; win_fed fed s = Some (t, x)\<rbrakk> \<Longrightarrow>
      win_fed fed s' = Some (t, [])"
    using create [of "win_clear s" s']
    by (auto simp: win_class_def win_reset_def win_clear_def win_fed_def split: option.splits if_splits)
  show "\<lbrakk>crypt_ok lib dig fed; hc_add (win_class lib) d s = Inr s'; win_fed fed s = Some (t, x); length d < 2 ^ 32\<rbrakk> \<Longrightarrow>
      win_fed fed s' = Some (t, x @ d)"
    by (auto simp: crypt_ok_def win_class_def win_add_def win_fed_def split: option.splits if_splits bind_splits)
  show "\<lbrakk>crypt_ok lib dig fed; hc_finish (win_class lib) s = Inr v; win_fed fed s = Some (t, x)\<rbrakk> \<Longrightarrow>
      v = (t, dig t x)"
    by (auto simp: crypt_ok_def digest_sizes_def win_class_def win_finish_def win_fed_def throw_if_Inr
        split: option.splits if_splits bind_splits) (metis order_refl)
qed simp

interpretation mac: hasher_contract "mac_class lib" "cc_ok lib dig fed" "mac_fed fed" dig "\<lambda>d. length d < 2 ^ 32"
  for lib :: "'c cc_lib" and dig fed
  by unfold_locales
    (auto simp: cc_ok_def digest_sizes_def mac_class_def mac_factory_def mac_reset_def mac_add_def mac_finish_def
      mac_fed_def throw_if_Inr split: option.splits if_splits)

subsection \<open>Files\<close>


text \<open>A buffer size that is a positive multiple of \<open>2 ^ 32\<close> becomes zero in the cast to
  \<^verbatim>\<open>unsigned int\<close>: nothing is read, and the hash returned is that of the empty input, whatever the file
  contains.\<close>

theorem hash_file_wraps:
  assumes "\<And>k. fst (rd k 0) = 0" and "evp_ok lib dig fed" and "0 < m"
  shows "\<exists>r. hash_file (ossl_class lib) rd path open_ok ty (m * 2 ^ 32) = Some r \<and>
    (\<forall>v. r = Inr v \<longrightarrow> v = (ty, dig ty []))"
proof -
  have "file_reads rd 0 []" using assms(1) by (simp add: file_reads_def)
  from ossl.hash_file_impl_correct [OF this _ assms(2), of path open_ok ty] assms(3) show ?thesis
    by (simp add: hash_file_def)
qed

subsection \<open>Hexadecimal text\<close>

lemma hex_loop_append: "hex_loop digits bs retval = retval @ hex_loop digits bs []"
proof (induction bs arbitrary: retval)
  case (Cons b bs)
  show ?case
    using Cons.IH [of "retval @ [digits ! unat (drop_bit 4 b), digits ! unat (b AND 15)]"]
      Cons.IH [of "[digits ! unat (drop_bit 4 b), digits ! unat (b AND 15)]"] by simp
qed simp

lemma hex_loop_Cons:
  "hex_loop digits (b # bs) [] = digits ! unat (drop_bit 4 b) # digits ! unat (b AND 15) # hex_loop digits bs []"
  using hex_loop_append [of digits bs "[digits ! unat (drop_bit 4 b), digits ! unat (b AND 15)]"] by simp

lemma nibbles:
  fixes b :: u8
  shows "unat (drop_bit 4 b) < 16" "unat (b AND 15) < 16"
    "of_nat (16 * unat (drop_bit 4 b) + unat (b AND 15)) = b"
proof -
  have b: "unat b < 256" using unsigned_less [of b, where ?'a = nat] by simp
  have hi: "unat (drop_bit 4 b) = unat b div 16" by (simp add: drop_bit_eq_div unat_div)
  have "b AND 15 = take_bit 4 b" by (simp add: take_bit_eq_mask mask_numeral)
  then have lo: "unat (b AND 15) = unat b mod 16" by (simp add: take_bit_eq_mod unat_mod)
  show "unat (drop_bit 4 b) < 16" using b by (simp add: hi)
  show "unat (b AND 15) < 16" by (simp add: lo)
  have "16 * (unat b div 16) + unat b mod 16 = unat b" by simp
  then show "of_nat (16 * unat (drop_bit 4 b) + unat (b AND 15)) = b"
    unfolding hi lo by (simp del: of_nat_add of_nat_mult)
qed

lemma hex_digit: "i < 16 \<Longrightarrow> find_idx (hex_digits ! i) hex_digits = Some i"
  by (rule find_idx_nth) (simp_all add: hex_digits_def)

text \<open>The hexadecimal text determines the hash: it has two upper-case digits per byte, and reading them
  back gives the bytes.\<close>

theorem hash_to_hex_roundtrip:
  "length (hash_to_hex v) = 2 * length (snd v) \<and> set (hash_to_hex v) \<subseteq> set hex_digits \<and>
   unhex (hash_to_hex v) = snd v"
proof -
  have "length (hex_loop hex_digits bs []) = 2 * length bs \<and> set (hex_loop hex_digits bs []) \<subseteq> set hex_digits \<and>
      unhex (hex_loop hex_digits bs []) = bs" for bs
  proof (induction bs)
    case (Cons b bs)
    have "length hex_digits = 16" by (simp add: hex_digits_def)
    with Cons nibbles [of b] show ?case
      by (simp add: hex_loop_Cons hex_digit del: hex_loop.simps of_nat_add of_nat_mult)
  qed simp
  then show ?thesis by (simp add: hash_to_hex_def)
qed

lemma demo_libs_ok:
  "evp_ok demo_evp demo_digest Some" "crypt_ok demo_crypt demo_digest Some" "cc_ok demo_cc demo_digest Some"
  by (auto simp: evp_ok_def crypt_ok_def cc_ok_def digest_sizes_def demo_evp_def demo_crypt_def demo_cc_def demo_digest_def)


theorem hash_file_wraps_witness:
  "\<exists>r. hash_file (ossl_class demo_evp) demo_read ''file'' True MD5 (1 * 2 ^ 32) = Some r \<and>
     (\<forall>v. r = Inr v \<longrightarrow> v = (MD5, demo_digest MD5 []))"
  by (rule hash_file_wraps [where fed = Some]) (simp_all add: demo_read_def demo_libs_ok)

end
