(* ===== verification/Logging.thy ===== *)
theory Logging
  imports NstlPrelude StringTools Charconv
begin

text \<open>
  The logging front end of \<^verbatim>\<open>nstl/logging.cpp\<close> and of the macros of \<^verbatim>\<open>nstl/logging.hpp\<close>: levels, the time
  zone of the stamps, and the formatting of a line. A level is its underlying 16-bit integer. The time
  zone database, the clock and the calendar formatting are parameters.
\<close>

section \<open>Definitions\<close>

subsection \<open>Levels\<close>

abbreviation (input) "level_Debug \<equiv> (0::int)"
abbreviation (input) "level_Info \<equiv> (1::int)"
abbreviation (input) "level_Warning \<equiv> (2::int)"
abbreviation (input) "level_Error \<equiv> (3::int)"
abbreviation (input) "level_Terminate \<equiv> (4::int)"

definition log_levels :: "string list" where
  "log_levels = [''DEBUG'', ''INFO'', ''WARNING'', ''ERROR'', ''TERMINATE'']"

definition parseLevel :: "string \<Rightarrow> int result" where
  "parseLevel view =
     (case find_idx view log_levels of
        Some i \<Rightarrow> Inr (int i)
      | None \<Rightarrow> Inl (NstlException '' level is not known''))"

definition level_name :: "int \<Rightarrow> string result" where
  "level_name l =
     throw_if (l < 0 \<or> int (length log_levels) \<le> l) (NstlException ''Invalid level'')
       (Inr (log_levels ! nat l))"

definition level_toStream :: "int \<Rightarrow> ostream \<Rightarrow> ostream result" where
  "level_toStream l os = bind_result (level_name l) (\<lambda>n. Inr (os_put n os))"

text \<open>\<^verbatim>\<open>current_level\<close> is an atomic variable; the functions get and give its value.\<close>

definition setLevel :: "int \<Rightarrow> int \<Rightarrow> int \<times> int" where
  "setLevel level current = (current, level)"

definition getLevel :: "int \<Rightarrow> int" where
  "getLevel current = current"

definition isLevelActive :: "int \<Rightarrow> int \<Rightarrow> bool" where
  "isLevelActive current level \<longleftrightarrow> getLevel current \<le> level"

subsection \<open>Time zone\<close>

record 'z tz_database =
  current_zone :: 'z
  locate_zone :: "string \<Rightarrow> 'z result"

record 'z log_time_zone =
  tz_zone :: "'z option"
  tz_name :: "string option"

definition parse_zone :: "'z tz_database \<Rightarrow> string \<Rightarrow> 'z option result" where
  "parse_zone db zone =
     (if zone = [] then Inr (Some (current_zone db))
      else if iequal zone ''utc'' then Inr None
      else bind_result (locate_zone db zone) (\<lambda>z. Inr (Some z)))"

text \<open>The clock of the object, if it has one, or the system clock.\<close>

definition tz_now :: "(unit \<Rightarrow> 't) option \<Rightarrow> 't \<Rightarrow> 't" where
  "tz_now clock system_now = (case clock of Some f \<Rightarrow> f () | None \<Rightarrow> system_now)"

text \<open>The argument is the value of the environment variable \<^verbatim>\<open>LOG_TZ\<close>.\<close>

definition log_time_zone_new :: "'z tz_database \<Rightarrow> cstring \<Rightarrow> 'z log_time_zone result" where
  "log_time_zone_new db env =
     (case env of
        None \<Rightarrow> Inr \<lparr>tz_zone = None, tz_name = None\<rparr>
      | Some zone_name \<Rightarrow>
          bind_result (parse_zone db zone_name) (\<lambda>z. Inr \<lparr>tz_zone = z, tz_name = Some zone_name\<rparr>))"

definition setZone :: "'z tz_database \<Rightarrow> string option \<Rightarrow> 'z log_time_zone \<Rightarrow> 'z log_time_zone \<times> unit result" where
  "setZone db zone tz =
     (case (case zone of Some z \<Rightarrow> parse_zone db z | None \<Rightarrow> Inr None) of
        Inl e \<Rightarrow> (tz, Inl e)
      | Inr z \<Rightarrow> (\<lparr>tz_zone = z, tz_name = zone\<rparr>, Inr ()))"

definition printStamp ::
    "('z \<Rightarrow> 't \<Rightarrow> string) \<Rightarrow> ('t \<Rightarrow> string) \<Rightarrow> 'z log_time_zone \<Rightarrow> 't \<Rightarrow> ostream \<Rightarrow> ostream" where
  "printStamp fmt_zoned fmt_utc tz now os =
     (case tz_zone tz of Some z \<Rightarrow> os_put (fmt_zoned z now) os | None \<Rightarrow> os_put (fmt_utc now) os)"

definition tz_to_stream :: "'z log_time_zone \<Rightarrow> ostream \<Rightarrow> ostream" where
  "tz_to_stream tz os =
     (case tz_name tz of
        Some n \<Rightarrow> (if n = [] then os_put ''current'' os else os_put n os)
      | None \<Rightarrow> os_put ''UTC'' os)"

subsection \<open>Lines\<close>

definition delimiter :: string where
  "delimiter = ''|''"

text \<open>The constructor of \<^verbatim>\<open>LoggerFormatter\<close>, given the stamp and the text of the thread id.\<close>

definition formatter_new :: "(ostream \<Rightarrow> ostream) \<Rightarrow> string \<Rightarrow> int \<Rightarrow> string \<Rightarrow> int \<Rightarrow> ostream result" where
  "formatter_new stamp thread_id level file line =
     (let oss = os_put delimiter (stamp \<lparr>os_text = [], os_fail = False\<rparr>);
          oss = os_put delimiter (os_put (show_int line) (os_put '':'' (os_put file oss)));
          oss = os_put delimiter (os_put thread_id oss)
      in bind_result (level_toStream level oss) (\<lambda>oss. Inr (os_put delimiter oss)))"

text \<open>The macros \<^verbatim>\<open>NSTL_DEBUG\<close> to \<^verbatim>\<open>NSTL_TERMINATE\<close>: what is handed to the log function, if anything.\<close>

definition log_macro ::
    "int \<Rightarrow> (ostream \<Rightarrow> ostream) \<Rightarrow> string \<Rightarrow> int \<Rightarrow> string \<Rightarrow> int \<Rightarrow> (ostream \<Rightarrow> ostream) \<Rightarrow>
     (int \<times> string) option result" where
  "log_macro current stamp thread_id level path line details =
     (if isLevelActive current level
      then bind_result (formatter_new stamp thread_id level (safe_basename_view path) line)
             (\<lambda>oss. Inr (Some (level, os_text (details oss))))
      else Inr None)"

section \<open>Theorems\<close>

lemma find_level: "i < 5 \<Longrightarrow> find_idx (log_levels ! i) log_levels = Some i"
  by (auto simp: log_levels_def less_Suc_eq numeral_eq_Suc)

text \<open>Names and levels are inverse to each other: every valid level has a name that parses to it, what
  parses is the name of the level it parses to, and every other text and every other number throws.\<close>

theorem level_name_roundtrip:
  "(if 0 \<le> l \<and> l < 5 then \<exists>n. level_name l = Inr n \<and> parseLevel n = Inr l
    else level_name l = Inl (NstlException ''Invalid level'')) \<and>
   (case parseLevel v of
      Inr k \<Rightarrow> 0 \<le> k \<and> k < 5 \<and> level_name k = Inr v
    | Inl e \<Rightarrow> v \<notin> set log_levels \<and> e = NstlException '' level is not known'')"
proof -
  have len: "length log_levels = 5" by (simp add: log_levels_def)
  have "\<exists>n. level_name l = Inr n \<and> parseLevel n = Inr l" if "0 \<le> l" "l < 5"
    using that find_level [of "nat l"] by (simp add: level_name_def parseLevel_def len)
  moreover have "case parseLevel v of
      Inr k \<Rightarrow> 0 \<le> k \<and> k < 5 \<and> level_name k = Inr v
    | Inl e \<Rightarrow> v \<notin> set log_levels \<and> e = NstlException '' level is not known''"
    by (auto simp: parseLevel_def level_name_def len find_idx_Some split: option.splits)
  ultimately show ?thesis by (auto simp: level_name_def len)
qed

lemma setZone_keeps:
  "case setZone db zone tz of
     (tz', Inl e) \<Rightarrow> tz' = tz
   | (tz', Inr _) \<Rightarrow> tz_name tz' = zone \<and> (zone = None \<longrightarrow> tz_zone tz' = None)"
  by (auto simp: setZone_def split: sum.splits option.splits)

lemma formatter_line:
  assumes "0 \<le> l" and "l < 5" and "stamp \<lparr>os_text = [], os_fail = False\<rparr> = \<lparr>os_text = st, os_fail = False\<rparr>"
  shows "formatter_new stamp tid l file n =
    Inr \<lparr>os_text = st @ ''|'' @ file @ '':'' @ show_int n @ ''|'' @ tid @ ''|'' @ log_levels ! nat l @ ''|'', os_fail = False\<rparr>"
  using assms
  by (simp add: formatter_new_def level_toStream_def level_name_def log_levels_def os_put_def delimiter_def)

end
