(* ===== verification/Logger.thy ===== *)
theory Logger
  imports NstlPrelude Logging "HOL-Library.Word"
begin

text \<open>
  The loggers of \<^verbatim>\<open>nstl/logger.cpp\<close>: \<^verbatim>\<open>OstreamLog\<close> and its two subclasses, whose worker thread writes the
  queued lines, the stack of active loggers behind the log function, and the handle class \<^verbatim>\<open>Logger\<close>. The
  bounded queue of oneTBB is a parameter: a record of its operations with the items it holds.
\<close>

section \<open>Definitions\<close>

subsection \<open>Outcomes and the queue\<close>

datatype 's outcome = Blocked | Fault exn | Aborted 's | Next 's

primrec bind_outcome :: "'s outcome \<Rightarrow> ('s \<Rightarrow> 't outcome) \<Rightarrow> ('s \<Rightarrow> 't) \<Rightarrow> 't outcome" where
  "bind_outcome Blocked f g = Blocked"
| "bind_outcome (Fault e) f g = Fault e"
| "bind_outcome (Aborted s) f g = Aborted (g s)"
| "bind_outcome (Next s) f g = f s"

type_synonym line_item = "string option"

record 'q tbb_queue =
  tbb_new :: 'q
  tbb_emplace :: "line_item \<Rightarrow> 'q \<Rightarrow> 'q"
  tbb_pop :: "'q \<Rightarrow> (line_item \<times> 'q) option"
  tbb_size :: "nat \<Rightarrow> 'q \<Rightarrow> int"
  tbb_items :: "'q \<Rightarrow> line_item list"

text \<open>The documented behaviour: first in, first out; a pop on an empty queue waits; the size is the number of
  items less the number of waiting pops.\<close>

definition tbb_queue_ok :: "'q tbb_queue \<Rightarrow> bool" where
  "tbb_queue_ok tbb \<longleftrightarrow>
     tbb_items tbb (tbb_new tbb) = [] \<and>
     (\<forall>x q. tbb_items tbb (tbb_emplace tbb x q) = tbb_items tbb q @ [x]) \<and>
     (\<forall>q. case tbb_pop tbb q of
            None \<Rightarrow> tbb_items tbb q = []
          | Some (x, q') \<Rightarrow> tbb_items tbb q = x # tbb_items tbb q') \<and>
     (\<forall>w q. tbb_size tbb w q = int (length (tbb_items tbb q)) - int w)"

subsection \<open>OstreamLog, CoutLog and FileLog\<close>

datatype log_kind = OstreamLog | CoutLog | FileLog

record 'q ostream_log =
  ol_kind :: log_kind
  ol_level :: int
  ol_tgt :: bool
  ol_queue :: 'q
  ol_waiting :: bool
  ol_running :: bool
  ol_runner :: bool
  ol_throttle :: int
  ol_open :: bool
  ol_out :: string

definition is_cout_logger :: "'q ostream_log \<Rightarrow> bool" where
  "is_cout_logger s \<longleftrightarrow> ol_kind s = CoutLog"

definition queue_size :: "'q tbb_queue \<Rightarrow> 'q ostream_log \<Rightarrow> int" where
  "queue_size tbb s = tbb_size tbb (if ol_waiting s then 1 else 0) (ol_queue s)"

text \<open>One turn of the worker's loop: the pop, and the line written to the target. A pop that finds no item
  waits.\<close>

definition worker_iter :: "'q tbb_queue \<Rightarrow> 'q ostream_log \<Rightarrow> 'q ostream_log outcome" where
  "worker_iter tbb s =
     (case tbb_pop tbb (ol_queue s) of
        None \<Rightarrow> Blocked
      | Some (Some line, q) \<Rightarrow>
          (if ol_tgt s
           then Next (s\<lparr>ol_queue := q, ol_waiting := False, ol_out := ol_out s @ line @ [CHR 0x0A]\<rparr>)
           else Fault Undefined)
      | Some (None, q) \<Rightarrow> Next (s\<lparr>ol_queue := q, ol_waiting := False, ol_runner := False\<rparr>))"

definition worker_wait :: "'q ostream_log \<Rightarrow> 'q ostream_log" where
  "worker_wait s = s\<lparr>ol_waiting := True\<rparr>"

text \<open>The worker until its thread returns. The bound is on the number of turns: with as many as there are
  items, and one more, the queue is used up.\<close>

fun worker_loop :: "'q tbb_queue \<Rightarrow> nat \<Rightarrow> 'q ostream_log \<Rightarrow> 'q ostream_log outcome" where
  "worker_loop tbb 0 s = Blocked"
| "worker_loop tbb (Suc n) s =
     (case worker_iter tbb s of
        Next s' \<Rightarrow> (if ol_runner s' then worker_loop tbb n s' else Next s')
      | r \<Rightarrow> r)"

definition worker :: "'q tbb_queue \<Rightarrow> 'q ostream_log \<Rightarrow> 'q ostream_log outcome" where
  "worker tbb s = worker_loop tbb (Suc (length (tbb_items tbb (ol_queue s)))) s"

definition ol_new :: "'q tbb_queue \<Rightarrow> log_kind \<Rightarrow> int \<Rightarrow> 'q ostream_log" where
  "ol_new tbb kind level =
     \<lparr>ol_kind = kind, ol_level = level, ol_tgt = False, ol_queue = tbb_new tbb, ol_waiting = False,
      ol_running = False, ol_runner = False, ol_throttle = 2 ^ 63 - 1, ol_open = False, ol_out = []\<rparr>"

definition ol_start :: "'q ostream_log \<Rightarrow> 'q ostream_log" where
  "ol_start s = (if ol_running s then s else s\<lparr>ol_running := True, ol_tgt := True, ol_runner := True\<rparr>)"

definition filelog_new :: "'q tbb_queue \<Rightarrow> bool \<Rightarrow> int \<Rightarrow> 'q ostream_log result" where
  "filelog_new tbb is_open level =
     throw_if (\<not> is_open) (NstlException '' open for write failed'')
       (Inr (ol_start ((ol_new tbb FileLog level)\<lparr>ol_open := True\<rparr>)))"

text \<open>The two halves of \<^verbatim>\<open>stop\<close>, before and after it waits for the thread.\<close>

definition stop_begin :: "'q tbb_queue \<Rightarrow> 'q ostream_log \<Rightarrow> 'q ostream_log" where
  "stop_begin tbb s = s\<lparr>ol_running := False, ol_queue := tbb_emplace tbb None (ol_queue s)\<rparr>"

definition stop_end :: "'q ostream_log \<Rightarrow> 'q ostream_log" where
  "stop_end s = s\<lparr>ol_tgt := False\<rparr>"

definition ol_stop :: "'q tbb_queue \<Rightarrow> 'q ostream_log \<Rightarrow> ('q ostream_log \<times> bool) outcome" where
  "ol_stop tbb s =
     (if ol_running s
      then bind_outcome (worker tbb (stop_begin tbb s)) (\<lambda>s. Next (stop_end s, True)) (\<lambda>s. (s, True))
      else Next (s, False))"

definition filelog_stop :: "'q tbb_queue \<Rightarrow> 'q ostream_log \<Rightarrow> ('q ostream_log \<times> bool) outcome" where
  "filelog_stop tbb s =
     bind_outcome (ol_stop tbb s) (\<lambda>(s, b). Next (if b then s\<lparr>ol_open := False\<rparr> else s, b)) (\<lambda>r. r)"

definition log_stop :: "'q tbb_queue \<Rightarrow> 'q ostream_log \<Rightarrow> ('q ostream_log \<times> bool) outcome" where
  "log_stop tbb s = (if ol_kind s = FileLog then filelog_stop tbb s else ol_stop tbb s)"

definition push_emplace :: "'q tbb_queue \<Rightarrow> string \<Rightarrow> 'q ostream_log \<Rightarrow> 'q ostream_log \<times> bool" where
  "push_emplace tbb line s =
     (if ol_throttle s < queue_size tbb s then (s, False)
      else (s\<lparr>ol_queue := tbb_emplace tbb (Some line) (ol_queue s)\<rparr>, True))"

definition log_push :: "'q tbb_queue \<Rightarrow> int \<Rightarrow> string \<Rightarrow> 'q ostream_log \<Rightarrow> 'q ostream_log outcome" where
  "log_push tbb level line s =
     (case push_emplace tbb line s of
        (s, False) \<Rightarrow> Next s
      | (s, True) \<Rightarrow>
          (if level = level_Terminate
           then bind_outcome (log_stop tbb s) (\<lambda>(s, _). Aborted s) fst
           else Next s))"

definition log_throttleSize :: "int \<Rightarrow> 'q ostream_log \<Rightarrow> 'q ostream_log" where
  "log_throttleSize sz s = s\<lparr>ol_throttle := sz\<rparr>"

text \<open>The difference of the queue becomes the unsigned \<^verbatim>\<open>size_t\<close>.\<close>

definition log_size :: "'q tbb_queue \<Rightarrow> 'q ostream_log \<Rightarrow> u64" where
  "log_size tbb s = word_of_int (queue_size tbb s)"

subsection \<open>Interleavings\<close>

text \<open>
  The states a started logger can reach, when pushes, throttle changes, turns of the worker and the two
  halves of a stop come in any order, each with the lines the logger took before it was stopped.
\<close>

inductive ol_reach :: "'q tbb_queue \<Rightarrow> log_kind \<Rightarrow> int \<Rightarrow> 'q ostream_log \<Rightarrow> string list \<Rightarrow> bool"
  for tbb :: "'q tbb_queue" and kind :: log_kind and level :: int where
  Started: "ol_reach tbb kind level (ol_start ((ol_new tbb kind level)\<lparr>ol_open := (kind = FileLog)\<rparr>)) []"
| Emplaced: "\<lbrakk>ol_reach tbb kind level s h; push_emplace tbb line s = (s', ok)\<rbrakk> \<Longrightarrow>
    ol_reach tbb kind level s' (if ok \<and> ol_running s then h @ [line] else h)"
| Throttled: "ol_reach tbb kind level s h \<Longrightarrow> ol_reach tbb kind level (log_throttleSize n s) h"
| Waiting: "\<lbrakk>ol_reach tbb kind level s h; ol_runner s; tbb_pop tbb (ol_queue s) = None\<rbrakk> \<Longrightarrow>
    ol_reach tbb kind level (worker_wait s) h"
| Worked: "\<lbrakk>ol_reach tbb kind level s h; ol_runner s; worker_iter tbb s = Next s'\<rbrakk> \<Longrightarrow>
    ol_reach tbb kind level s' h"
| Stopping: "\<lbrakk>ol_reach tbb kind level s h; ol_running s\<rbrakk> \<Longrightarrow> ol_reach tbb kind level (stop_begin tbb s) h"
| Joined: "\<lbrakk>ol_reach tbb kind level s h; \<not> ol_running s; \<not> ol_runner s\<rbrakk> \<Longrightarrow>
    ol_reach tbb kind level (stop_end s) h"
| Closed: "\<lbrakk>ol_reach tbb kind level s h; \<not> ol_running s; \<not> ol_runner s; \<not> ol_tgt s\<rbrakk> \<Longrightarrow>
    ol_reach tbb kind level (s\<lparr>ol_open := False\<rparr>) h"

definition lines_text :: "string list \<Rightarrow> string" where
  "lines_text ls = concat (map (\<lambda>l. l @ [CHR 0x0A]) ls)"

text \<open>The lines the worker has still to write: those before the mark of the stop.\<close>

fun before_mark :: "line_item list \<Rightarrow> string list" where
  "before_mark (Some l # xs) = l # before_mark xs"
| "before_mark _ = []"

definition pending :: "'q tbb_queue \<Rightarrow> 'q ostream_log \<Rightarrow> string list" where
  "pending tbb s = before_mark (tbb_items tbb (ol_queue s))"

definition ol_inv :: "'q tbb_queue \<Rightarrow> log_kind \<Rightarrow> int \<Rightarrow> 'q ostream_log \<Rightarrow> string list \<Rightarrow> bool" where
  "ol_inv tbb kind level s h \<longleftrightarrow>
     ol_kind s = kind \<and> ol_level s = level \<and>
     (ol_running s \<longrightarrow> ol_runner s \<and> None \<notin> set (tbb_items tbb (ol_queue s))) \<and>
     (ol_runner s \<longrightarrow> ol_tgt s \<and> (kind = FileLog \<longrightarrow> ol_open s) \<and>
        ol_out s @ lines_text (pending tbb s) = lines_text h \<and>
        (ol_running s \<or> None \<in> set (tbb_items tbb (ol_queue s)))) \<and>
     (\<not> ol_runner s \<longrightarrow> ol_out s = lines_text h)"

subsection \<open>The stack of loggers\<close>

text \<open>The virtual functions of \<^verbatim>\<open>LoggerAPI\<close>.\<close>

record 'a logger_api =
  api_push :: "int \<Rightarrow> string \<Rightarrow> 'a \<Rightarrow> 'a outcome"
  api_stop :: "'a \<Rightarrow> ('a \<times> bool) outcome"
  api_throttleSize :: "int \<Rightarrow> 'a \<Rightarrow> 'a"
  api_size :: "'a \<Rightarrow> u64"
  api_getLevel :: "'a \<Rightarrow> int"
  api_is_cout :: "'a \<Rightarrow> bool"

definition ostream_api :: "'q tbb_queue \<Rightarrow> 'q ostream_log logger_api" where
  "ostream_api tbb =
     \<lparr>api_push = log_push tbb, api_stop = log_stop tbb, api_throttleSize = log_throttleSize,
      api_size = log_size tbb, api_getLevel = ol_level, api_is_cout = is_cout_logger\<rparr>"

text \<open>
  The global state: the stack, the log function (the object its weak pointer names), the current level, the
  flag of the cout logger; the \<^verbatim>\<open>LoggerAPI\<close> objects, by number, with the count of the shared pointers that
  own each, and the \<^verbatim>\<open>Logger\<close> objects, by number, each with its \<^verbatim>\<open>_log\<close>.
\<close>

record 'a log_world =
  lw_items :: "nat list"
  lw_functor :: "nat option"
  lw_level :: int
  lw_cout :: bool
  lw_logs :: "('a \<times> nat) list"
  lw_handles :: "nat option list"

definition log_world_init :: "'a log_world" where
  "log_world_init =
     \<lparr>lw_items = [], lw_functor = None, lw_level = level_Info, lw_cout = False, lw_logs = [], lw_handles = []\<rparr>"

definition log_obj :: "'a log_world \<Rightarrow> nat \<Rightarrow> 'a" where
  "log_obj w p = fst (lw_logs w ! p)"

definition use_count :: "'a log_world \<Rightarrow> nat \<Rightarrow> nat" where
  "use_count w p = (if p < length (lw_logs w) then snd (lw_logs w ! p) else 0)"

definition set_obj :: "nat \<Rightarrow> 'a \<Rightarrow> 'a log_world \<Rightarrow> 'a log_world" where
  "set_obj p a w = w\<lparr>lw_logs := (lw_logs w)[p := (a, use_count w p)]\<rparr>"

definition set_count :: "nat \<Rightarrow> nat \<Rightarrow> 'a log_world \<Rightarrow> 'a log_world" where
  "set_count p n w = w\<lparr>lw_logs := (lw_logs w)[p := (log_obj w p, n)]\<rparr>"

definition make_shared :: "'a \<Rightarrow> 'a log_world \<Rightarrow> 'a log_world \<times> nat" where
  "make_shared a w = (w\<lparr>lw_logs := lw_logs w @ [(a, 1)]\<rparr>, length (lw_logs w))"

text \<open>The end of a shared pointer; the last one runs the destructor, which stops the logger.\<close>

definition release :: "'a logger_api \<Rightarrow> nat \<Rightarrow> 'a log_world \<Rightarrow> 'a log_world outcome" where
  "release api p w =
     (if use_count w p = 1
      then bind_outcome (api_stop api (log_obj w p))
             (\<lambda>(a, _). Next (set_count p 0 (set_obj p a w))) (\<lambda>(a, _). set_obj p a w)
      else Next (set_count p (use_count w p - 1) w))"

fun release_n :: "'a logger_api \<Rightarrow> nat \<Rightarrow> nat \<Rightarrow> 'a log_world \<Rightarrow> 'a log_world outcome" where
  "release_n api 0 p w = Next w"
| "release_n api (Suc n) p w = bind_outcome (release api p w) (release_n api n p) (\<lambda>w. w)"

definition set_functor :: "'a logger_api \<Rightarrow> 'a log_world \<Rightarrow> 'a log_world \<times> bool" where
  "set_functor api w =
     (if lw_items w = [] then (w, False)
      else let ptr = last (lw_items w)
           in (w\<lparr>lw_functor := Some ptr,
                 lw_level := snd (setLevel (api_getLevel api (log_obj w ptr)) (lw_level w))\<rparr>, True))"

definition stack_push_back :: "'a logger_api \<Rightarrow> nat \<Rightarrow> 'a log_world \<Rightarrow> 'a log_world \<times> bool" where
  "stack_push_back api p w =
     set_functor api ((set_count p (use_count w p + 1) w)\<lparr>lw_items := lw_items w @ [p]\<rparr>)"

definition stack_erase :: "'a logger_api \<Rightarrow> nat \<Rightarrow> 'a log_world \<Rightarrow> ('a log_world \<times> bool) outcome" where
  "stack_erase api p w =
     (if lw_items w \<noteq> [] \<and> last (lw_items w) = p
      then bind_outcome (release api p (w\<lparr>lw_items := butlast (lw_items w)\<rparr>))
             (\<lambda>w. Next (set_functor api w)) (\<lambda>w. (w, False))
      else bind_outcome
             (release_n api (count_list (lw_items w) p) p (w\<lparr>lw_items := filter (\<lambda>q. q \<noteq> p) (lw_items w)\<rparr>))
             (\<lambda>w. Next (w, False)) (\<lambda>w. (w, False)))"

text \<open>The function set by \<^verbatim>\<open>_set_functor\<close>, as \<^verbatim>\<open>LoggerFormatter::operator()\<close> calls it.\<close>

definition log_func :: "'a logger_api \<Rightarrow> int \<Rightarrow> string \<Rightarrow> 'a log_world \<Rightarrow> 'a log_world outcome" where
  "log_func api level line w =
     (case lw_functor w of
        None \<Rightarrow> Next w
      | Some p \<Rightarrow>
          (if use_count w p = 0 then Next w
           else bind_outcome (api_push api level line (log_obj w p))
                  (\<lambda>a. Next (set_obj p a w)) (\<lambda>a. set_obj p a w)))"

subsection \<open>Logger\<close>

text \<open>The constructor takes over the shared pointer; when it throws, the pointer ends.\<close>

definition logger_new ::
    "'a logger_api \<Rightarrow> nat option \<Rightarrow> 'a log_world \<Rightarrow> ('a log_world \<times> nat result) outcome" where
  "logger_new api log w =
     (case log of
        None \<Rightarrow> Next (w, Inl (NstlException ''Logger API is nullptr''))
      | Some p \<Rightarrow>
          (if api_is_cout api (log_obj w p) \<and> lw_cout w
           then bind_outcome (release api p w)
                  (\<lambda>w. Next (w, Inl (NstlException ''cout logger is already active!''))) (\<lambda>w. (w, Inr 0))
           else let w = (if api_is_cout api (log_obj w p) then w\<lparr>lw_cout := True\<rparr> else w);
                    w = fst (stack_push_back api p w)
                in Next (w\<lparr>lw_handles := lw_handles w @ [Some p]\<rparr>, Inr (length (lw_handles w)))))"

definition logger_make :: "'a logger_api \<Rightarrow> 'a \<Rightarrow> 'a log_world \<Rightarrow> ('a log_world \<times> nat result) outcome" where
  "logger_make api a w = (let (w, p) = make_shared a w in logger_new api (Some p) w)"

definition logger_size :: "'a logger_api \<Rightarrow> nat \<Rightarrow> 'a log_world \<Rightarrow> u64" where
  "logger_size api h w = (case lw_handles w ! h of Some p \<Rightarrow> api_size api (log_obj w p) | None \<Rightarrow> 0)"

definition logger_throttleSize ::
    "'a logger_api \<Rightarrow> nat \<Rightarrow> int \<Rightarrow> 'a log_world \<Rightarrow> 'a log_world \<times> bool result" where
  "logger_throttleSize api h sz w =
     (if sz < 0
      then (w, Inl (NstlException ''negative log throttle size () doesn't make any sense''))
      else case lw_handles w ! h of
             Some p \<Rightarrow> (set_obj p (api_throttleSize api sz (log_obj w p)) w, Inr True)
           | None \<Rightarrow> (w, Inr False))"

definition logger_getLevel :: "'a logger_api \<Rightarrow> nat \<Rightarrow> int \<Rightarrow> 'a log_world \<Rightarrow> int" where
  "logger_getLevel api h dflt w = (case lw_handles w ! h of Some p \<Rightarrow> api_getLevel api (log_obj w p) | None \<Rightarrow> dflt)"

definition logger_reset :: "'a logger_api \<Rightarrow> nat \<Rightarrow> 'a log_world \<Rightarrow> 'a log_world outcome" where
  "logger_reset api h w =
     (case lw_handles w ! h of
        None \<Rightarrow> Next w
      | Some p \<Rightarrow>
          let w = w\<lparr>lw_handles := (lw_handles w)[h := None]\<rparr>;
              w = (if api_is_cout api (log_obj w p) then w\<lparr>lw_cout := False\<rparr> else w)
          in bind_outcome (stack_erase api p w) (\<lambda>(w, _). release api p w) fst)"

text \<open>A program that uses loggers: constructions, resets (the destructor is a reset), lines, throttling, and
  turns of the worker threads in between. Calls on a \<^verbatim>\<open>Logger\<close> that does not exist are not made.\<close>

datatype log_op =
    MkLogger log_kind int
  | ResetLogger nat
  | LogLine int string
  | ThrottleLogger nat int
  | WorkerTurn nat

definition started_log :: "'q tbb_queue \<Rightarrow> log_kind \<Rightarrow> int \<Rightarrow> 'q ostream_log" where
  "started_log tbb kind level = ol_start ((ol_new tbb kind level)\<lparr>ol_open := (kind = FileLog)\<rparr>)"

definition worker_turn :: "'q tbb_queue \<Rightarrow> 'q ostream_log \<Rightarrow> 'q ostream_log" where
  "worker_turn tbb s =
     (if ol_runner s then (case worker_iter tbb s of Next s' \<Rightarrow> s' | _ \<Rightarrow> worker_wait s) else s)"

fun log_op_step ::
    "'a logger_api \<Rightarrow> (log_kind \<Rightarrow> int \<Rightarrow> 'a) \<Rightarrow> ('a \<Rightarrow> 'a) \<Rightarrow> log_op \<Rightarrow> 'a log_world \<Rightarrow> 'a log_world outcome" where
  "log_op_step api mk turn (MkLogger kind level) w = bind_outcome (logger_make api (mk kind level) w) (\<lambda>(w, _). Next w) fst"
| "log_op_step api mk turn (ResetLogger h) w = (if h < length (lw_handles w) then logger_reset api h w else Next w)"
| "log_op_step api mk turn (LogLine level line) w = log_func api level line w"
| "log_op_step api mk turn (ThrottleLogger h sz) w =
     (if h < length (lw_handles w) then Next (fst (logger_throttleSize api h sz w)) else Next w)"
| "log_op_step api mk turn (WorkerTurn p) w = (if use_count w p = 0 then Next w else Next (set_obj p (turn (log_obj w p)) w))"

fun run_log_ops ::
    "'a logger_api \<Rightarrow> (log_kind \<Rightarrow> int \<Rightarrow> 'a) \<Rightarrow> ('a \<Rightarrow> 'a) \<Rightarrow> log_op list \<Rightarrow> 'a log_world \<Rightarrow> 'a log_world outcome" where
  "run_log_ops api mk turn [] w = Next w"
| "run_log_ops api mk turn (c # cs) w =
     bind_outcome (log_op_step api mk turn c w) (run_log_ops api mk turn cs) (\<lambda>w. w)"

text \<open>The loggers that live, in the order of their construction.\<close>

definition live_logs :: "'a log_world \<Rightarrow> nat list" where
  "live_logs w = map the (filter (\<lambda>x. x \<noteq> None) (lw_handles w))"

section \<open>Theorems\<close>

subsection \<open>One logger\<close>

lemma lines_text_simps [simp]:
  "lines_text [] = []" "lines_text (l # ls) = l @ CHR 0x0A # lines_text ls"
  "lines_text (ls @ ls') = lines_text ls @ lines_text ls'"
  by (simp_all add: lines_text_def)

lemma tbb_queue_facts:
  assumes "tbb_queue_ok tbb"
  shows "tbb_items tbb (tbb_new tbb) = []"
    and "tbb_items tbb (tbb_emplace tbb x q) = tbb_items tbb q @ [x]"
    and "tbb_pop tbb q = None \<Longrightarrow> tbb_items tbb q = []"
    and "tbb_pop tbb q = Some (x, q') \<Longrightarrow> tbb_items tbb q = x # tbb_items tbb q'"
    and "tbb_size tbb w q = int (length (tbb_items tbb q)) - int w"
  using assms unfolding tbb_queue_ok_def by (auto split: option.splits dest: spec [of _ q])

lemma before_mark_snoc:
  "before_mark (xs @ [x]) =
     before_mark xs @ (if None \<in> set xs then [] else case x of None \<Rightarrow> [] | Some l \<Rightarrow> [l])"
  by (induction xs rule: before_mark.induct) (auto split: option.splits)

lemma worker_iter_cases:
  assumes "tbb_queue_ok tbb"
  obtains (Block) "worker_iter tbb s = Blocked" "tbb_items tbb (ol_queue s) = []"
  | (Line) line q where "tbb_items tbb (ol_queue s) = Some line # tbb_items tbb q"
      "worker_iter tbb s = (if ol_tgt s
         then Next (s\<lparr>ol_queue := q, ol_waiting := False, ol_out := ol_out s @ line @ [CHR 0x0A]\<rparr>)
         else Fault Undefined)"
  | (Mark) q where "tbb_items tbb (ol_queue s) = None # tbb_items tbb q"
      "worker_iter tbb s = Next (s\<lparr>ol_queue := q, ol_waiting := False, ol_runner := False\<rparr>)"
proof (cases "tbb_pop tbb (ol_queue s)")
  case None
  then show ?thesis using Block tbb_queue_facts(3) [OF assms] by (simp add: worker_iter_def)
next
  case (Some r)
  obtain x q where r: "tbb_pop tbb (ol_queue s) = Some (x, q)" using Some by (cases r) auto
  note items = tbb_queue_facts(4) [OF assms r]
  show ?thesis
    using Line [of _ q] Mark [of q] items r by (cases x) (auto simp: worker_iter_def)
qed

lemma ol_inv_worked:
  assumes "tbb_queue_ok tbb" and "ol_inv tbb kind level s h" and "ol_runner s" and "worker_iter tbb s = Next s'"
  shows "ol_inv tbb kind level s' h"
  using assms(1)
proof (cases rule: worker_iter_cases [where s = s])
  case Block
  then show ?thesis using assms by simp
next
  case (Line line q)
  then show ?thesis using assms(2-4) by (auto simp: ol_inv_def pending_def)
next
  case (Mark q)
  then show ?thesis using assms(2-4) by (auto simp: ol_inv_def pending_def)
qed

lemma ol_inv_emplaced:
  assumes "tbb_queue_ok tbb" and "ol_inv tbb kind level s h" and "push_emplace tbb line s = (s', ok)"
  shows "ol_inv tbb kind level s' (if ok \<and> ol_running s then h @ [line] else h)"
proof (cases "ol_throttle s < queue_size tbb s")
  case False
  then have s': "s' = s\<lparr>ol_queue := tbb_emplace tbb (Some line) (ol_queue s)\<rparr>" "ok"
    using assms(3) by (auto simp: push_emplace_def)
  show ?thesis
    using assms(2) unfolding s'
    by (cases "ol_running s")
      (auto simp: ol_inv_def pending_def s'(2) tbb_queue_facts [OF assms(1)] before_mark_snoc)
qed (use assms in \<open>auto simp: push_emplace_def\<close>)

lemma ol_inv_stop_begin:
  assumes "tbb_queue_ok tbb" and "ol_inv tbb kind level s h" and "ol_running s"
  shows "ol_inv tbb kind level (stop_begin tbb s) h"
  using assms(2,3)
  by (auto simp: ol_inv_def pending_def stop_begin_def tbb_queue_facts [OF assms(1)] before_mark_snoc)

lemma ol_reach_inv:
  assumes "ol_reach tbb kind level s h" and ok: "tbb_queue_ok tbb"
  shows "ol_inv tbb kind level s h"
  using assms(1)
proof induction
  case Started
  show ?case by (simp add: ol_inv_def ol_start_def ol_new_def pending_def tbb_queue_facts [OF ok])
next
  case (Emplaced s h line s' ok)
  then show ?case using ol_inv_emplaced assms(2) by blast
next
  case (Worked s h s')
  then show ?case using ol_inv_worked assms(2) by blast
next
  case (Stopping s h)
  then show ?case using ol_inv_stop_begin assms(2) by blast
qed (auto simp: ol_inv_def log_throttleSize_def worker_wait_def stop_end_def pending_def)

text \<open>From every state in which the thread is still in its loop and a stop has begun, the worker returns.\<close>

lemma worker_loop_returns:
  assumes ok: "tbb_queue_ok tbb"
  shows "\<lbrakk>ol_reach tbb kind level s h; ol_runner s; \<not> ol_running s; length (tbb_items tbb (ol_queue s)) < n\<rbrakk> \<Longrightarrow>
    \<exists>s'. worker_loop tbb n s = Next s' \<and> ol_reach tbb kind level s' h \<and> \<not> ol_runner s' \<and> \<not> ol_running s'"
proof (induction n arbitrary: s)
  case (Suc n)
  note inv = ol_reach_inv [OF Suc.prems(1) ok]
  from ok show ?case
  proof (cases rule: worker_iter_cases [where s = s])
    case Block
    then show ?thesis using inv Suc.prems by (simp add: ol_inv_def)
  next
    case (Line line q)
    let ?s = "s\<lparr>ol_queue := q, ol_waiting := False, ol_out := ol_out s @ line @ [CHR 0x0A]\<rparr>"
    have it: "worker_iter tbb s = Next ?s" using Line inv Suc.prems by (simp add: ol_inv_def)
    show ?thesis
      using Suc.IH [of ?s] ol_reach.Worked [OF Suc.prems(1,2) it] Suc.prems Line(1) it by simp
  next
    case (Mark q)
    then show ?thesis
      using ol_reach.Worked [OF Suc.prems(1,2) Mark(2)] Suc.prems by simp
  qed
qed simp

lemma worker_returns:
  assumes "tbb_queue_ok tbb" and "ol_reach tbb kind level s h" and "ol_running s"
  shows "\<exists>s'. worker tbb (stop_begin tbb s) = Next s' \<and> ol_reach tbb kind level s' h \<and>
    \<not> ol_runner s' \<and> \<not> ol_running s'"
proof -
  have "ol_runner s" using ol_reach_inv [OF assms(2,1)] assms(3) by (simp add: ol_inv_def)
  then show ?thesis
    unfolding worker_def
    by (intro worker_loop_returns [OF assms(1)] ol_reach.Stopping assms) (simp_all add: stop_begin_def)
qed

lemma log_stop_reach:
  assumes "tbb_queue_ok tbb" and "ol_reach tbb kind level s h"
  shows "\<exists>s'. log_stop tbb s = Next (s', ol_running s) \<and> ol_reach tbb kind level s' h \<and> \<not> ol_running s' \<and>
    (ol_running s \<longrightarrow> \<not> ol_runner s')"
proof (cases "ol_running s")
  case True
  obtain s1 where s1: "worker tbb (stop_begin tbb s) = Next s1" "ol_reach tbb kind level s1 h" "\<not> ol_runner s1"
    "\<not> ol_running s1" using worker_returns [OF assms True] by blast
  have e: "ol_reach tbb kind level (stop_end s1) h" by (rule ol_reach.Joined) fact+
  have "ol_reach tbb kind level ((stop_end s1)\<lparr>ol_open := False\<rparr>) h"
    by (rule ol_reach.Closed [OF e]) (use s1 in \<open>simp_all add: stop_end_def\<close>)
  then show ?thesis
    using s1 e True by (auto simp: log_stop_def filelog_stop_def ol_stop_def stop_end_def)
qed (use assms in \<open>auto simp: log_stop_def filelog_stop_def ol_stop_def\<close>)

text \<open>C10. In whatever order pushes, throttle changes, turns of the worker and a stop come, the worker writes only
  to a target that is there and, of a file, open; the text it has written, followed by the lines that wait before the mark
  of the stop, is all the lines that were taken, whole, in their order and each once; and once the thread has returned, all
  of them are written.\<close>

theorem log_worker_invariant:
  assumes "tbb_queue_ok tbb" and "ol_reach tbb kind level s h"
  shows "(ol_runner s \<longrightarrow> worker_iter tbb s \<noteq> Fault e \<and> (kind = FileLog \<longrightarrow> ol_open s) \<and>
            ol_out s @ lines_text (pending tbb s) = lines_text h) \<and>
         (\<not> ol_runner s \<longrightarrow> ol_out s = lines_text h)"
proof -
  note inv = ol_reach_inv [OF assms(2,1)]
  have "worker_iter tbb s \<noteq> Fault e" if "ol_runner s"
    using inv that
    by (cases rule: worker_iter_cases [OF assms(1), where s = s]) (auto simp: ol_inv_def)
  then show ?thesis using inv by (auto simp: ol_inv_def)
qed

subsection \<open>The stack\<close>

definition world_ok ::
    "'a logger_api \<Rightarrow> ('a \<Rightarrow> bool) \<Rightarrow> ('a \<Rightarrow> bool) \<Rightarrow> 'a log_world \<Rightarrow> bool" where
  "world_ok api good ended w \<longleftrightarrow>
     live_logs w = lw_items w \<and> distinct (lw_items w) \<and>
     set (lw_items w) \<subseteq> {..<length (lw_logs w)} \<and>
     (\<forall>p < length (lw_logs w).
        if p \<in> set (lw_items w) then use_count w p = 2 \<and> good (log_obj w p)
        else use_count w p = 0 \<and> ended (log_obj w p)) \<and>
     (lw_items w \<noteq> [] \<longrightarrow>
        lw_functor w = Some (last (lw_items w)) \<and> lw_level w = api_getLevel api (log_obj w (last (lw_items w)))) \<and>
     lw_cout w = (\<exists>p \<in> set (lw_items w). api_is_cout api (log_obj w p)) \<and>
     (\<forall>p \<in> set (lw_items w). \<forall>q \<in> set (lw_items w).
        api_is_cout api (log_obj w p) \<longrightarrow> api_is_cout api (log_obj w q) \<longrightarrow> p = q)"

lemma world_ok_member:
  assumes "world_ok api good ended w" and "p \<in> set (lw_items w)"
  shows "p < length (lw_logs w)" and "use_count w p = 2" and "good (log_obj w p)"
  using assms by (auto simp: world_ok_def)

lemma world_ok_dead:
  "\<lbrakk>world_ok api good ended w; p < length (lw_logs w); p \<notin> set (lw_items w)\<rbrakk> \<Longrightarrow> use_count w p = 0 \<and> ended (log_obj w p)"
  by (simp add: world_ok_def)

lemma live_reset:
  assumes "distinct (map the (filter (\<lambda>x. x \<noteq> None) hs))" and "h < length hs" and "hs ! h = Some p"
  shows "map the (filter (\<lambda>x. x \<noteq> None) (hs[h := None])) =
    filter (\<lambda>q. q \<noteq> p) (map the (filter (\<lambda>x. x \<noteq> None) hs))"
  using assms
proof (induction hs arbitrary: h)
  case (Cons x hs)
  show ?case
  proof (cases h)
    case 0
    then have "p \<notin> set (map the (filter (\<lambda>x. x \<noteq> None) hs))" using Cons.prems by simp
    then show ?thesis using 0 Cons.prems(3) by (auto intro!: filter_True [symmetric])
  next
    case (Suc k)
    then have "Some p \<in> set hs" using Cons.prems(2,3) nth_mem [of k hs] by simp
    then have "p \<in> set (map the (filter (\<lambda>x. x \<noteq> None) hs))" by force
    then show ?thesis using Suc Cons.IH [of k] Cons.prems by (cases x) auto
  qed
qed simp

lemma distinct_butlast_filter: "\<lbrakk>distinct xs; xs \<noteq> []\<rbrakk> \<Longrightarrow> butlast xs = filter (\<lambda>q. q \<noteq> last xs) xs"
  by (induction xs rule: rev_induct) (auto intro!: filter_True [symmetric])

lemma count_list_distinct: "\<lbrakk>distinct xs; x \<in> set xs\<rbrakk> \<Longrightarrow> count_list xs x = Suc 0"
  by (induction xs) auto

lemma last_filter_neq: "\<lbrakk>xs \<noteq> []; last xs \<noteq> p\<rbrakk> \<Longrightarrow> filter (\<lambda>q. q \<noteq> p) xs \<noteq> [] \<and> last (filter (\<lambda>q. q \<noteq> p) xs) = last xs"
  by (induction xs rule: rev_induct) auto

lemma log_world_access [simp]:
  "log_obj (w\<lparr>lw_items := is\<rparr>) p = log_obj w p" "use_count (w\<lparr>lw_items := is\<rparr>) p = use_count w p"
  "log_obj (w\<lparr>lw_handles := hs\<rparr>) p = log_obj w p" "use_count (w\<lparr>lw_handles := hs\<rparr>) p = use_count w p"
  "log_obj (w\<lparr>lw_cout := b\<rparr>) p = log_obj w p" "use_count (w\<lparr>lw_cout := b\<rparr>) p = use_count w p"
  "log_obj (w\<lparr>lw_functor := f\<rparr>) p = log_obj w p" "use_count (w\<lparr>lw_functor := f\<rparr>) p = use_count w p"
  "log_obj (w\<lparr>lw_level := l\<rparr>) p = log_obj w p" "use_count (w\<lparr>lw_level := l\<rparr>) p = use_count w p"
  by (simp_all add: log_obj_def use_count_def)

lemma log_world_update:
  assumes "p < length (lw_logs w)"
  shows "log_obj (set_obj p a w) q = (if q = p then a else log_obj w q)"
    and "use_count (set_obj p a w) q = use_count w q"
    and "log_obj (set_count p n w) q = log_obj w q"
    and "use_count (set_count p n w) q = (if q = p then n else use_count w q)"
  using assms by (auto simp: log_obj_def use_count_def set_obj_def set_count_def nth_list_update)

lemma log_world_rest [simp]:
  "length (lw_logs (set_obj p a w)) = length (lw_logs w)" "length (lw_logs (set_count p n w)) = length (lw_logs w)"
  "lw_items (set_obj p a w) = lw_items w" "lw_items (set_count p n w) = lw_items w"
  "lw_handles (set_obj p a w) = lw_handles w" "lw_handles (set_count p n w) = lw_handles w"
  "lw_functor (set_obj p a w) = lw_functor w" "lw_functor (set_count p n w) = lw_functor w"
  "lw_level (set_obj p a w) = lw_level w" "lw_level (set_count p n w) = lw_level w"
  "lw_cout (set_obj p a w) = lw_cout w" "lw_cout (set_count p n w) = lw_cout w"
  "live_logs (set_obj p a w) = live_logs w" "live_logs (set_count p n w) = live_logs w"
  by (simp_all add: set_obj_def set_count_def live_logs_def)

lemma set_functor_rest [simp]:
  "lw_items (fst (set_functor api w)) = lw_items w" "lw_logs (fst (set_functor api w)) = lw_logs w"
  "lw_handles (fst (set_functor api w)) = lw_handles w" "lw_cout (fst (set_functor api w)) = lw_cout w"
  "log_obj (fst (set_functor api w)) q = log_obj w q" "use_count (fst (set_functor api w)) q = use_count w q"
  "lw_items w \<noteq> [] \<Longrightarrow> lw_functor (fst (set_functor api w)) = Some (last (lw_items w))"
  "lw_items w \<noteq> [] \<Longrightarrow> lw_level (fst (set_functor api w)) = api_getLevel api (log_obj w (last (lw_items w)))"
  by (simp_all add: set_functor_def Let_def setLevel_def)

lemma make_shared_facts:
  assumes "make_shared a w = (w', p)"
  shows "p = length (lw_logs w)" "length (lw_logs w') = Suc p"
    and "q \<le> p \<Longrightarrow> log_obj w' q = (if q = p then a else log_obj w q)"
    and "q \<le> p \<Longrightarrow> use_count w' q = (if q = p then 1 else use_count w q)"
    and "lw_items w' = lw_items w" "lw_functor w' = lw_functor w" "lw_level w' = lw_level w"
    "lw_cout w' = lw_cout w" "lw_handles w' = lw_handles w" "live_logs w' = live_logs w"
  using assms by (auto simp: make_shared_def log_obj_def use_count_def nth_append live_logs_def)

text \<open>One more object, dead, changes nothing; one more, owned by the stack and by a new \<^verbatim>\<open>Logger\<close>, is the top.\<close>

lemma world_ok_extend:
  assumes "world_ok api good ended w"
    and "length (lw_logs w') = Suc (length (lw_logs w))" and "ended (log_obj w' (length (lw_logs w)))"
    and "use_count w' (length (lw_logs w)) = 0"
    and "\<And>q. q < length (lw_logs w) \<Longrightarrow> log_obj w' q = log_obj w q"
    and "\<And>q. q < length (lw_logs w) \<Longrightarrow> use_count w' q = use_count w q"
    and "lw_items w' = lw_items w" "lw_functor w' = lw_functor w" "lw_level w' = lw_level w"
    "lw_cout w' = lw_cout w" "live_logs w' = live_logs w"
  shows "world_ok api good ended w'"
proof -
  have lt: "q < length (lw_logs w)" if "q \<in> set (lw_items w)" for q
    using assms(1) that by (auto simp: world_ok_def)
  have "lw_items w \<noteq> [] \<Longrightarrow> log_obj w' (last (lw_items w)) = log_obj w (last (lw_items w))"
    using assms(5) lt by simp
  moreover have "log_obj w' q = log_obj w q" if "q \<in> set (lw_items w)" for q
    using that lt assms(5) by blast
  ultimately show ?thesis
    using assms(1) lt unfolding world_ok_def assms(2,7-11)
    by (auto simp: less_Suc_eq assms(3-6))
qed

lemma world_ok_top:
  assumes "world_ok api good ended w"
    and "length (lw_logs w') = Suc (length (lw_logs w))" and "log_obj w' (length (lw_logs w)) = a" and "good a"
    and "use_count w' (length (lw_logs w)) = 2"
    and "\<And>q. q < length (lw_logs w) \<Longrightarrow> log_obj w' q = log_obj w q"
    and "\<And>q. q < length (lw_logs w) \<Longrightarrow> use_count w' q = use_count w q"
    and "lw_items w' = lw_items w @ [length (lw_logs w)]" "live_logs w' = live_logs w @ [length (lw_logs w)]"
    and "lw_functor w' = Some (length (lw_logs w))" "lw_level w' = api_getLevel api a"
    and "lw_cout w' = (api_is_cout api a \<or> lw_cout w)" and "\<not> (api_is_cout api a \<and> lw_cout w)"
  shows "world_ok api good ended w'"
proof -
  have lt: "q < length (lw_logs w)" if "q \<in> set (lw_items w)" for q
    using assms(1) that by (auto simp: world_ok_def)
  have obj: "log_obj w' q = log_obj w q" if "q \<in> set (lw_items w)" for q
    using that lt assms(6) by blast
  show ?thesis
    using assms(1) lt assms(13) unfolding world_ok_def assms(2,8-12)
    by (auto simp: less_Suc_eq assms(3-7) obj)
qed

text \<open>One object less: the rest of the stack keeps its order.\<close>

lemma world_ok_drop:
  assumes "world_ok api good ended w" and "p \<in> set (lw_items w)"
    and "length (lw_logs w') = length (lw_logs w)" and "ended (log_obj w' p)" and "use_count w' p = 0"
    and "\<And>q. q \<noteq> p \<Longrightarrow> log_obj w' q = log_obj w q" and "\<And>q. q \<noteq> p \<Longrightarrow> use_count w' q = use_count w q"
    and "lw_items w' = filter (\<lambda>q. q \<noteq> p) (lw_items w)" "live_logs w' = filter (\<lambda>q. q \<noteq> p) (lw_items w)"
    and "lw_items w' \<noteq> [] \<Longrightarrow> lw_functor w' = Some (last (lw_items w'))"
    and "lw_items w' \<noteq> [] \<Longrightarrow> lw_level w' = api_getLevel api (log_obj w (last (lw_items w')))"
    and "lw_cout w' = (\<not> api_is_cout api (log_obj w p) \<and> lw_cout w)"
  shows "world_ok api good ended w'"
proof -
  have mem: "q \<in> set (lw_items w') \<longleftrightarrow> q \<in> set (lw_items w) \<and> q \<noteq> p" for q
    using assms(8) by auto
  have obj: "log_obj w' q = log_obj w q" if "q \<in> set (lw_items w')" for q
    using that mem assms(6) by blast
  have last: "lw_level w' = api_getLevel api (log_obj w' (last (lw_items w')))" if "lw_items w' \<noteq> []"
    using assms(11) [OF that] obj that by simp
  have cout: "lw_cout w' = (\<exists>q \<in> set (lw_items w'). api_is_cout api (log_obj w' q))"
    using assms(1,2) obj mem unfolding assms(12) world_ok_def by metis
  have rest: "\<forall>q < length (lw_logs w'). if q \<in> set (lw_items w') then use_count w' q = 2 \<and> good (log_obj w' q)
      else use_count w' q = 0 \<and> ended (log_obj w' q)"
    using assms(1-7) mem unfolding world_ok_def by metis
  show ?thesis
    using assms(1) rest cout last assms(3,9,10) mem obj unfolding world_ok_def
    by (auto simp: assms(8))
qed

locale logger_contract =
  fixes valid :: bool and api :: "'a logger_api" and mk :: "log_kind \<Rightarrow> int \<Rightarrow> 'a" and turn :: "'a \<Rightarrow> 'a"
    and good :: "'a \<Rightarrow> bool" and ended :: "'a \<Rightarrow> bool"
  assumes mk_inv: "valid \<Longrightarrow> good (mk k l)"
    and push_ok: "good a \<Longrightarrow>
      (case api_push api lv line a of
         Next a' \<Rightarrow> good a' \<and> api_getLevel api a' = api_getLevel api a \<and> api_is_cout api a' = api_is_cout api a
       | Aborted a' \<Rightarrow> lv = level_Terminate
       | _ \<Rightarrow> False)"
    and stop_ok: "good a \<Longrightarrow> \<exists>a' b. api_stop api a = Next (a', b) \<and> ended a'"
    and turn_ok: "good a \<Longrightarrow>
      good (turn a) \<and> api_getLevel api (turn a) = api_getLevel api a \<and> api_is_cout api (turn a) = api_is_cout api a"
    and throttle_ok: "good a \<Longrightarrow>
      good (api_throttleSize api n a) \<and> api_getLevel api (api_throttleSize api n a) = api_getLevel api a \<and>
      api_is_cout api (api_throttleSize api n a) = api_is_cout api a"
begin

lemma set_obj_world_ok:
  assumes "world_ok api good ended w" and "p \<in> set (lw_items w)" and "good a"
    and "api_getLevel api a = api_getLevel api (log_obj w p)" and "api_is_cout api a = api_is_cout api (log_obj w p)"
  shows "world_ok api good ended (set_obj p a w)"
proof -
  have p: "p < length (lw_logs w)" using assms(1,2) by (auto simp: world_ok_def)
  have same: "api_getLevel api (log_obj (set_obj p a w) q) = api_getLevel api (log_obj w q)"
    "api_is_cout api (log_obj (set_obj p a w) q) = api_is_cout api (log_obj w q)" for q
    using assms(4,5) by (simp_all add: log_world_update [OF p])
  show ?thesis
    using assms(1) unfolding world_ok_def same using assms(2,3)
    by (simp add: log_world_update(1,2) [OF p])
qed

lemma make_world_ok:
  assumes v: valid and ok: "world_ok api good ended w"
  shows "\<exists>w' r. logger_make api (mk k l) w = Next (w', r) \<and> world_ok api good ended w'"
proof -
  define p a where "p = length (lw_logs w)" and "a = mk k l"
  obtain a' b where stop: "api_stop api a = Next (a', b)" "ended a'" using stop_ok mk_inv [OF v] a_def by blast
  obtain w1 where w1: "make_shared a w = (w1, p)" unfolding make_shared_def p_def by blast
  note sh = make_shared_facts [OF w1]
  have lt: "q < p" "q \<noteq> p" if "q \<in> set (lw_items w)" for q
    using ok that by (auto simp: world_ok_def p_def)
  have pl: "p < length (lw_logs w1)" using sh by simp
  show ?thesis
  proof (cases "api_is_cout api a \<and> lw_cout w")
    case True
    let ?r = "set_count p 0 (set_obj p a' w1)"
    have "logger_make api a w = Next (?r, Inl (NstlException ''cout logger is already active!''))"
      using True stop by (simp add: logger_make_def w1 logger_new_def release_def sh del: One_nat_def)
    moreover have "log_obj ?r q = (if q = p then a' else log_obj w q)" "use_count ?r q = (if q = p then 0 else use_count w q)"
      if "q \<le> p" for q
      using that pl by (simp_all add: log_world_update sh)
    then have "world_ok api good ended ?r"
      by (intro world_ok_extend [OF ok]) (use stop lt sh in \<open>auto simp: p_def\<close>)
    ultimately show ?thesis unfolding a_def by blast
  next
    case False
    define c where "c = (if api_is_cout api a then w1\<lparr>lw_cout := True\<rparr> else w1)"
    have c: "log_obj c q = log_obj w1 q" "use_count c q = use_count w1 q" "lw_items c = lw_items w" "lw_logs c = lw_logs w1"
      "lw_handles c = lw_handles w" "lw_cout c = (api_is_cout api a \<or> lw_cout w)" for q
      by (simp_all add: c_def sh)
    define r where "r = (fst (stack_push_back api p c))\<lparr>lw_handles := lw_handles w @ [Some p]\<rparr>"
    have pc: "p < length (lw_logs c)" using pl c by simp
    have "\<exists>n. logger_make api a w = Next (r, n)"
      using False c(5)
      by (auto simp: logger_make_def w1 logger_new_def sh r_def c_def [symmetric] Let_def stack_push_back_def set_functor_def)
    moreover have "log_obj r q = (if q = p then a else log_obj w q)" "use_count r q = (if q = p then 2 else use_count w q)"
      if "q \<le> p" for q
      using that by (simp_all add: r_def stack_push_back_def set_functor_def Let_def log_world_update [OF pc] c sh(2-) numeral_2_eq_2)
    then have "world_ok api good ended r"
      using mk_inv [OF v, of k l] False sh(1)
      by (intro world_ok_top [OF ok, where a = a])
        (simp_all add: r_def stack_push_back_def set_functor_def Let_def log_world_update [OF pc] c sh(2-) numeral_2_eq_2
          setLevel_def live_logs_def a_def)
    ultimately show ?thesis unfolding a_def by blast
  qed
qed

lemma erase_facts:
  assumes "distinct (lw_items w)" and "p \<in> set (lw_items w)" and "p < length (lw_logs w)" and "use_count w p = 2"
    and "lw_functor w = Some (last (lw_items w))" and "lw_level w = api_getLevel api (log_obj w (last (lw_items w)))"
  obtains w' b where "stack_erase api p w = Next (w', b)"
    "lw_items w' = filter (\<lambda>q. q \<noteq> p) (lw_items w)" "length (lw_logs w') = length (lw_logs w)"
    "\<And>q. log_obj w' q = log_obj w q" "\<And>q. use_count w' q = (if q = p then 1 else use_count w q)"
    "lw_handles w' = lw_handles w" "lw_cout w' = lw_cout w"
    "lw_items w' \<noteq> [] \<Longrightarrow> lw_functor w' = Some (last (lw_items w'))"
    "lw_items w' \<noteq> [] \<Longrightarrow> lw_level w' = api_getLevel api (log_obj w (last (lw_items w')))"
proof (cases "last (lw_items w) = p")
  case True
  have ne: "lw_items w \<noteq> []" using assms(2) by auto
  let ?w = "set_count p 1 (w\<lparr>lw_items := butlast (lw_items w)\<rparr>)"
  have "stack_erase api p w = Next (set_functor api ?w)"
    using True ne assms(4) by (simp add: stack_erase_def release_def)
  then have "stack_erase api p w = Next (fst (set_functor api ?w), snd (set_functor api ?w))" by simp
  then show thesis
    by (rule that)
      (use True ne assms(1,3) distinct_butlast_filter [of "lw_items w"] in
        \<open>simp_all add: log_world_update\<close>)
next
  case False
  have ne: "lw_items w \<noteq> []" using assms(2) by auto
  have "count_list (lw_items w) p = Suc 0" using assms(1,2) by (rule count_list_distinct)
  then have "stack_erase api p w =
      Next (set_count p 1 (w\<lparr>lw_items := filter (\<lambda>q. q \<noteq> p) (lw_items w)\<rparr>), False)"
    using False assms(4) by (simp add: stack_erase_def release_def)
  then show thesis
    by (rule that)
      (use last_filter_neq [OF ne False] assms in \<open>simp_all add: log_world_update\<close>)
qed

lemma reset_world_ok:
  assumes ok: "world_ok api good ended w" and h: "h < length (lw_handles w)"
  shows "\<exists>w'. logger_reset api h w = Next w' \<and> world_ok api good ended w'"
proof (cases "lw_handles w ! h")
  case (Some p)
  define a where "a = log_obj w p"
  define w1 where "w1 = (if api_is_cout api a then w\<lparr>lw_handles := (lw_handles w)[h := None], lw_cout := False\<rparr>
    else w\<lparr>lw_handles := (lw_handles w)[h := None]\<rparr>)"
  have "Some p \<in> set (lw_handles w)" using Some h nth_mem by metis
  then have "p \<in> set (live_logs w)" unfolding live_logs_def by force
  then have p: "p \<in> set (lw_items w)" "p < length (lw_logs w)" "use_count w p = 2" "good a"
    using ok by (auto simp: world_ok_def a_def)
  obtain a' b where stop: "api_stop api a = Next (a', b)" "ended a'" using stop_ok p(4) by blast
  have w1: "log_obj w1 q = log_obj w q" "use_count w1 q = use_count w q" "lw_items w1 = lw_items w"
    "lw_logs w1 = lw_logs w" "lw_functor w1 = lw_functor w" "lw_level w1 = lw_level w"
    "lw_handles w1 = (lw_handles w)[h := None]" "lw_cout w1 = (\<not> api_is_cout api a \<and> lw_cout w)" for q
    by (simp_all add: w1_def)
  have live: "live_logs w1 = filter (\<lambda>q. q \<noteq> p) (lw_items w)"
    using live_reset [OF _ h Some] ok by (simp add: live_logs_def w1 world_ok_def)
  have top: "lw_functor w1 = Some (last (lw_items w1))" "lw_level w1 = api_getLevel api (log_obj w1 (last (lw_items w1)))"
    using ok p(1) unfolding w1 by (auto simp: world_ok_def)
  have "distinct (lw_items w1)" "p \<in> set (lw_items w1)" "p < length (lw_logs w1)" "use_count w1 p = 2"
    using ok p w1 by (simp_all add: world_ok_def)
  from erase_facts [OF this top] obtain w2 b2 where er: "stack_erase api p w1 = Next (w2, b2)"
    and er2: "lw_items w2 = filter (\<lambda>q. q \<noteq> p) (lw_items w)" "length (lw_logs w2) = length (lw_logs w)"
    "\<And>q. log_obj w2 q = log_obj w q" "\<And>q. use_count w2 q = (if q = p then 1 else use_count w q)"
    "lw_handles w2 = lw_handles w1" "lw_cout w2 = lw_cout w1"
    "lw_items w2 \<noteq> [] \<Longrightarrow> lw_functor w2 = Some (last (lw_items w2))"
    "lw_items w2 \<noteq> [] \<Longrightarrow> lw_level w2 = api_getLevel api (log_obj w (last (lw_items w2)))"
    unfolding w1 by blast
  let ?w = "set_count p 0 (set_obj p a' w2)"
  have pl: "p < length (lw_logs w2)" "p < length (lw_logs (set_obj p a' w2))" using p(2) er2(2) by simp_all
  have "logger_reset api h w = Next ?w"
    using Some er stop er2(3,4)
    by (simp add: logger_reset_def Let_def a_def [symmetric] w1_def release_def del: One_nat_def split: if_splits)
  moreover have "log_obj ?w q = (if q = p then a' else log_obj w q)" "use_count ?w q = (if q = p then 0 else use_count w q)" for q
    by (simp_all add: log_world_update [OF pl(1)] log_world_update [OF pl(2)] er2)
  then have "world_ok api good ended ?w"
    by (intro world_ok_drop [OF ok p(1)]) (use er2 live w1 stop(2) a_def in \<open>auto simp: live_logs_def\<close>)
  ultimately show ?thesis by blast
qed (use assms in \<open>auto simp: logger_reset_def\<close>)

lemma log_func_top:
  assumes "world_ok api good ended w"
  shows "log_func api lv line w =
    (if live_logs w = [] then Next w
     else bind_outcome (api_push api lv line (log_obj w (last (live_logs w))))
       (\<lambda>a. Next (set_obj (last (live_logs w)) a w)) (\<lambda>a. set_obj (last (live_logs w)) a w))"
proof (cases "lw_items w = []")
  case True
  then have "use_count w p = 0" for p
    using assms by (cases "p < length (lw_logs w)") (auto simp: world_ok_def use_count_def)
  then show ?thesis using True assms by (auto simp: log_func_def world_ok_def split: option.splits)
next
  case False
  then have "use_count w (last (lw_items w)) = 2" by (intro world_ok_member(2) [OF assms]) simp
  then show ?thesis using False assms by (auto simp: log_func_def world_ok_def)
qed

lemma step_world_ok:
  assumes v: valid and ok: "world_ok api good ended w"
  shows "case log_op_step api mk turn c w of
      Next w' \<Rightarrow> world_ok api good ended w'
    | Aborted w' \<Rightarrow> \<exists>line. c = LogLine level_Terminate line
    | _ \<Rightarrow> False"
proof (cases c)
  case (MkLogger k l)
  then show ?thesis using make_world_ok [OF v ok, of k l] by auto
next
  case (ResetLogger h)
  then show ?thesis using reset_world_ok [OF ok, of h] ok by auto
next
  case (LogLine lv line)
  show ?thesis
  proof (cases "lw_items w = []")
    case False
    let ?p = "last (lw_items w)"
    have p: "?p \<in> set (lw_items w)" "good (log_obj w ?p)"
      using False world_ok_member(3) [OF ok] by simp_all
    have "live_logs w = lw_items w" using ok by (simp add: world_ok_def)
    then show ?thesis
      using push_ok [OF p(2), of lv line] set_obj_world_ok [OF ok p(1)] False
      by (auto simp: LogLine log_func_top [OF ok] split: outcome.splits)
  qed (use ok in \<open>simp add: LogLine log_func_top [OF ok] world_ok_def\<close>)
next
  case (ThrottleLogger h n)
  have "world_ok api good ended (fst (logger_throttleSize api h n w))" if h: "h < length (lw_handles w)"
  proof (cases "lw_handles w ! h")
    case (Some p)
    then have "Some p \<in> set (lw_handles w)" using h nth_mem by metis
    then have "p \<in> set (live_logs w)" unfolding live_logs_def by force
    then have p: "p \<in> set (lw_items w)" "good (log_obj w p)" using ok by (auto simp: world_ok_def)
    then show ?thesis
      using set_obj_world_ok [OF ok p(1)] throttle_ok [OF p(2)] ok Some by (simp add: logger_throttleSize_def)
  qed (use ok in \<open>simp add: logger_throttleSize_def\<close>)
  then show ?thesis using ok by (simp add: ThrottleLogger)
next
  case (WorkerTurn p)
  show ?thesis
  proof (cases "use_count w p = 0")
    case False
    then have "p < length (lw_logs w)" by (auto simp: use_count_def split: if_splits)
    then have "p \<in> set (lw_items w)" using world_ok_dead [OF ok, of p] False by metis
    note p = this world_ok_member(3) [OF ok this]
    have "world_ok api good ended (set_obj p (turn (log_obj w p)) w)"
      using turn_ok [OF p(2)] by (intro set_obj_world_ok [OF ok p(1)]) simp_all
    then show ?thesis using False by (simp add: WorkerTurn)
  qed (use ok in \<open>simp add: WorkerTurn\<close>)
qed

lemma run_world_ok:
  assumes v: valid
  shows "world_ok api good ended w \<Longrightarrow>
    (case run_log_ops api mk turn cs w of
       Next w' \<Rightarrow> world_ok api good ended w'
     | Aborted w' \<Rightarrow> \<exists>line. LogLine level_Terminate line \<in> set cs
     | _ \<Rightarrow> False)"
proof (induction cs arbitrary: w)
  case (Cons c cs)
  then show ?case
    using step_world_ok [OF v Cons.prems, of c] Cons.IH
    by (cases "log_op_step api mk turn c w") (fastforce split: outcome.splits)+
qed simp

end

definition ostream_good :: "'q tbb_queue \<Rightarrow> 'q ostream_log \<Rightarrow> bool" where
  "ostream_good tbb s \<longleftrightarrow> tbb_queue_ok tbb \<and> ol_running s \<and> (\<exists>k l h. ol_reach tbb k l s h)"

definition ostream_ended :: "'q tbb_queue \<Rightarrow> 'q ostream_log \<Rightarrow> bool" where
  "ostream_ended tbb s \<longleftrightarrow>
     \<not> ol_running s \<and> \<not> ol_runner s \<and> (\<exists>k l h. ol_reach tbb k l s h \<and> ol_out s = lines_text h)"

lemma ostream_push_contract:
  assumes "ostream_good tbb a"
  shows "case log_push tbb lv line a of
      Next a' \<Rightarrow> ostream_good tbb a' \<and> ol_level a' = ol_level a \<and> is_cout_logger a' = is_cout_logger a
    | Aborted a' \<Rightarrow> lv = level_Terminate
    | _ \<Rightarrow> False"
proof -
  obtain k l h where ok: "tbb_queue_ok tbb" "ol_reach tbb k l a h" "ol_running a"
    using assms by (auto simp: ostream_good_def)
  obtain a1 b where e: "push_emplace tbb line a = (a1, b)" by (meson surj_pair)
  have a1: "ol_running a1" "ol_level a1 = ol_level a" "is_cout_logger a1 = is_cout_logger a"
    using e ok(3) by (auto simp: push_emplace_def is_cout_logger_def split: if_splits)
  have r: "ol_reach tbb k l a1 (if b \<and> ol_running a then h @ [line] else h)" by (rule ol_reach.Emplaced) fact+
  show ?thesis
    using a1 r ok(1) log_stop_reach [OF ok(1) r]
    by (cases b) (auto simp: log_push_def e ostream_good_def)
qed

lemma ostream_stop_contract:
  assumes "ostream_good tbb a"
  shows "\<exists>a' b. log_stop tbb a = Next (a', b) \<and> ostream_ended tbb a'"
proof -
  obtain k l h where ok: "tbb_queue_ok tbb" "ol_reach tbb k l a h" "ol_running a"
    using assms by (auto simp: ostream_good_def)
  obtain a' where a': "log_stop tbb a = Next (a', True)" "ol_reach tbb k l a' h" "\<not> ol_running a'" "\<not> ol_runner a'"
    using log_stop_reach [OF ok(1,2)] ok(3) by auto
  have "ol_out a' = lines_text h" using ol_reach_inv [OF a'(2) ok(1)] a'(4) by (simp add: ol_inv_def)
  then show ?thesis using a' by (auto simp: ostream_ended_def)
qed

lemma ostream_turn_contract:
  assumes "ostream_good tbb a"
  shows "ostream_good tbb (worker_turn tbb a) \<and> ol_level (worker_turn tbb a) = ol_level a \<and>
    is_cout_logger (worker_turn tbb a) = is_cout_logger a"
proof -
  obtain k l h where ok: "tbb_queue_ok tbb" "ol_reach tbb k l a h" "ol_running a"
    using assms by (auto simp: ostream_good_def)
  have run: "ol_runner a" "ol_tgt a" using ol_reach_inv [OF ok(2,1)] ok(3) by (auto simp: ol_inv_def)
  from ok(1) show ?thesis
  proof (cases rule: worker_iter_cases [where s = a])
    case Block
    then have "tbb_pop tbb (ol_queue a) = None"
      using tbb_queue_facts(4) [OF ok(1), of "ol_queue a"] by (cases "tbb_pop tbb (ol_queue a)") auto
    then show ?thesis
      using ol_reach.Waiting [OF ok(2) run(1)] ok Block run
      by (auto simp: worker_turn_def ostream_good_def worker_wait_def is_cout_logger_def)
  next
    case (Line line q)
    then show ?thesis
      using ol_reach.Worked [OF ok(2) run(1)] ok run
      by (auto simp: worker_turn_def ostream_good_def is_cout_logger_def)
  next
    case (Mark q)
    then show ?thesis using ol_reach_inv [OF ok(2,1)] ok(3) by (simp add: ol_inv_def)
  qed
qed

lemma ostream_api_simps [simp]:
  "api_push (ostream_api tbb) = log_push tbb" "api_stop (ostream_api tbb) = log_stop tbb"
  "api_throttleSize (ostream_api tbb) = log_throttleSize" "api_size (ostream_api tbb) = log_size tbb"
  "api_getLevel (ostream_api tbb) = ol_level" "api_is_cout (ostream_api tbb) = is_cout_logger"
  by (simp_all add: ostream_api_def)

lemma ostream_throttle_contract:
  assumes "ostream_good tbb a"
  shows "ostream_good tbb (log_throttleSize n a) \<and> ol_level (log_throttleSize n a) = ol_level a \<and>
    is_cout_logger (log_throttleSize n a) = is_cout_logger a"
proof -
  have "\<exists>k l h. ol_reach tbb k l (log_throttleSize n a) h"
    using assms ol_reach.Throttled unfolding ostream_good_def by blast
  then show ?thesis using assms by (simp add: ostream_good_def log_throttleSize_def is_cout_logger_def)
qed

interpretation ostream: logger_contract "tbb_queue_ok tbb" "ostream_api tbb" "started_log tbb" "worker_turn tbb"
    "ostream_good tbb" "ostream_ended tbb" for tbb :: "'q tbb_queue"
proof (unfold_locales, unfold ostream_api_simps)
  show "ostream_good tbb (started_log tbb k l)" if "tbb_queue_ok tbb" for k l
    using that ol_reach.Started [of tbb k l] by (auto simp: ostream_good_def started_log_def ol_start_def ol_new_def)
qed (fact ostream_push_contract ostream_stop_contract ostream_turn_contract ostream_throttle_contract)+

text \<open>C2. A program that makes and resets loggers in any order, logs lines and throttles, while the worker threads take
  turns in between, never waits forever and never writes to a target that is gone; it ends early only by the abort after a
  line of the terminate level. At every moment the stack holds the living loggers in the order of their construction; a
  line goes to the last of them alone, or nowhere when there is none; the current level is the last one's; at most one
  writes to cout; and a logger that is gone has written all the lines it took.\<close>

theorem logger_stack_correct:
  assumes "tbb_queue_ok tbb"
  shows "case run_log_ops (ostream_api tbb) (started_log tbb) (worker_turn tbb) ops log_world_init of
      Next w \<Rightarrow>
        lw_items w = live_logs w \<and>
        log_func (ostream_api tbb) lv line w =
          (if live_logs w = [] then Next w
           else bind_outcome (log_push tbb lv line (log_obj w (last (live_logs w))))
             (\<lambda>a. Next (set_obj (last (live_logs w)) a w)) (\<lambda>a. set_obj (last (live_logs w)) a w)) \<and>
        (live_logs w \<noteq> [] \<longrightarrow> getLevel (lw_level w) = ol_level (log_obj w (last (live_logs w)))) \<and>
        (\<forall>p \<in> set (live_logs w). \<forall>q \<in> set (live_logs w).
           is_cout_logger (log_obj w p) \<and> is_cout_logger (log_obj w q) \<longrightarrow> p = q) \<and>
        (\<forall>p < length (lw_logs w). p \<notin> set (live_logs w) \<longrightarrow>
           \<not> ol_runner (log_obj w p) \<and>
           (\<exists>k l h. ol_reach tbb k l (log_obj w p) h \<and> ol_out (log_obj w p) = lines_text h))
    | Aborted w \<Rightarrow> \<exists>line. LogLine level_Terminate line \<in> set ops
    | _ \<Rightarrow> False"
proof -
  have "world_ok (ostream_api tbb) (ostream_good tbb) (ostream_ended tbb) log_world_init"
    by (simp add: world_ok_def log_world_init_def live_logs_def)
  note run = ostream.run_world_ok [OF assms this, of ops]
  show ?thesis
  proof (cases "run_log_ops (ostream_api tbb) (started_log tbb) (worker_turn tbb) ops log_world_init")
    case (Next w)
    then have ok: "world_ok (ostream_api tbb) (ostream_good tbb) (ostream_ended tbb) w" using run by simp
    show ?thesis
      using ok ostream.log_func_top [OF ok, of lv line] unfolding Next world_ok_def getLevel_def ostream_ended_def
      by simp
  qed (use run in auto)
qed

subsection \<open>A queue\<close>

definition list_queue :: "line_item list tbb_queue" where
  "list_queue =
     \<lparr>tbb_new = [], tbb_emplace = (\<lambda>x q. q @ [x]),
      tbb_pop = (\<lambda>q. case q of [] \<Rightarrow> None | x # q' \<Rightarrow> Some (x, q')),
      tbb_size = (\<lambda>w q. int (length q) - int w), tbb_items = (\<lambda>q. q)\<rparr>"

lemma list_queue_ok: "tbb_queue_ok list_queue"
  by (auto simp: tbb_queue_ok_def list_queue_def split: list.splits)

lemmas logger_eval = list_queue_def ol_start_def ol_new_def push_emplace_def queue_size_def worker_iter_def worker_wait_def
  started_log_def worker_turn_def stop_begin_def stop_end_def ol_stop_def filelog_stop_def log_stop_def worker_def
  log_push_def log_throttleSize_def is_cout_logger_def lines_text_def pending_def

lemma list_queue_reach:
  "ol_reach list_queue OstreamLog 1
     ((started_log list_queue OstreamLog 1)\<lparr>ol_queue := [Some ''a'', Some ''b'']\<rparr>) [''a'', ''b'']"
proof -
  have 0: "ol_reach list_queue OstreamLog 1 (started_log list_queue OstreamLog 1) []"
    using ol_reach.Started [of list_queue OstreamLog 1] by (simp add: started_log_def)
  have 1: "ol_reach list_queue OstreamLog 1 ((started_log list_queue OstreamLog 1)\<lparr>ol_queue := [Some ''a'']\<rparr>) [''a'']"
    using ol_reach.Emplaced [OF 0, of "''a''"] by (simp add: logger_eval)
  show ?thesis using ol_reach.Emplaced [OF 1, of "''b''"] by (simp add: logger_eval)
qed

theorem log_worker_invariant_witness:
  "ol_runner ((started_log list_queue OstreamLog 1)\<lparr>ol_queue := [Some ''a'', Some ''b'']\<rparr>) \<and>
   pending list_queue ((started_log list_queue OstreamLog 1)\<lparr>ol_queue := [Some ''a'', Some ''b'']\<rparr>) = [''a'', ''b''] \<and>
   ol_out ((started_log list_queue OstreamLog 1)\<lparr>ol_queue := [Some ''a'', Some ''b'']\<rparr>) @ ''a'' @ [CHR 0x0A] @ ''b'' @ [CHR 0x0A] =
     lines_text [''a'', ''b'']"
  using log_worker_invariant [OF list_queue_ok list_queue_reach] by (simp add: logger_eval)

text \<open>C11. A stop returns, whatever happened before: the thread is joined, and a logger that was running has then
  written every line it took. A push of another level returns with its line queued, a push of the terminate level
  ends the process with everything written, its own line last; but above the throttle size both are dropped,
  the line and the end of the process.\<close>

theorem log_stop_push_return:
  assumes "tbb_queue_ok tbb" and "ol_reach tbb k l s h"
  shows "(\<exists>s'. log_stop tbb s = Next (s', ol_running s) \<and> \<not> ol_running s' \<and>
            (ol_running s \<longrightarrow> \<not> ol_runner s' \<and> ol_out s' = lines_text h)) \<and>
         (if ol_throttle s < queue_size tbb s then log_push tbb lv line s = Next s
          else if lv = level_Terminate
            then \<exists>s'. log_push tbb lv line s = Aborted s' \<and> (ol_running s \<longrightarrow> ol_out s' = lines_text (h @ [line]))
            else \<exists>s'. log_push tbb lv line s = Next s' \<and> ol_running s' = ol_running s \<and>
                   tbb_items tbb (ol_queue s') = tbb_items tbb (ol_queue s) @ [Some line])"
proof -
  have ended: "ol_out s' = lines_text h'" if "ol_reach tbb k l s' h'" "\<not> ol_runner s'" for s' h'
    using ol_reach_inv [OF that(1) assms(1)] that(2) by (simp add: ol_inv_def)
  have stop: "\<exists>s'. log_stop tbb s = Next (s', ol_running s) \<and> \<not> ol_running s' \<and>
            (ol_running s \<longrightarrow> \<not> ol_runner s' \<and> ol_out s' = lines_text h)"
    using log_stop_reach [OF assms] ended by blast
  let ?s = "s\<lparr>ol_queue := tbb_emplace tbb (Some line) (ol_queue s)\<rparr>"
  have "\<exists>s'. log_push tbb lv line s = Aborted s' \<and> (ol_running s \<longrightarrow> ol_out s' = lines_text (h @ [line]))"
    if t: "\<not> ol_throttle s < queue_size tbb s" "lv = level_Terminate"
  proof -
    have e: "push_emplace tbb line s = (?s, True)" using t by (simp add: push_emplace_def)
    obtain s' where "log_stop tbb ?s = Next (s', ol_running s)" "ol_reach tbb k l s' (if ol_running s then h @ [line] else h)"
      "ol_running s \<longrightarrow> \<not> ol_runner s'"
      using log_stop_reach [OF assms(1) ol_reach.Emplaced [OF assms(2) e]] by auto
    then show ?thesis using t(2) e ended [of s'] by (auto simp: log_push_def)
  qed
  then show ?thesis
    using stop by (simp add: log_push_def push_emplace_def tbb_queue_facts [OF assms(1)])
qed

theorem log_stop_push_return_witness:
  "\<exists>s'. log_stop list_queue ((started_log list_queue OstreamLog 1)\<lparr>ol_queue := [Some ''a'', Some ''b'']\<rparr>) = Next (s', True) \<and>
     ol_out s' = lines_text [''a'', ''b'']"
  using log_stop_push_return [OF list_queue_ok list_queue_reach] by (simp add: logger_eval)

text \<open>A terminate line on a full queue is dropped, and the process goes on.\<close>

lemma throttled_terminate_dropped:
  "ol_throttle s < queue_size tbb s \<Longrightarrow> log_push tbb level_Terminate line s = Next s"
  by (simp add: log_push_def push_emplace_def)

text \<open>The size of an idle logger, whose worker waits on its empty queue, is the greatest \<^verbatim>\<open>size_t\<close>.\<close>

lemma idle_size_wraps:
  assumes "tbb_queue_ok tbb" and "tbb_items tbb (ol_queue s) = []"
  shows "log_size tbb (worker_wait s) = - 1"
  using assms by (simp add: log_size_def queue_size_def worker_wait_def tbb_queue_facts)

theorem logger_stack_correct_witness:
  "case run_log_ops (ostream_api list_queue) (started_log list_queue) (worker_turn list_queue)
      [MkLogger CoutLog 1, MkLogger FileLog 2, LogLine 3 ''x'', WorkerTurn 1, ResetLogger 1] log_world_init of
     Next w \<Rightarrow> lw_items w = live_logs w
   | Aborted w \<Rightarrow> False
   | _ \<Rightarrow> False"
  using logger_stack_correct [OF list_queue_ok,
      of "[MkLogger CoutLog 1, MkLogger FileLog 2, LogLine 3 ''x'', WorkerTurn 1, ResetLogger 1]"]
  by (auto split: outcome.splits)

end
