(* ===== verification/Resources.thy ===== *)
theory Resources
  imports NstlPrelude "HOL-Library.Multiset"
begin

text \<open>
  The classes that own a resource: \<^verbatim>\<open>custom_raii\<close> of \<^verbatim>\<open>nstl/handle_raii.hpp\<close> with the tools of
  \<^verbatim>\<open>handle_raii.cpp\<close>, \<^verbatim>\<open>env_var_raii\<close>, \<^verbatim>\<open>temp_dir\<close> and \<^verbatim>\<open>temp_file\<close>. Objects are numbered; what a destructor
  frees is recorded in order.
\<close>

section \<open>Definitions\<close>

subsection \<open>handle_raii.hpp, handle_raii.cpp\<close>

record 'h raii_tools =
  invalid_value :: 'h
  valid_handle :: "'h \<Rightarrow> bool"

definition FileIntHandle_valid :: "int \<Rightarrow> bool" where
  "FileIntHandle_valid hnd \<longleftrightarrow> 0 < hnd"

definition FileIntHandle :: "int raii_tools" where
  "FileIntHandle = \<lparr>invalid_value = - 1, valid_handle = FileIntHandle_valid\<rparr>"

text \<open>Windows handles are pointers; the null pointer is 0 and \<^verbatim>\<open>INVALID_HANDLE_VALUE\<close> is all ones.\<close>

definition WindowsHandle :: "u64 raii_tools" where
  "WindowsHandle = \<lparr>invalid_value = - 1, valid_handle = (\<lambda>hnd. hnd \<noteq> - 1 \<and> hnd \<noteq> 0)\<rparr>"

text \<open>The handle of each object, and the handles that were freed.\<close>

record 'h raii_world =
  rw_objs :: "'h list"
  rw_freed :: "'h list"

definition raii_reset :: "'h raii_tools \<Rightarrow> nat \<Rightarrow> 'h \<Rightarrow> 'h raii_world \<Rightarrow> 'h raii_world" where
  "raii_reset t i hndlr w =
     (let w = (if valid_handle t (rw_objs w ! i)
               then w\<lparr>rw_freed := rw_freed w @ [rw_objs w ! i], rw_objs := (rw_objs w)[i := invalid_value t]\<rparr>
               else w)
      in w\<lparr>rw_objs := (rw_objs w)[i := hndlr]\<rparr>)"

definition raii_release :: "'h raii_tools \<Rightarrow> nat \<Rightarrow> 'h raii_world \<Rightarrow> 'h raii_world \<times> 'h" where
  "raii_release t i w = (w\<lparr>rw_objs := (rw_objs w)[i := invalid_value t]\<rparr>, rw_objs w ! i)"

definition raii_swap :: "nat \<Rightarrow> nat \<Rightarrow> 'h raii_world \<Rightarrow> 'h raii_world" where
  "raii_swap i j w = w\<lparr>rw_objs := (rw_objs w)[i := rw_objs w ! j, j := rw_objs w ! i]\<rparr>"

definition raii_swap_value :: "nat \<Rightarrow> 'h \<Rightarrow> 'h raii_world \<Rightarrow> 'h raii_world \<times> 'h" where
  "raii_swap_value i h w = (w\<lparr>rw_objs := (rw_objs w)[i := h]\<rparr>, rw_objs w ! i)"

definition raii_new :: "'h \<Rightarrow> 'h raii_world \<Rightarrow> 'h raii_world" where
  "raii_new h w = w\<lparr>rw_objs := rw_objs w @ [h]\<rparr>"

definition raii_move_new :: "'h raii_tools \<Rightarrow> nat \<Rightarrow> 'h raii_world \<Rightarrow> 'h raii_world" where
  "raii_move_new t j w = w\<lparr>rw_objs := (rw_objs w)[j := invalid_value t] @ [rw_objs w ! j]\<rparr>"

definition raii_move_assign :: "'h raii_tools \<Rightarrow> nat \<Rightarrow> nat \<Rightarrow> 'h raii_world \<Rightarrow> 'h raii_world" where
  "raii_move_assign t i j w =
     (if i \<noteq> j then raii_swap i j (raii_reset t i (invalid_value t) w) else w)"

text \<open>The destructor; the slot of the object stays, without a handle.\<close>

definition raii_delete :: "'h raii_tools \<Rightarrow> nat \<Rightarrow> 'h raii_world \<Rightarrow> 'h raii_world" where
  "raii_delete t i w = raii_reset t i (invalid_value t) w"

definition raii_bool :: "'h raii_tools \<Rightarrow> nat \<Rightarrow> 'h raii_world \<Rightarrow> bool" where
  "raii_bool t i w = valid_handle t (rw_objs w ! i)"

datatype 'h raii_op =
    RNew 'h
  | RMoveNew nat
  | RMoveAssign nat nat
  | RReset nat 'h
  | RRelease nat
  | RSwap nat nat
  | RSwapValue nat 'h
  | RDelete nat

text \<open>One operation, with the handles that come in and go out as bare values. Objects that do not exist are not
  named.\<close>

fun raii_step :: "'h raii_tools \<Rightarrow> 'h raii_op \<Rightarrow> 'h raii_world \<Rightarrow> 'h raii_world \<times> 'h list \<times> 'h list" where
  "raii_step t (RNew h) w = (raii_new h w, [h], [])"
| "raii_step t (RMoveNew j) w = (if j < length (rw_objs w) then raii_move_new t j w else w, [], [])"
| "raii_step t (RMoveAssign i j) w =
     (if i < length (rw_objs w) \<and> j < length (rw_objs w) then raii_move_assign t i j w else w, [], [])"
| "raii_step t (RReset i h) w = (if i < length (rw_objs w) then (raii_reset t i h w, [h], []) else (w, [], []))"
| "raii_step t (RRelease i) w =
     (if i < length (rw_objs w) then (case raii_release t i w of (w, h) \<Rightarrow> (w, [], [h])) else (w, [], []))"
| "raii_step t (RSwap i j) w =
     (if i < length (rw_objs w) \<and> j < length (rw_objs w) then raii_swap i j w else w, [], [])"
| "raii_step t (RSwapValue i h) w =
     (if i < length (rw_objs w) then (case raii_swap_value i h w of (w, h') \<Rightarrow> (w, [h], [h'])) else (w, [], []))"
| "raii_step t (RDelete i) w = (if i < length (rw_objs w) then raii_delete t i w else w, [], [])"

fun raii_run :: "'h raii_tools \<Rightarrow> 'h raii_op list \<Rightarrow> 'h raii_world \<Rightarrow> 'h raii_world \<times> 'h list \<times> 'h list" where
  "raii_run t [] w = (w, [], [])"
| "raii_run t (c # cs) w =
     (case raii_step t c w of (w, ins, outs) \<Rightarrow>
        case raii_run t cs w of (w, ins', outs') \<Rightarrow> (w, ins @ ins', outs @ outs'))"

subsection \<open>env_var_raii.cpp\<close>

type_synonym environment = "string \<rightharpoonup> string"

text \<open>\<^verbatim>\<open>setenv\<close> and \<^verbatim>\<open>unsetenv\<close> refuse an empty name and one with an equals sign; the first argument tells whether the
  call finds memory.\<close>

definition env_name_ok :: "string \<Rightarrow> bool" where
  "env_name_ok name \<longleftrightarrow> name \<noteq> [] \<and> CHR ''='' \<notin> set name"

definition loc_setenv :: "bool \<Rightarrow> string \<Rightarrow> string \<Rightarrow> environment \<Rightarrow> environment \<times> bool" where
  "loc_setenv mem name val env = (if mem \<and> env_name_ok name then (env(name \<mapsto> val), True) else (env, False))"

definition loc_unsetenv :: "string \<Rightarrow> environment \<Rightarrow> environment \<times> bool" where
  "loc_unsetenv name env = (if env_name_ok name then (env(name := None), True) else (env, False))"

record env_var_raii =
  ev_name :: string
  ev_prev :: "string option"
  ev_noop :: bool

definition env_var_new :: "bool \<Rightarrow> string \<Rightarrow> cstring \<Rightarrow> environment \<Rightarrow> environment \<times> env_var_raii result" where
  "env_var_new mem name val env =
     (if name = [] then (env, Inl (NstlException ''enivronment variable name cannot be nullptr''))
      else let prev = env name in
        case val of
          Some v \<Rightarrow>
            (case loc_setenv mem name v env of
               (env, ok) \<Rightarrow>
                 (env, throw_if (\<not> ok) (NstlException '' enivronment variable cannot be set'')
                         (Inr \<lparr>ev_name = name, ev_prev = prev, ev_noop = False\<rparr>)))
        | None \<Rightarrow>
            (if prev \<noteq> None
             then (case loc_unsetenv name env of
                     (env, ok) \<Rightarrow>
                       (env, throw_if (\<not> ok) (NstlException '' cannot be removed'')
                               (Inr \<lparr>ev_name = name, ev_prev = prev, ev_noop = False\<rparr>)))
             else (env, Inr \<lparr>ev_name = name, ev_prev = prev, ev_noop = True\<rparr>)))"

definition env_var_delete :: "bool \<Rightarrow> env_var_raii \<Rightarrow> environment \<Rightarrow> environment" where
  "env_var_delete mem r env =
     (if ev_noop r then env
      else case ev_prev r of
             Some v \<Rightarrow> fst (loc_setenv mem (ev_name r) v env)
           | None \<Rightarrow> fst (loc_unsetenv (ev_name r) env))"

definition get_env_var :: "cstring \<Rightarrow> environment \<Rightarrow> string result" where
  "get_env_var name env =
     (case name of
        None \<Rightarrow> Inl (NstlException ''environment variable name cannot be nullptr'')
      | Some n \<Rightarrow> Inr (case env n of Some v \<Rightarrow> v | None \<Rightarrow> []))"

text \<open>Nested scopes, each with a variable of its own; a constructor that throws ends them all. The result is the
  environment that the innermost code sees, unless one throws, and the one after the last scope.\<close>

fun env_scopes :: "(bool \<times> string \<times> cstring) list \<Rightarrow> environment \<Rightarrow> environment option \<times> environment" where
  "env_scopes [] env = (Some env, env)"
| "env_scopes ((mem, name, val) # scopes) env =
     (case env_var_new mem name val env of
        (env, Inl e) \<Rightarrow> (None, env)
      | (env, Inr r) \<Rightarrow>
          (case env_scopes scopes env of (seen, env) \<Rightarrow> (seen, env_var_delete True r env)))"

subsection \<open>temp_dir.cpp\<close>

text \<open>\<^verbatim>\<open>parent / name\<close> of \<^verbatim>\<open>std::filesystem\<close>: an absolute name replaces the parent.\<close>

definition path_div :: "string \<Rightarrow> string \<Rightarrow> string" where
  "path_div parent name =
     (if name \<noteq> [] \<and> hd name = CHR ''/'' then name
      else if parent = [] \<or> last parent = CHR ''/'' then parent @ name
      else parent @ ''/'' @ name)"

definition temp_directory_path :: "environment \<Rightarrow> string result \<Rightarrow> string result" where
  "temp_directory_path env std_path =
     (case env ''TMPDIR'' of Some raw \<Rightarrow> if raw \<noteq> [] then Inr raw else std_path | None \<Rightarrow> std_path)"

text \<open>The engine gives the next letter; the distribution of the letters is not part of the model.\<close>

fun random_letters :: "('g \<Rightarrow> char \<times> 'g) \<Rightarrow> nat \<Rightarrow> 'g \<Rightarrow> string \<times> 'g" where
  "random_letters engine 0 g = ([], g)"
| "random_letters engine (Suc n) g =
     (case engine g of (c, g) \<Rightarrow> case random_letters engine n g of (cs, g) \<Rightarrow> (c # cs, g))"

definition random_file_name :: "('g \<Rightarrow> char \<times> 'g) \<Rightarrow> nat \<Rightarrow> 'g \<Rightarrow> (string \<times> 'g) result" where
  "random_file_name engine len g =
     throw_if (len = 0) (NstlException ''0 name length doesn't make sense'') (Inr (random_letters engine len g))"

text \<open>The calls on directories: \<^verbatim>\<open>create_directories\<close>, \<^verbatim>\<open>chmod\<close> and \<^verbatim>\<open>remove_all\<close> with its error code.\<close>

record 'f dir_api =
  create_directories :: "string \<Rightarrow> 'f \<Rightarrow> 'f \<times> bool result"
  chmod_750 :: "string \<Rightarrow> 'f \<Rightarrow> 'f \<times> bool"
  remove_all :: "string \<Rightarrow> 'f \<Rightarrow> 'f \<times> bool"

record temp_dir =
  td_target :: string
  td_owned :: bool

definition temp_dir_new :: "'f dir_api \<Rightarrow> string \<Rightarrow> string \<Rightarrow> 'f \<Rightarrow> 'f \<times> temp_dir result" where
  "temp_dir_new api parent name f =
     (let target = path_div parent name in
      case create_directories api target f of
        (f, Inl e) \<Rightarrow> (f, Inl e)
      | (f, Inr owned) \<Rightarrow>
          (if \<not> owned then (f, Inl (NstlException '' cannot be created''))
           else case chmod_750 api target f of
                  (f, ok) \<Rightarrow>
                    (f, throw_if (\<not> ok) (NstlException ''chmod 750 failed on '')
                          (Inr \<lparr>td_target = target, td_owned = owned\<rparr>))))"

definition temp_dir_delete :: "'f dir_api \<Rightarrow> temp_dir \<Rightarrow> 'f \<Rightarrow> 'f" where
  "temp_dir_delete api d f = (if \<not> td_owned d then f else fst (remove_all api (td_target d) f))"

text \<open>The files that exist, those this code made and those it removed; and the objects, by number.\<close>

record temp_file =
  tf_target :: string
  tf_owned :: bool
  tf_readable :: bool
  tf_handler :: int

record file_world =
  fw_files :: "string list"
  fw_made :: "string list"
  fw_removed :: "string list"
  fw_objs :: "temp_file list"

definition temp_file_empty :: temp_file where
  "temp_file_empty = \<lparr>tf_target = [], tf_owned = False, tf_readable = False, tf_handler = - 1\<rparr>"

text \<open>\<^verbatim>\<open>open\<close> with \<^verbatim>\<open>O_CREAT | O_EXCL\<close> fails on an existing file; else it makes the file, or fails for a reason of its
  own, as the descriptor \<open>fd\<close> it is to give tells.\<close>

definition open_excl :: "int \<Rightarrow> string \<Rightarrow> file_world \<Rightarrow> file_world \<times> int" where
  "open_excl fd target w =
     (if target \<in> set (fw_files w) \<or> fd < 0 then (w, - 1)
      else (w\<lparr>fw_files := target # fw_files w, fw_made := target # fw_made w\<rparr>, fd))"

definition temp_file_new :: "int \<Rightarrow> string \<Rightarrow> string \<Rightarrow> bool \<Rightarrow> file_world \<Rightarrow> file_world \<times> unit result" where
  "temp_file_new fd parent name readable w =
     (let target = path_div parent name; owned = (target \<notin> set (fw_files w)) in
      case open_excl fd target w of
        (w, h) \<Rightarrow>
          if \<not> FileIntHandle_valid h then (w, Inl (NstlException '' cannot be opened''))
          else (w\<lparr>fw_objs := fw_objs w @ [\<lparr>tf_target = target, tf_owned = owned, tf_readable = readable, tf_handler = h\<rparr>]\<rparr>,
                Inr ()))"

definition temp_file_drop :: "temp_file \<Rightarrow> file_world \<Rightarrow> file_world" where
  "temp_file_drop f w =
     (if FileIntHandle_valid (tf_handler f) \<and> tf_owned f
      then w\<lparr>fw_files := removeAll (tf_target f) (fw_files w), fw_removed := tf_target f # fw_removed w\<rparr>
      else w)"

definition temp_file_delete :: "nat \<Rightarrow> file_world \<Rightarrow> file_world" where
  "temp_file_delete i w = (temp_file_drop (fw_objs w ! i) w)\<lparr>fw_objs := (fw_objs w)[i := temp_file_empty]\<rparr>"

definition temp_file_move_new :: "nat \<Rightarrow> file_world \<Rightarrow> file_world" where
  "temp_file_move_new j w = w\<lparr>fw_objs := (fw_objs w)[j := temp_file_empty] @ [fw_objs w ! j]\<rparr>"

definition temp_file_swap :: "nat \<Rightarrow> nat \<Rightarrow> file_world \<Rightarrow> file_world" where
  "temp_file_swap i j w = w\<lparr>fw_objs := (fw_objs w)[i := fw_objs w ! j, j := fw_objs w ! i]\<rparr>"

text \<open>After the two swaps the temporary holds the old object and its destructor runs.\<close>

definition temp_file_move_assign :: "nat \<Rightarrow> nat \<Rightarrow> file_world \<Rightarrow> file_world" where
  "temp_file_move_assign i j w =
     (if i \<noteq> j
      then let w = temp_file_swap i j w; tmp = fw_objs w ! j
           in temp_file_drop tmp (w\<lparr>fw_objs := (fw_objs w)[j := temp_file_empty]\<rparr>)
      else w)"

definition temp_file_valid :: "nat \<Rightarrow> file_world \<Rightarrow> bool" where
  "temp_file_valid i w = FileIntHandle_valid (tf_handler (fw_objs w ! i))"

datatype file_op =
    FNew int string string bool
  | FMoveNew nat
  | FMoveAssign nat nat
  | FSwap nat nat
  | FDelete nat

fun file_step :: "file_op \<Rightarrow> file_world \<Rightarrow> file_world" where
  "file_step (FNew fd parent name readable) w = fst (temp_file_new fd parent name readable w)"
| "file_step (FMoveNew j) w = (if j < length (fw_objs w) then temp_file_move_new j w else w)"
| "file_step (FMoveAssign i j) w =
     (if i < length (fw_objs w) \<and> j < length (fw_objs w) then temp_file_move_assign i j w else w)"
| "file_step (FSwap i j) w =
     (if i < length (fw_objs w) \<and> j < length (fw_objs w) then temp_file_swap i j w else w)"
| "file_step (FDelete i) w = (if i < length (fw_objs w) then temp_file_delete i w else w)"

definition live_targets :: "temp_file list \<Rightarrow> string multiset" where
  "live_targets fs = image_mset tf_target (filter_mset (\<lambda>f. FileIntHandle_valid (tf_handler f)) (mset fs))"

section \<open>Theorems\<close>

definition valid_mset :: "'h raii_tools \<Rightarrow> 'h list \<Rightarrow> 'h multiset" where
  "valid_mset t hs = filter_mset (valid_handle t) (mset hs)"

lemma valid_mset_simps [simp]:
  "valid_mset t [] = {#}" "valid_mset t (xs @ ys) = valid_mset t xs + valid_mset t ys"
  "valid_mset t [h] = (if valid_handle t h then {#h#} else {#})"
  by (simp_all add: valid_mset_def)

lemma valid_mset_update:
  "i < length hs \<Longrightarrow> valid_mset t (hs[i := h]) + valid_mset t [hs ! i] = valid_mset t hs + valid_mset t [h]"
  by (simp add: valid_mset_def mset_update)

text \<open>The handles an object or a destructor has had: held, or freed.\<close>

definition raii_account :: "'h raii_tools \<Rightarrow> 'h raii_world \<Rightarrow> 'h multiset" where
  "raii_account t w = valid_mset t (rw_objs w) + mset (rw_freed w)"

lemma raii_account_set:
  assumes "i < length (rw_objs w)"
  shows "raii_account t (w\<lparr>rw_objs := (rw_objs w)[i := h]\<rparr>) + valid_mset t [rw_objs w ! i] =
    raii_account t w + valid_mset t [h]"
  using valid_mset_update [OF assms, of t h] unfolding raii_account_def
  by (simp del: valid_mset_simps(3))

lemma raii_reset_eq:
  "raii_reset t i h w =
     (if valid_handle t (rw_objs w ! i)
      then w\<lparr>rw_freed := rw_freed w @ [rw_objs w ! i], rw_objs := (rw_objs w)[i := h]\<rparr>
      else w\<lparr>rw_objs := (rw_objs w)[i := h]\<rparr>)"
  by (simp add: raii_reset_def Let_def)

lemma raii_account_reset:
  assumes "i < length (rw_objs w)"
  shows "raii_account t (raii_reset t i h w) = raii_account t w + valid_mset t [h]"
proof (cases "valid_handle t (rw_objs w ! i)")
  case True
  have "raii_account t (raii_reset t i h w) =
      raii_account t (w\<lparr>rw_objs := (rw_objs w)[i := h]\<rparr>) + {#rw_objs w ! i#}"
    using True by (simp add: raii_reset_eq raii_account_def)
  then show ?thesis using raii_account_set [OF assms, of t h] True by simp
next
  case False
  then show ?thesis using raii_account_set [OF assms, of t h] by (simp add: raii_reset_eq)
qed

lemma raii_account_swap:
  assumes "i < length (rw_objs w)" and "j < length (rw_objs w)"
  shows "raii_account t (raii_swap i j w) = raii_account t w"
  using assms by (simp add: raii_account_def raii_swap_def valid_mset_def mset_swap)

lemma raii_account_append:
  "raii_account t (w\<lparr>rw_objs := rw_objs w @ [h]\<rparr>) = raii_account t w + valid_mset t [h]"
  by (simp add: raii_account_def)

lemma raii_balance_step:
  assumes iv: "\<not> valid_handle t (invalid_value t)" and step: "raii_step t c w = (w', ins, outs)"
  shows "raii_account t w' + valid_mset t outs = raii_account t w + valid_mset t ins"
proof (cases c)
  case (RNew h)
  then show ?thesis using step raii_account_append [of t w h] by (auto simp: raii_new_def)
next
  case (RMoveNew j)
  show ?thesis
  proof (cases "j < length (rw_objs w)")
    case True
    let ?w = "w\<lparr>rw_objs := (rw_objs w)[j := invalid_value t]\<rparr>"
    have "raii_move_new t j w = ?w\<lparr>rw_objs := rw_objs ?w @ [rw_objs w ! j]\<rparr>" by (simp add: raii_move_new_def)
    then have "raii_account t (raii_move_new t j w) = raii_account t ?w + valid_mset t [rw_objs w ! j]"
      by (simp only: raii_account_append)
    also have "\<dots> = raii_account t w" using raii_account_set [OF True, of t "invalid_value t"] iv by simp
    finally show ?thesis using step RMoveNew True by auto
  qed (use step RMoveNew in auto)
next
  case (RMoveAssign i j)
  show ?thesis
  proof (cases "i < length (rw_objs w) \<and> j < length (rw_objs w) \<and> i \<noteq> j")
    case True
    have "length (rw_objs (raii_reset t i (invalid_value t) w)) = length (rw_objs w)" by (simp add: raii_reset_eq)
    then show ?thesis
      using step RMoveAssign True iv raii_account_swap [of i "raii_reset t i (invalid_value t) w" j t]
        raii_account_reset [of i w t "invalid_value t"]
      by (auto simp: raii_move_assign_def)
  qed (use step RMoveAssign in \<open>auto simp: raii_move_assign_def split: if_splits\<close>)
next
  case (RReset i h)
  then show ?thesis using step raii_account_reset [of i w t h] by (auto split: if_splits)
next
  case (RRelease i)
  then show ?thesis
    using step raii_account_set [of i w t "invalid_value t"] iv by (auto simp: raii_release_def split: if_splits)
next
  case (RSwap i j)
  then show ?thesis using step raii_account_swap [of i w j t] by (auto split: if_splits)
next
  case (RSwapValue i h)
  then show ?thesis using step raii_account_set [of i w t h] by (auto simp: raii_swap_value_def split: if_splits)
next
  case (RDelete i)
  then show ?thesis
    using step raii_account_reset [of i w t "invalid_value t"] iv by (auto simp: raii_delete_def split: if_splits)
qed

lemma raii_balance:
  assumes "\<not> valid_handle t (invalid_value t)"
  shows "raii_run t cs w = (w', ins, outs) \<Longrightarrow>
    raii_account t w' + valid_mset t outs = raii_account t w + valid_mset t ins"
proof (induction cs arbitrary: w ins outs)
  case (Cons c cs)
  obtain w1 i1 o1 where s: "raii_step t c w = (w1, i1, o1)" by (metis prod_cases3)
  obtain i2 o2 where r: "raii_run t cs w1 = (w', i2, o2)" "ins = i1 @ i2" "outs = o1 @ o2"
    using Cons.prems s by (auto split: prod.splits)
  have "raii_account t w' + (valid_mset t o1 + valid_mset t o2) = (raii_account t w' + valid_mset t o2) + valid_mset t o1"
    by (simp add: ac_simps)
  also have "\<dots> = (raii_account t w1 + valid_mset t o1) + valid_mset t i2"
    unfolding Cons.IH [OF r(1)] by (simp add: ac_simps)
  also have "\<dots> = raii_account t w + (valid_mset t i1 + valid_mset t i2)"
    unfolding raii_balance_step [OF assms s] by (simp add: ac_simps)
  finally show ?case by (simp add: r(2,3))
qed simp

lemma tools_invalid:
  "\<not> valid_handle FileIntHandle (invalid_value FileIntHandle)"
  "\<not> valid_handle WindowsHandle (invalid_value WindowsHandle)"
  by (simp_all add: FileIntHandle_def FileIntHandle_valid_def WindowsHandle_def)

text \<open>C15. Whatever sequence of constructions, moves, swaps, resets, releases and destructions a program makes, every
  valid handle that came in is, as often as it came in, held by an object, given out again, or freed; so that a handle that came
  in once is freed at most once, and never while an object holds it or after it was released.\<close>

theorem raii_handles_balanced:
  assumes "\<not> valid_handle t (invalid_value t)"
    and "raii_run t cs \<lparr>rw_objs = [], rw_freed = []\<rparr> = (w, ins, outs)"
  shows "mset (rw_freed w) + valid_mset t (rw_objs w) + valid_mset t outs = valid_mset t ins \<and>
    (\<forall>h. count (valid_mset t ins) h \<le> 1 \<longrightarrow>
       count (mset (rw_freed w)) h \<le> 1 \<and>
       (h \<in> set (rw_freed w) \<longrightarrow> valid_handle t h \<longrightarrow> h \<notin> set (rw_objs w) \<and> h \<notin> set outs))"
proof -
  have bal: "mset (rw_freed w) + valid_mset t (rw_objs w) + valid_mset t outs = valid_mset t ins"
    using raii_balance [OF assms] by (simp add: raii_account_def ac_simps)
  have "count (mset (rw_freed w)) h \<le> 1 \<and>
      (h \<in> set (rw_freed w) \<longrightarrow> valid_handle t h \<longrightarrow> h \<notin> set (rw_objs w) \<and> h \<notin> set outs)"
    if one: "count (valid_mset t ins) h \<le> 1" for h
  proof -
    have sum: "count (mset (rw_freed w)) h + count (valid_mset t (rw_objs w)) h + count (valid_mset t outs) h \<le> 1"
      using one unfolding bal [symmetric] by simp
    have "0 < count (mset (rw_freed w)) h" if "h \<in> set (rw_freed w)" using that by simp
    moreover have "0 < count (valid_mset t xs) h" if "h \<in> set xs" "valid_handle t h" for xs
      using that by (simp add: valid_mset_def)
    ultimately show ?thesis using sum by fastforce
  qed
  with bal show ?thesis by blast
qed

theorem raii_handles_balanced_witness:
  "raii_run FileIntHandle [RNew 5, RMoveNew 0, RReset 1 7, RDelete 1, RDelete 0] \<lparr>rw_objs = [], rw_freed = []\<rparr> =
     (\<lparr>rw_objs = [- 1, - 1], rw_freed = [5, 7]\<rparr>, [5, 7], []) \<and>
   mset [5, 7] + valid_mset FileIntHandle [- 1, - 1] + valid_mset FileIntHandle [] = valid_mset FileIntHandle [5, 7 :: int]"
proof -
  have run: "raii_run FileIntHandle [RNew 5, RMoveNew 0, RReset 1 7, RDelete 1, RDelete 0] \<lparr>rw_objs = [], rw_freed = []\<rparr> =
     (\<lparr>rw_objs = [- 1, - 1], rw_freed = [5, 7]\<rparr>, [5, 7], [])"
    by (simp add: raii_new_def raii_move_new_def raii_reset_def raii_delete_def FileIntHandle_def FileIntHandle_valid_def)
  then show ?thesis using raii_handles_balanced [OF tools_invalid(1) run] by simp
qed

text \<open>Descriptor 0 is taken for invalid: it is never closed.\<close>

lemma descriptor_zero_leaks: "raii_run FileIntHandle [RNew 0, RDelete 0] \<lparr>rw_objs = [], rw_freed = []\<rparr> =
    (\<lparr>rw_objs = [- 1], rw_freed = []\<rparr>, [0], [])"
  by (simp add: raii_new_def raii_reset_def raii_delete_def FileIntHandle_def FileIntHandle_valid_def)

subsection \<open>Environment variables\<close>

lemma env_var_restores:
  assumes "env_var_new mem name val env = (env', Inr r)"
  shows "env_var_delete True r env' = env"
  using assms
  by (auto simp: env_var_new_def env_var_delete_def loc_setenv_def loc_unsetenv_def Let_def throw_if_def
      split: option.splits if_splits)

lemma env_var_thrown: "env_var_new mem name val env = (env', Inl e) \<Longrightarrow> env' = env"
  by (auto simp: env_var_new_def loc_setenv_def loc_unsetenv_def Let_def throw_if_def split: option.splits if_splits)

lemma env_scopes_restore: "snd (env_scopes scopes env) = env"
proof (induction scopes env rule: env_scopes.induct)
  case (2 mem name val scopes env)
  obtain env1 r where n: "env_var_new mem name val env = (env1, r)" by (meson surj_pair)
  show ?case
  proof (cases r)
    case (Inl e)
    then show ?thesis using env_var_thrown n by simp
  next
    case (Inr v)
    then show ?thesis
      using 2 [of env1 r v] n env_var_restores [of mem name val env env1 v] by (auto split: prod.splits)
  qed
qed simp

subsection \<open>Temporary files\<close>

definition file_inv :: "string set \<Rightarrow> file_world \<Rightarrow> bool" where
  "file_inv old w \<longleftrightarrow>
     (\<forall>f \<in> set (fw_objs w). FileIntHandle_valid (tf_handler f) \<longrightarrow> tf_owned f) \<and>
     (\<forall>p. count (live_targets (fw_objs w)) p \<le> 1) \<and>
     old \<inter> set_mset (live_targets (fw_objs w)) = {} \<and>
     set (fw_files w) = old \<union> set_mset (live_targets (fw_objs w)) \<and>
     mset (fw_made w) = mset (fw_removed w) + live_targets (fw_objs w)"

definition live_one :: "temp_file \<Rightarrow> string multiset" where
  "live_one f = (if FileIntHandle_valid (tf_handler f) then {#tf_target f#} else {#})"

lemma live_targets_simps [simp]:
  "live_targets [] = {#}" "live_targets (fs @ gs) = live_targets fs + live_targets gs" "live_targets [f] = live_one f"
  by (simp_all add: live_targets_def live_one_def)

lemma live_targets_update:
  "i < length fs \<Longrightarrow> live_targets (fs[i := f]) + live_one (fs ! i) = live_targets fs + live_one f"
proof (induction fs arbitrary: i)
  case (Cons g fs)
  have cons: "live_targets (h # hs) = live_one h + live_targets hs" for h hs
    by (simp add: live_targets_def live_one_def)
  show ?case using Cons by (cases i) (simp_all add: cons ac_simps)
qed simp

lemma live_empty [simp]: "live_one temp_file_empty = {#}"
  by (simp add: live_one_def temp_file_empty_def FileIntHandle_valid_def)

lemma live_swap:
  assumes "i < length fs" and "j < length fs"
  shows "live_targets (fs[i := fs ! j, j := fs ! i]) = live_targets fs"
  unfolding live_targets_def using assms by (simp add: mset_swap)

lemma live_take_out:
  assumes "i < length fs"
  shows "live_targets (fs[i := temp_file_empty]) + live_one (fs ! i) = live_targets fs"
  using live_targets_update [OF assms, of temp_file_empty] by simp

text \<open>An object that goes out of the list and is dropped takes its file along.\<close>

lemma file_inv_drop:
  assumes inv: "file_inv old w" and f: "f \<in> set (fw_objs w)"
    and objs: "live_targets objs + live_one f = live_targets (fw_objs w)"
    and sub: "\<forall>g \<in> set objs. FileIntHandle_valid (tf_handler g) \<longrightarrow> tf_owned g"
  shows "file_inv old ((temp_file_drop f w)\<lparr>fw_objs := objs\<rparr>)"
proof (cases "FileIntHandle_valid (tf_handler f)")
  case True
  then have own: "tf_owned f" using inv f by (simp add: file_inv_def)
  have live: "live_targets (fw_objs w) = add_mset (tf_target f) (live_targets objs)"
    using objs True by (simp add: live_one_def)
  have "tf_target f \<notin># live_targets objs"
    using inv unfolding file_inv_def live by (metis count_add_mset not_in_iff le_zero_eq One_nat_def Suc_le_mono)
  moreover have "count (live_targets objs) p \<le> 1" for p
    using inv unfolding file_inv_def live by (metis count_add_mset Suc_leD)
  ultimately show ?thesis
    using inv sub True own unfolding file_inv_def live temp_file_drop_def by auto
next
  case False
  then show ?thesis using inv sub objs by (simp add: file_inv_def temp_file_drop_def live_one_def)
qed

lemma file_inv_new:
  assumes inv: "file_inv old w" and fd: "fd \<noteq> 0"
  shows "file_inv old (fst (temp_file_new fd parent name readable w))"
proof -
  define target where "target = path_div parent name"
  show ?thesis
  proof (cases "target \<in> set (fw_files w) \<or> fd < 0")
    case True
    then show ?thesis
      using inv by (simp add: temp_file_new_def open_excl_def target_def [symmetric] FileIntHandle_valid_def Let_def)
  next
    case False
    then have v: "FileIntHandle_valid fd" using fd by (simp add: FileIntHandle_valid_def)
    let ?f = "\<lparr>tf_target = target, tf_owned = True, tf_readable = readable, tf_handler = fd\<rparr>"
    have new: "fst (temp_file_new fd parent name readable w) =
        w\<lparr>fw_files := target # fw_files w, fw_made := target # fw_made w, fw_objs := fw_objs w @ [?f]\<rparr>"
      using False v by (simp add: temp_file_new_def open_excl_def target_def [symmetric] Let_def)
    have live: "live_targets (fw_objs w @ [?f]) = add_mset target (live_targets (fw_objs w))"
      using v by (simp add: live_one_def)
    have fresh: "target \<notin># live_targets (fw_objs w)" "target \<notin> old" using inv False by (auto simp: file_inv_def)
    then show ?thesis
      using inv v unfolding new file_inv_def by (auto simp: live_one_def not_in_iff)
  qed
qed

lemma file_inv_swap:
  assumes inv: "file_inv old w" and i: "i < length (fw_objs w)" and j: "j < length (fw_objs w)"
  shows "file_inv old (temp_file_swap i j w)"
proof -
  have "set ((fw_objs w)[i := fw_objs w ! j, j := fw_objs w ! i]) = set (fw_objs w)"
    using i j by (metis mset_swap set_mset_mset)
  then show ?thesis using inv live_swap [OF i j] by (simp add: file_inv_def temp_file_swap_def)
qed

lemma file_inv_step:
  assumes inv: "file_inv old w" and fd: "\<And>fd p n r. c = FNew fd p n r \<Longrightarrow> fd \<noteq> 0"
  shows "file_inv old (file_step c w)"
proof -
  have empty: "\<forall>g \<in> set ((fw_objs w)[i := temp_file_empty]). FileIntHandle_valid (tf_handler g) \<longrightarrow> tf_owned g"
    if "file_inv old w" for i w
  proof
    fix g assume "g \<in> set ((fw_objs w)[i := temp_file_empty])"
    then have "g = temp_file_empty \<or> g \<in> set (fw_objs w)" using set_update_subset_insert by fastforce
    then show "FileIntHandle_valid (tf_handler g) \<longrightarrow> tf_owned g"
      using that by (auto simp: file_inv_def temp_file_empty_def FileIntHandle_valid_def)
  qed
  have drop: "file_inv old ((temp_file_drop (fw_objs w ! i) w)\<lparr>fw_objs := (fw_objs w)[i := temp_file_empty]\<rparr>)"
    if "file_inv old w" "i < length (fw_objs w)" for i w
    by (intro file_inv_drop empty live_take_out that nth_mem)
  show ?thesis
  proof (cases c)
    case (FNew fd p n r)
    then show ?thesis using file_inv_new [OF inv] fd by simp
  next
    case (FMoveNew j)
    show ?thesis
    proof (cases "j < length (fw_objs w)")
      case True
      have "live_targets ((fw_objs w)[j := temp_file_empty] @ [fw_objs w ! j]) = live_targets (fw_objs w)"
        using live_take_out [OF True] by simp
      moreover have "fw_objs w ! j \<in> set (fw_objs w)" using True by simp
      ultimately show ?thesis
        using FMoveNew True inv empty [OF inv, of j] by (auto simp: temp_file_move_new_def file_inv_def)
    qed (use FMoveNew inv in simp)
  next
    case (FMoveAssign i j)
    let ?w = "temp_file_swap i j w"
    have "temp_file_move_assign i j w = (temp_file_drop (fw_objs ?w ! j) ?w)\<lparr>fw_objs := (fw_objs ?w)[j := temp_file_empty]\<rparr>"
      if "i \<noteq> j"
      using that by (simp add: temp_file_move_assign_def Let_def temp_file_drop_def)
    then show ?thesis
      using FMoveAssign inv drop [of ?w j] file_inv_swap [OF inv, of i j]
      by (cases "i = j") (auto simp: temp_file_move_assign_def temp_file_swap_def)
  next
    case (FSwap i j)
    then show ?thesis using file_inv_swap [OF inv] inv by simp
  next
    case (FDelete i)
    then show ?thesis using drop [OF inv] inv by (simp add: temp_file_delete_def)
  qed
qed

text \<open>C32. Temporary files have one owner: after any sequence of constructions, moves, swaps and destructions, every file
  that was made is either removed, as often as it was made, or belongs to exactly one object; the files that exist are those
  from before, all of them, and those of the living objects.\<close>

theorem temp_files_owned:
  assumes "\<forall>fd p n r. FNew fd p n r \<in> set cs \<longrightarrow> fd \<noteq> 0"
    and "w = fold file_step cs \<lparr>fw_files = old, fw_made = [], fw_removed = [], fw_objs = []\<rparr>"
  shows "mset (fw_made w) = mset (fw_removed w) + live_targets (fw_objs w) \<and>
    (\<forall>p. count (live_targets (fw_objs w)) p \<le> 1) \<and>
    set (fw_files w) = set old \<union> set_mset (live_targets (fw_objs w)) \<and>
    set old \<inter> set_mset (live_targets (fw_objs w)) = {}"
proof -
  have "file_inv (set old) (fold file_step cs w)"
    if "file_inv (set old) w" "\<forall>fd p n r. FNew fd p n r \<in> set cs \<longrightarrow> fd \<noteq> 0" for w
    using that
  proof (induction cs arbitrary: w)
    case (Cons c cs)
    have "file_inv (set old) (file_step c w)" using Cons.prems by (intro file_inv_step) auto
    then show ?case using Cons.IH [of "file_step c w"] Cons.prems(2) by (metis fold_simps(2) list.set_intros(2))
  qed simp
  moreover have "file_inv (set old) \<lparr>fw_files = old, fw_made = [], fw_removed = [], fw_objs = []\<rparr>"
    by (simp add: file_inv_def)
  ultimately have "file_inv (set old) w" using assms by blast
  then show ?thesis unfolding file_inv_def by blast
qed

theorem temp_files_owned_witness:
  "\<exists>w. w = fold file_step [FNew 3 ''/tmp'' ''a'' False, FNew 4 ''/tmp'' ''b'' True, FMoveAssign 0 1, FDelete 0]
       \<lparr>fw_files = [''/etc''], fw_made = [], fw_removed = [], fw_objs = []\<rparr> \<and>
     fw_removed w = [''/tmp/b'', ''/tmp/a''] \<and> set (fw_files w) = {''/etc''} \<and> mset (fw_made w) = mset (fw_removed w)"
proof -
  let ?cs = "[FNew 3 ''/tmp'' ''a'' False, FNew 4 ''/tmp'' ''b'' True, FMoveAssign 0 1, FDelete 0]"
  let ?w = "fold file_step ?cs \<lparr>fw_files = [''/etc''], fw_made = [], fw_removed = [], fw_objs = []\<rparr>"
  have "fw_removed ?w = [''/tmp/b'', ''/tmp/a'']" "live_targets (fw_objs ?w) = {#}"
    by (simp_all add: temp_file_new_def open_excl_def path_div_def temp_file_move_assign_def temp_file_swap_def
        temp_file_drop_def temp_file_delete_def temp_file_empty_def FileIntHandle_valid_def live_targets_def Let_def)
  then show ?thesis using temp_files_owned [of ?cs ?w "[''/etc'']"] by auto
qed

text \<open>A directory whose mode cannot be set is left behind: the constructor throws and no destructor runs.\<close>

lemma temp_dir_left_behind:
  assumes "create_directories api (path_div parent name) f = (f', Inr True)"
    and "chmod_750 api (path_div parent name) f' = (f', False)"
  shows "temp_dir_new api parent name f = (f', Inl (NstlException ''chmod 750 failed on ''))"
  using assms by (simp add: temp_dir_new_def Let_def)

end
