(* ===== verification/FileTrigger.thy ===== *)
theory FileTrigger
  imports NstlPrelude Resources
begin

text \<open>
  The file triggers of \<^verbatim>\<open>nstl/file_trigger_linux.cpp\<close>, \<^verbatim>\<open>file_trigger_apple.cpp\<close> and \<^verbatim>\<open>file_trigger_win32.cpp\<close>: a worker
  thread hands the data that other processes append to a file to a callback. The worker, the constructor and
  the writers of the file run interleaved; the kernel keeps an event per watched descriptor.
\<close>

section \<open>Definitions\<close>

subsection \<open>Reading\<close>

datatype errno = EAGAIN | EWOULDBLOCK | EINTR | OtherErrno

datatype read_result = ReadError errno | ReadBytes string

datatype ft_fd = TargetEvent | ExitPipe

text \<open>Where the constructor and then the worker stand. \<open>Handling\<close> has the events left of a batch and whether an exit was
  requested; \<open>Reading\<close> is \<^verbatim>\<open>_read_data\<close> inside of it.\<close>

datatype ft_pc =
    SowReading
  | Starting
  | Waiting
  | Handling "ft_fd list" bool
  | Reading "ft_fd list" bool
  | Ended
  | Failed

record file_trigger =
  ft_content :: string
  ft_pos :: nat
  ft_watch :: bool
  ft_event :: bool
  ft_exit :: bool
  ft_running :: bool
  ft_buffer :: nat
  ft_sow :: bool
  ft_pc :: ft_pc
  ft_spans :: "string list"

text \<open>What \<^verbatim>\<open>read\<close> may return on the descriptor of the file: an interruption or an error at any time, no data only at
  the end of the file, and otherwise some of the bytes that follow, as many as the buffer holds.\<close>

definition may_read :: "file_trigger \<Rightarrow> read_result \<Rightarrow> bool" where
  "may_read s r =
     (case r of
        ReadError e \<Rightarrow> (e \<in> {EAGAIN, EWOULDBLOCK} \<longrightarrow> ft_pos s = length (ft_content s))
      | ReadBytes bs \<Rightarrow>
          bs = take (length bs) (drop (ft_pos s) (ft_content s)) \<and> length bs \<le> ft_buffer s \<and>
          (bs = [] \<longrightarrow> ft_pos s = length (ft_content s)))"

text \<open>One turn of the loop of \<^verbatim>\<open>_read_data\<close>: what it returns or throws, or \<open>None\<close> to go round again.\<close>

definition read_data_turn :: "bool \<Rightarrow> read_result \<Rightarrow> file_trigger \<Rightarrow> file_trigger \<times> bool result option" where
  "read_data_turn exec r s =
     (case r of
        ReadError e \<Rightarrow>
          (if e = EAGAIN \<or> e = EWOULDBLOCK then (s, Some (Inr True))
           else if e = EINTR then (s, None)
           else (s, Some (Inl (NstlException ''Failed over reading handler''))))
      | ReadBytes bs \<Rightarrow>
          (if bs = [] then (s, Some (Inr False))
           else let s = s\<lparr>ft_pos := ft_pos s + length bs\<rparr>
                in (if exec then s\<lparr>ft_spans := ft_spans s @ [bs]\<rparr> else s, None)))"

definition set_non_blocking :: "int \<Rightarrow> bool \<Rightarrow> bool \<Rightarrow> bool result" where
  "set_non_blocking flags nonblock set_ok =
     throw_if (flags < 0) (NstlException ''fcntl F_GETFL failed: '')
       (if nonblock then Inr False
        else throw_if (\<not> set_ok) (NstlException ''fcntl F_SETFL failed with O_NONBLOCK: '') (Inr True))"

text \<open>The checks of the two factories.\<close>

definition factory_path :: "int \<Rightarrow> bool \<Rightarrow> nat \<Rightarrow> unit result" where
  "factory_path hndl cb buffer_size =
     throw_if (\<not> FileIntHandle_valid hndl) (NstlException '' cannot be opened for read'')
       (throw_if (buffer_size = 0) (NstlException ''Buffer must not be empty'')
         (throw_if (\<not> cb) (NstlException ''Callback must be valid'') (Inr ())))"

definition factory_handle :: "int \<Rightarrow> bool \<Rightarrow> nat \<Rightarrow> bool result \<Rightarrow> unit result" where
  "factory_handle hndl cb buffer_size nonblock =
     throw_if (\<not> FileIntHandle_valid hndl) (NstlException ''Invalid handle passed through'')
       (throw_if (buffer_size = 0) (NstlException ''Buffer must not be empty'')
         (throw_if (\<not> cb) (NstlException ''Callback must be valid'')
           (bind_result nonblock (\<lambda>_. Inr ()))))"

subsection \<open>Constructor, worker and stop\<close>

text \<open>On Linux the constructor adds the watch before it reads; on macOS the worker registers it when it starts.\<close>

datatype ft_platform = Linux | Apple

definition ft_new :: "ft_platform \<Rightarrow> string \<Rightarrow> nat \<Rightarrow> nat \<Rightarrow> bool \<Rightarrow> file_trigger" where
  "ft_new pf content pos buffer_size sow =
     \<lparr>ft_content = content, ft_pos = pos, ft_watch = (pf = Linux), ft_event = False, ft_exit = False, ft_running = True,
      ft_buffer = buffer_size, ft_sow = sow, ft_pc = SowReading, ft_spans = []\<rparr>"

definition ctor_turn :: "read_result \<Rightarrow> file_trigger \<Rightarrow> file_trigger" where
  "ctor_turn r s =
     (case read_data_turn (ft_sow s) r s of
        (s, None) \<Rightarrow> s
      | (s, Some (Inl e)) \<Rightarrow> s\<lparr>ft_pc := Failed\<rparr>
      | (s, Some (Inr _)) \<Rightarrow> s\<lparr>ft_pc := Starting\<rparr>)"

definition worker_start :: "file_trigger \<Rightarrow> file_trigger" where
  "worker_start s = s\<lparr>ft_watch := True, ft_pc := Waiting\<rparr>"

text \<open>The descriptors that are ready, and the wait that returns them in some order. The events of macOS are cleared
  when they are returned, those of Linux when \<^verbatim>\<open>_drain_inotify\<close> reads them.\<close>

definition ready_fds :: "file_trigger \<Rightarrow> ft_fd set" where
  "ready_fds s = (if ft_event s then {TargetEvent} else {}) \<union> (if ft_exit s then {ExitPipe} else {})"

definition worker_wake :: "ft_platform \<Rightarrow> ft_fd list \<Rightarrow> file_trigger \<Rightarrow> file_trigger" where
  "worker_wake pf evs s = s\<lparr>ft_event := (ft_event s \<and> pf = Linux), ft_pc := Handling evs False\<rparr>"

definition drain_inotify :: "file_trigger \<Rightarrow> file_trigger" where
  "drain_inotify s = s\<lparr>ft_event := False\<rparr>"

definition worker_handle :: "ft_platform \<Rightarrow> file_trigger \<Rightarrow> file_trigger" where
  "worker_handle pf s =
     (case ft_pc s of
        Handling (TargetEvent # evs) x \<Rightarrow> (if pf = Linux then drain_inotify s else s)\<lparr>ft_pc := Reading evs x\<rparr>
      | Handling (ExitPipe # evs) x \<Rightarrow> s\<lparr>ft_pc := Handling evs True\<rparr>
      | Handling [] x \<Rightarrow> s\<lparr>ft_pc := (if x then Ended else Waiting)\<rparr>
      | _ \<Rightarrow> s)"

definition worker_read :: "read_result \<Rightarrow> file_trigger \<Rightarrow> file_trigger" where
  "worker_read r s =
     (case ft_pc s of
        Reading evs x \<Rightarrow>
          (case read_data_turn True r s of
             (s, None) \<Rightarrow> s
           | (s, Some (Inl e)) \<Rightarrow> s\<lparr>ft_pc := Failed\<rparr>
           | (s, Some (Inr _)) \<Rightarrow> s\<lparr>ft_pc := Handling evs x\<rparr>)
      | _ \<Rightarrow> s)"

text \<open>\<^verbatim>\<open>stop\<close> up to the join.\<close>

definition ft_stop :: "bool \<Rightarrow> file_trigger \<Rightarrow> file_trigger \<times> unit result" where
  "ft_stop written s =
     (if ft_running s
      then if written then (s\<lparr>ft_running := False, ft_exit := True\<rparr>, Inr ())
           else (s\<lparr>ft_running := False\<rparr>, Inl (NstlException ''Failed to write file''))
      else (s, Inr ()))"

text \<open>Another process appends to the file.\<close>

definition file_append :: "string \<Rightarrow> file_trigger \<Rightarrow> file_trigger" where
  "file_append bs s = s\<lparr>ft_content := ft_content s @ bs, ft_event := (ft_event s \<or> ft_watch s)\<rparr>"

text \<open>The states of a trigger, with the number of bytes the constructor skipped.\<close>

inductive ft_reach :: "ft_platform \<Rightarrow> file_trigger \<Rightarrow> nat \<Rightarrow> bool" for pf :: ft_platform where
  New: "\<lbrakk>pos \<le> length content; 0 < b\<rbrakk> \<Longrightarrow> ft_reach pf (ft_new pf content pos b sow) pos"
| Append: "ft_reach pf s k \<Longrightarrow> ft_reach pf (file_append bs s) k"
| Ctor: "\<lbrakk>ft_reach pf s k; ft_pc s = SowReading; may_read s r\<rbrakk> \<Longrightarrow>
    ft_reach pf (ctor_turn r s) (if ft_sow s then k else ft_pos (ctor_turn r s))"
| Start: "\<lbrakk>ft_reach pf s k; ft_pc s = Starting\<rbrakk> \<Longrightarrow> ft_reach pf (worker_start s) k"
| Wake: "\<lbrakk>ft_reach pf s k; ft_pc s = Waiting; evs \<noteq> []; distinct evs; set evs = ready_fds s\<rbrakk> \<Longrightarrow>
    ft_reach pf (worker_wake pf evs s) k"
| Handle: "\<lbrakk>ft_reach pf s k; ft_pc s = Handling evs x\<rbrakk> \<Longrightarrow> ft_reach pf (worker_handle pf s) k"
| Read: "\<lbrakk>ft_reach pf s k; ft_pc s = Reading evs x; may_read s r\<rbrakk> \<Longrightarrow> ft_reach pf (worker_read r s) k"
| Stop: "ft_reach pf s k \<Longrightarrow> ft_reach pf (fst (ft_stop written s)) k"

subsection \<open>file_trigger_win32.cpp\<close>

abbreviation (input) "ERROR_IO_PENDING \<equiv> (997 :: dword)"
abbreviation (input) "ERROR_HANDLE_EOF \<equiv> (38 :: dword)"
abbreviation (input) "WAIT_OBJECT_0 \<equiv> (0 :: dword)"
abbreviation (input) "WAIT_ABANDONED_0 \<equiv> (0x80 :: dword)"
abbreviation (input) "WAIT_TIMEOUT \<equiv> (258 :: dword)"
abbreviation (input) "WAIT_FAILED \<equiv> (0xFFFFFFFF :: dword)"

definition set_overlapped_offset :: "u64 \<Rightarrow> dword \<times> dword" where
  "set_overlapped_offset offset = (ucast (offset AND 0xFFFFFFFF), ucast (drop_bit 32 offset))"

definition query_file_size :: "u64 option \<Rightarrow> u64 result" where
  "query_file_size size_ex = (case size_ex of None \<Rightarrow> Inl (NstlException ''GetFileSizeEx failed: '') | Some n \<Rightarrow> Inr n)"

record win_trigger =
  wt_content :: string
  wt_sow :: bool
  wt_boundary :: u64
  wt_buffer :: u64
  wt_offset :: u64
  wt_spans :: "string list"

text \<open>What the calls of one turn return: \<^verbatim>\<open>ReadFile\<close> (the error, if any), the two waits, and \<^verbatim>\<open>GetOverlappedResult\<close> (the
  error, or the bytes that are in the buffer).\<close>

record win_calls =
  wc_read :: "dword option"
  wc_wait :: dword
  wc_result :: "dword + string"
  wc_exit_wait :: dword

datatype win_next = WAgain | WReturn | WThrow exn

definition win_deliver :: "string \<Rightarrow> win_trigger \<Rightarrow> win_trigger" where
  "win_deliver bs s =
     (let chunk_start = wt_offset s;
          file_offset = wt_offset s + of_nat (length bs);
          deliver_from = (if \<not> wt_sow s \<and> chunk_start < wt_boundary s then min file_offset (wt_boundary s) else chunk_start);
          s = s\<lparr>wt_offset := file_offset\<rparr>
      in if deliver_from < file_offset
         then s\<lparr>wt_spans := wt_spans s @
                 [take (unat (file_offset - deliver_from)) (drop (unat (deliver_from - chunk_start)) bs)]\<rparr>
         else s)"

text \<open>The wait on the exit event after the end of the file.\<close>

definition win_eof :: "win_calls \<Rightarrow> win_next" where
  "win_eof c =
     (if wc_exit_wait c = WAIT_OBJECT_0 then WReturn
      else if wc_exit_wait c = WAIT_FAILED then WThrow (NstlException ''WaitForSingleObject failed: '')
      else if wc_exit_wait c \<noteq> WAIT_TIMEOUT then WThrow (NstlException '' unexpected output from WaitForSingleObject'')
      else WAgain)"

definition win_completed :: "win_calls \<Rightarrow> win_trigger \<Rightarrow> win_trigger \<times> win_next" where
  "win_completed c s =
     (case wc_result c of
        Inr bs \<Rightarrow> (if bs \<noteq> [] then (win_deliver bs s, WAgain) else (s, win_eof c))
      | Inl err \<Rightarrow>
          (if err \<noteq> ERROR_HANDLE_EOF then (s, WThrow (NstlException ''GetOverlappedResult failed: ''))
           else (s, win_eof c)))"

definition win_pending :: "win_calls \<Rightarrow> win_trigger \<Rightarrow> win_trigger \<times> win_next" where
  "win_pending c s =
     (let response = wc_wait c in
      if response = WAIT_OBJECT_0 + 1 then (s, WReturn)
      else if response = WAIT_TIMEOUT
      then (s, WThrow (NstlException ''WAIT_TIMEOUT doesn't make any sense: INFINITE timeout was set''))
      else if WAIT_ABANDONED_0 \<le> response \<and> response < WAIT_ABANDONED_0 + 2
      then (s, WThrow (NstlException '' handle abandoned''))
      else if response = WAIT_FAILED then (s, WThrow (NstlException ''WaitForMultipleObjects failed: ''))
      else if response \<noteq> WAIT_OBJECT_0
      then (s, WThrow (NstlException '' unexpected output from WaitForMultipleObjects''))
      else win_completed c s)"

definition win_turn :: "win_calls \<Rightarrow> win_trigger \<Rightarrow> win_trigger \<times> win_next" where
  "win_turn c s =
     (case wc_read c of
        None \<Rightarrow> win_completed c s
      | Some err \<Rightarrow>
          (if err = ERROR_IO_PENDING then win_pending c s
           else if err \<noteq> ERROR_HANDLE_EOF then (s, WThrow (NstlException ''ReadFile failed: ''))
           else (s, win_eof c)))"

text \<open>The bytes a read gives are those at the offset of the \<^verbatim>\<open>OVERLAPPED\<close> structure, at most as many as the 32-bit count
  asks for.\<close>

definition overlapped_offset :: "dword \<times> dword \<Rightarrow> nat" where
  "overlapped_offset ov = unat (snd ov) * 2 ^ 32 + unat (fst ov)"

definition win_may_read :: "win_trigger \<Rightarrow> string \<Rightarrow> bool" where
  "win_may_read s bs \<longleftrightarrow>
     bs = take (length bs) (drop (overlapped_offset (set_overlapped_offset (wt_offset s))) (wt_content s)) \<and>
     length bs \<le> unat (ucast (wt_buffer s) :: dword)"

definition win_append :: "string \<Rightarrow> win_trigger \<Rightarrow> win_trigger" where
  "win_append bs s = s\<lparr>wt_content := wt_content s @ bs\<rparr>"

inductive wt_reach :: "win_trigger \<Rightarrow> bool" where
  New: "wt_reach \<lparr>wt_content = content, wt_sow = sow, wt_boundary = of_nat (length content), wt_buffer = b,
    wt_offset = 0, wt_spans = []\<rparr>"
| Append: "wt_reach s \<Longrightarrow> wt_reach (win_append bs s)"
| Turn: "\<lbrakk>wt_reach s; \<forall>bs. wc_result c = Inr bs \<longrightarrow> win_may_read s bs\<rbrakk> \<Longrightarrow> wt_reach (fst (win_turn c s))"

section \<open>Theorems\<close>

definition delivered_ok :: "file_trigger \<Rightarrow> nat \<Rightarrow> bool" where
  "delivered_ok s k \<longleftrightarrow>
     k \<le> ft_pos s \<and> ft_pos s \<le> length (ft_content s) \<and>
     concat (ft_spans s) = drop k (take (ft_pos s) (ft_content s)) \<and>
     (\<forall>sp \<in> set (ft_spans s). sp \<noteq> [] \<and> length sp \<le> ft_buffer s) \<and>
     (ft_pc s = SowReading \<longrightarrow> \<not> ft_sow s \<longrightarrow> k = ft_pos s)"

definition woken_ok :: "file_trigger \<Rightarrow> bool" where
  "woken_ok s \<longleftrightarrow>
     ft_watch s \<and>
     (case ft_pc s of
        SowReading \<Rightarrow> True
      | Reading _ _ \<Rightarrow> True
      | Failed \<Rightarrow> True
      | _ \<Rightarrow> ft_event s \<or> ft_pos s = length (ft_content s))"

lemma read_step_delivered:
  assumes "may_read s (ReadBytes bs)" and "delivered_ok s k" and "bs \<noteq> []"
  shows "ft_pos s + length bs \<le> length (ft_content s)"
    and "concat (ft_spans s) @ bs = drop k (take (ft_pos s + length bs) (ft_content s))"
proof -
  have bs: "bs = take (length bs) (drop (ft_pos s) (ft_content s))" using assms(1) by (simp add: may_read_def)
  then have "length bs \<le> length (ft_content s) - ft_pos s" by (metis length_take length_drop min.cobounded1)
  then show "ft_pos s + length bs \<le> length (ft_content s)" using assms(2) unfolding delivered_ok_def by linarith
  have "take (ft_pos s + length bs) (ft_content s) = take (ft_pos s) (ft_content s) @ bs"
    using bs by (metis take_add)
  then show "concat (ft_spans s) @ bs = drop k (take (ft_pos s + length bs) (ft_content s))"
    using assms(2) by (simp add: delivered_ok_def)
qed

lemma worker_read_delivered:
  assumes "delivered_ok s k" and "may_read s r" and "ft_pc s = Reading evs x"
  shows "delivered_ok (worker_read r s) k"
proof (cases r)
  case (ReadError e)
  then show ?thesis using assms by (cases e) (auto simp: worker_read_def read_data_turn_def delivered_ok_def)
next
  case (ReadBytes bs)
  show ?thesis
  proof (cases "bs = []")
    case False
    have "worker_read r s = s\<lparr>ft_pos := ft_pos s + length bs, ft_spans := ft_spans s @ [bs]\<rparr>"
      using ReadBytes False assms(3) by (simp add: worker_read_def read_data_turn_def)
    then show ?thesis
      using read_step_delivered [of s bs k] ReadBytes assms False by (auto simp: delivered_ok_def may_read_def)
  qed (use ReadBytes assms in \<open>auto simp: worker_read_def read_data_turn_def delivered_ok_def\<close>)
qed

lemma ctor_turn_delivered:
  assumes "delivered_ok s k" and "may_read s r" and "ft_pc s = SowReading"
  shows "delivered_ok (ctor_turn r s) (if ft_sow s then k else ft_pos (ctor_turn r s))"
proof (cases r)
  case (ReadError e)
  then show ?thesis using assms by (cases e) (auto simp: ctor_turn_def read_data_turn_def delivered_ok_def)
next
  case (ReadBytes bs)
  show ?thesis
  proof (cases "bs = []")
    case False
    have turn: "ctor_turn r s = s\<lparr>ft_pos := ft_pos s + length bs,
        ft_spans := (if ft_sow s then ft_spans s @ [bs] else ft_spans s)\<rparr>"
      using ReadBytes False by (simp add: ctor_turn_def read_data_turn_def)
    show ?thesis
      using read_step_delivered [of s bs k] ReadBytes assms False unfolding turn
      by (auto simp: delivered_ok_def may_read_def)
  qed (use ReadBytes assms in \<open>auto simp: ctor_turn_def read_data_turn_def delivered_ok_def\<close>)
qed

lemma ft_reach_delivered: "ft_reach pf s k \<Longrightarrow> delivered_ok s k"
proof (induction rule: ft_reach.induct)
  case (Ctor s k r)
  then show ?case using ctor_turn_delivered by blast
next
  case (Read s k evs x r)
  then show ?case using worker_read_delivered by blast
next
  case (Handle s k evs x)
  then show ?case
    by (cases evs; cases "hd evs") (auto simp: delivered_ok_def worker_handle_def drain_inotify_def)
qed (auto simp: delivered_ok_def ft_new_def file_append_def worker_start_def worker_wake_def ft_stop_def)

lemma worker_read_woken:
  assumes "woken_ok s" and "may_read s r" and "ft_pc s = Reading evs x"
  shows "woken_ok (worker_read r s)"
  using assms
  by (cases r) (auto simp: woken_ok_def worker_read_def read_data_turn_def may_read_def Let_def)

lemma ctor_turn_woken:
  assumes "woken_ok s" and "may_read s r" and "ft_pc s = SowReading"
  shows "woken_ok (ctor_turn r s)"
  using assms
  by (cases r) (auto simp: woken_ok_def ctor_turn_def read_data_turn_def may_read_def Let_def)

lemma ft_reach_woken: "ft_reach Linux s k \<Longrightarrow> woken_ok s"
proof (induction s k rule: ft_reach.induct)
  case (Append s k bs)
  then show ?case by (auto simp: woken_ok_def file_append_def split: ft_pc.splits)
next
  case (Ctor s k r)
  then show ?case using ctor_turn_woken by blast
next
  case (Handle s k evs x)
  then show ?case
    by (cases evs; cases "hd evs") (auto simp: woken_ok_def worker_handle_def drain_inotify_def)
next
  case (Read s k evs x r)
  then show ?case using worker_read_woken by blast
qed (auto simp: woken_ok_def ft_new_def worker_start_def worker_wake_def ft_stop_def split: ft_pc.splits)

text \<open>C4. On Linux no byte is lost or given twice: in every interleaving of the constructor, the worker, the writers of the
  file and a stop, the spans given to the callback are, put together, the bytes from where the trigger began to where it
  has read; each is non-empty and fits the buffer; and when the worker waits, either all of the file is given or an event
  is pending that will wake it.\<close>

theorem linux_trigger_complete:
  assumes "ft_reach Linux s k"
  shows "concat (ft_spans s) = drop k (take (ft_pos s) (ft_content s)) \<and>
    (\<forall>sp \<in> set (ft_spans s). sp \<noteq> [] \<and> length sp \<le> ft_buffer s) \<and>
    (ft_pc s = Waiting \<longrightarrow> TargetEvent \<in> ready_fds s \<or> concat (ft_spans s) = drop k (ft_content s))"
proof -
  note d = ft_reach_delivered [OF assms, unfolded delivered_ok_def]
  have "ft_event s \<or> ft_pos s = length (ft_content s)" if "ft_pc s = Waiting"
    using ft_reach_woken [OF assms] that by (simp add: woken_ok_def)
  moreover have "concat (ft_spans s) = drop k (ft_content s)" if "ft_pos s = length (ft_content s)"
    using d that by (metis take_all_iff order_refl)
  ultimately have "ft_pc s = Waiting \<longrightarrow> TargetEvent \<in> ready_fds s \<or> concat (ft_spans s) = drop k (ft_content s)"
    by (auto simp: ready_fds_def)
  with d show ?thesis by blast
qed

theorem linux_trigger_complete_witness:
  "ft_reach Linux (worker_start (ctor_turn (ReadBytes []) (ctor_turn (ReadBytes ''ab'') (ft_new Linux ''ab'' 0 4 True)))) 0 \<and>
   concat (ft_spans (worker_start (ctor_turn (ReadBytes []) (ctor_turn (ReadBytes ''ab'') (ft_new Linux ''ab'' 0 4 True))))) = ''ab''"
proof -
  have 1: "ft_reach Linux (ft_new Linux ''ab'' 0 4 True) 0" by (rule ft_reach.New) simp_all
  have 2: "ft_reach Linux (ctor_turn (ReadBytes ''ab'') (ft_new Linux ''ab'' 0 4 True)) 0"
    using ft_reach.Ctor [OF 1, of "ReadBytes ''ab''"] by (simp add: ft_new_def may_read_def)
  have 3: "ft_reach Linux (ctor_turn (ReadBytes []) (ctor_turn (ReadBytes ''ab'') (ft_new Linux ''ab'' 0 4 True))) 0"
    using ft_reach.Ctor [OF 2, of "ReadBytes []"] by (simp add: ft_new_def may_read_def ctor_turn_def read_data_turn_def)
  have 4: "ft_reach Linux (worker_start (ctor_turn (ReadBytes []) (ctor_turn (ReadBytes ''ab'') (ft_new Linux ''ab'' 0 4 True)))) 0"
    using ft_reach.Start [OF 3] by (simp add: ft_new_def ctor_turn_def read_data_turn_def)
  then show ?thesis
    using linux_trigger_complete [OF 4]
    by (simp add: ft_new_def ctor_turn_def read_data_turn_def worker_start_def ready_fds_def)
qed

text \<open>On macOS data can be left lying: the watch is registered only when the worker starts, so that bytes appended
  after the constructor has read to the end and before the registration raise no event. The worker then waits with unread
  data and nothing to wake it, although the trigger runs and was not stopped.\<close>

theorem apple_trigger_misses_data:
  "\<exists>s k. ft_reach Apple s k \<and> ft_pc s = Waiting \<and> ft_running s \<and> ready_fds s = {} \<and>
     concat (ft_spans s) \<noteq> drop k (ft_content s)"
proof -
  let ?s1 = "ctor_turn (ReadBytes []) (ft_new Apple [] 0 4 True)"
  let ?s = "worker_start (file_append ''a'' ?s1)"
  have 1: "ft_reach Apple (ft_new Apple [] 0 4 True) 0" by (rule ft_reach.New) simp_all
  have 2: "ft_reach Apple ?s1 0"
    using ft_reach.Ctor [OF 1, of "ReadBytes []"] by (simp add: ft_new_def may_read_def)
  have "ft_reach Apple ?s 0"
    by (rule ft_reach.Start [OF ft_reach.Append [OF 2]])
      (simp add: ft_new_def ctor_turn_def read_data_turn_def file_append_def)
  moreover have "ft_pc ?s = Waiting \<and> ft_running ?s \<and> ready_fds ?s = {} \<and> concat (ft_spans ?s) \<noteq> drop 0 (ft_content ?s)"
    by (simp add: ft_new_def ctor_turn_def read_data_turn_def file_append_def worker_start_def ready_fds_def)
  ultimately show ?thesis by blast
qed

subsection \<open>Windows\<close>

lemma overlapped_offset_inverse: "overlapped_offset (set_overlapped_offset offset) = unat offset"
proof -
  have "(0xFFFFFFFF :: u64) = mask 32" by (simp add: mask_eq_exp_minus_1)
  then have "offset AND 0xFFFFFFFF = take_bit 32 offset" by (simp add: take_bit_eq_mask)
  then have "unat (ucast (offset AND 0xFFFFFFFF) :: dword) = unat offset mod 2 ^ 32"
    by (simp add: unsigned_ucast_eq unsigned_take_bit_eq take_bit_eq_mod unat_mod)
  moreover have "unat (ucast (drop_bit 32 offset) :: dword) = unat offset div 2 ^ 32"
  proof -
    have "unat offset div 2 ^ 32 < 2 ^ 32"
      using unsigned_less [of offset, where ?'a = nat] by (simp add: less_mult_imp_div_less)
    then show ?thesis by (simp add: unsigned_ucast_eq unsigned_drop_bit_eq take_bit_eq_mod drop_bit_eq_div unat_div)
  qed
  ultimately show ?thesis by (simp add: overlapped_offset_def set_overlapped_offset_def)
qed

definition win_inv :: "win_trigger \<Rightarrow> bool" where
  "win_inv s \<longleftrightarrow>
     length (wt_content s) < 2 ^ 64 \<longrightarrow>
       unat (wt_offset s) \<le> length (wt_content s) \<and> unat (wt_boundary s) \<le> length (wt_content s) \<and>
       concat (wt_spans s) =
         drop (if wt_sow s then 0 else unat (wt_boundary s)) (take (unat (wt_offset s)) (wt_content s))"

lemma win_deliver_rest [simp]:
  "wt_content (win_deliver bs s) = wt_content s" "wt_sow (win_deliver bs s) = wt_sow s"
  "wt_boundary (win_deliver bs s) = wt_boundary s" "wt_buffer (win_deliver bs s) = wt_buffer s"
  "wt_offset (win_deliver bs s) = wt_offset s + of_nat (length bs)"
  by (simp_all add: win_deliver_def Let_def)

lemma win_deliver_inv:
  assumes inv: "win_inv s" and rd: "win_may_read s bs" and len: "length (wt_content s) < 2 ^ 64"
  shows "win_inv (win_deliver bs s)"
proof -
  define off bd new where "off = unat (wt_offset s)" and "bd = unat (wt_boundary s)"
    and "new = unat (wt_offset s) + length bs"
  have le: "off \<le> length (wt_content s)" "bd \<le> length (wt_content s)"
    and spans: "concat (wt_spans s) = drop (if wt_sow s then 0 else bd) (take off (wt_content s))"
    using inv len by (simp_all add: win_inv_def off_def bd_def)
  have bs: "bs = take (length bs) (drop off (wt_content s))"
    using rd by (simp add: win_may_read_def overlapped_offset_inverse off_def)
  then have "length bs \<le> length (wt_content s) - off" by (metis length_take length_drop min.cobounded1)
  then have new: "new \<le> length (wt_content s)" using le by (simp add: new_def off_def)
  then have un: "unat (wt_offset s + of_nat (length bs)) = new"
    using len by (simp add: new_def unat_word_ariths unat_of_nat)
  have more: "take new (wt_content s) = take off (wt_content s) @ bs"
    using bs by (metis take_add new_def off_def)
  let ?o = "wt_offset s + of_nat (length bs)"
  have lt: "wt_offset s < wt_boundary s \<longleftrightarrow> off < bd" by (simp add: word_less_nat_alt off_def bd_def)
  have sub: "unat (a - b) = unat a - unat b" if "unat b \<le> unat a" for a b :: u64
    using that by (simp add: unat_sub word_le_nat_alt)
  show ?thesis
  proof (cases "wt_sow s \<or> bd \<le> off")
    case True
    have "wt_spans (win_deliver bs s) = wt_spans s @ (if off < new then [bs] else [])"
      using True lt un sub [of "wt_offset s" ?o]
      by (auto simp: win_deliver_def Let_def word_less_nat_alt off_def bd_def new_def)
    then have "concat (wt_spans (win_deliver bs s)) = concat (wt_spans s) @ bs" by (simp add: new_def off_def)
    moreover have "drop (if wt_sow s then 0 else bd) (take new (wt_content s)) = concat (wt_spans s) @ bs"
      using True le by (auto simp: more spans)
    ultimately show ?thesis
      using new le un by (auto simp: win_inv_def bd_def split: if_splits)
  next
    case False
    then have "unat (min ?o (wt_boundary s)) = min new bd" using un by (auto simp: min_def word_le_nat_alt bd_def)
    then have "wt_spans (win_deliver bs s) = wt_spans s @ (if bd < new then [drop (bd - off) bs] else [])"
      using False lt un sub [of "wt_boundary s" ?o] sub [of "wt_offset s" "wt_boundary s"] 
      by (auto simp: win_deliver_def Let_def word_less_nat_alt off_def bd_def new_def min_def word_le_nat_alt)
    moreover have "concat (wt_spans s) = []" using False spans le by simp
    ultimately have "concat (wt_spans (win_deliver bs s)) = (if bd < new then drop (bd - off) bs else [])"
      by (simp del: concat_eq_Nil_conv)
    also have "\<dots> = drop bd (take new (wt_content s))"
    proof (cases "bd < new")
      case True
      have "min (length (wt_content s)) off = off" using le by simp
      then show ?thesis using True False by (simp add: more)
    qed (use new in simp)
    finally have "concat (wt_spans (win_deliver bs s)) = drop bd (take new (wt_content s))" .
    then show ?thesis
      using new le un False by (simp add: win_inv_def bd_def)
  qed
qed

lemma win_turn_inv:
  assumes "win_inv s" and "\<forall>bs. wc_result c = Inr bs \<longrightarrow> win_may_read s bs" and "length (wt_content s) < 2 ^ 64"
  shows "win_inv (fst (win_turn c s))"
proof -
  have "win_inv (fst (win_completed c s))"
    using assms win_deliver_inv by (auto simp: win_completed_def split: sum.splits)
  then show ?thesis
    using assms(1) by (auto simp: win_turn_def win_pending_def Let_def split: option.splits)
qed

lemma win_turn_content [simp]: "wt_content (fst (win_turn c s)) = wt_content s"
  by (auto simp: win_turn_def win_pending_def win_completed_def Let_def split: option.splits sum.splits)

lemma wt_reach_inv: "wt_reach s \<Longrightarrow> win_inv s"
proof (induction rule: wt_reach.induct)
  case (New content sow b)
  then show ?case by (simp add: win_inv_def unat_of_nat)
next
  case (Append s bs)
  show ?case
  proof (cases "length (wt_content s @ bs) < 2 ^ 64")
    case True
    then have "length (wt_content s) < 2 ^ 64" by simp
    then show ?thesis using Append.IH by (simp add: win_inv_def win_append_def)
  qed (simp add: win_inv_def win_append_def)
next
  case (Turn s c)
  show ?case
  proof (cases "length (wt_content s) < 2 ^ 64")
    case True
    then show ?thesis using win_turn_inv Turn by blast
  qed (simp add: win_inv_def)
qed

text \<open>C28. On Windows the spans given to the callback are, put together, the bytes of the file up to the offset the worker has
  reached, from the beginning, or without the initial content from the size the file had at first; whatever the sizes of the
  reads, wherever they straddle that boundary, and for files of more than 4 GiB, whose offset is split in two.\<close>

theorem win_trigger_complete:
  assumes "wt_reach s" and "length (wt_content s) < 2 ^ 64"
  shows "overlapped_offset (set_overlapped_offset (wt_offset s)) = unat (wt_offset s) \<and>
    unat (wt_offset s) \<le> length (wt_content s) \<and>
    concat (wt_spans s) =
      drop (if wt_sow s then 0 else unat (wt_boundary s)) (take (unat (wt_offset s)) (wt_content s))"
  using wt_reach_inv [OF assms(1)] assms(2) overlapped_offset_inverse by (simp add: win_inv_def)

theorem win_trigger_complete_witness:
  "concat (wt_spans (fst (win_turn \<lparr>wc_read = None, wc_wait = 0, wc_result = Inr ''abcd'', wc_exit_wait = 0\<rparr>
     (win_append ''cd'' \<lparr>wt_content = ''ab'', wt_sow = False, wt_boundary = of_nat (length ''ab''), wt_buffer = 8,
        wt_offset = 0, wt_spans = []\<rparr>)))) = ''cd''"
proof -
  let ?c = "\<lparr>wc_read = None, wc_wait = 0, wc_result = Inr ''abcd'', wc_exit_wait = 0\<rparr>"
  let ?s = "win_append ''cd'' \<lparr>wt_content = ''ab'', wt_sow = False, wt_boundary = of_nat (length ''ab''), wt_buffer = 8,
        wt_offset = 0, wt_spans = []\<rparr>"
  have 1: "wt_reach ?s" by (intro wt_reach.Append wt_reach.New)
  have "overlapped_offset (set_overlapped_offset (wt_offset ?s)) = 0"
    using win_trigger_complete [OF 1] by (simp add: win_append_def)
  then have 2: "wt_reach (fst (win_turn ?c ?s))"
    by (intro wt_reach.Turn [OF 1]) (simp add: win_may_read_def win_append_def)
  show ?thesis
    using win_trigger_complete [OF 2] by (simp add: win_turn_def win_completed_def win_append_def)
qed

text \<open>A buffer size that is a multiple of \<open>2 ^ 32\<close> asks for no bytes at all.\<close>

lemma win_buffer_wraps:
  assumes "win_may_read s bs" and "wt_buffer s = 2 ^ 32"
  shows "bs = []"
proof -
  have "unat (ucast (2 ^ 32 :: u64) :: dword) = 0" by (simp add: unsigned_ucast_eq take_bit_eq_mod)
  then show ?thesis using assms by (simp add: win_may_read_def)
qed

end
