(* ===== verification/HttpClient.thy ===== *)
theory HttpClient
  imports NstlPrelude StringTools
begin

text \<open>
  The HTTP client of \<^verbatim>\<open>nstl/http_client.cpp\<close>: the wrapper around a libcurl handle, with its error buffer, header list and
  callbacks, and the splitting of URLs. libcurl is a parameter, a record of the functions the client calls on the state
  of a handle. The client objects and the header lists are numbered, so that the pointers the handle keeps can be followed.
\<close>

section \<open>Definitions\<close>

subsection \<open>libcurl\<close>

datatype curl_opt =
    NOSIGNAL | ERRORBUFFER | DEBUGFUNCTION | VERBOSE | CONNECTTIMEOUT_MS | TIMEOUT_MS | LOW_SPEED_TIME
  | LOW_SPEED_LIMIT | TCP_KEEPALIVE | TCP_KEEPIDLE | TCP_KEEPINTVL | TCP_KEEPCNT | WRITEFUNCTION | HEADERFUNCTION
  | URL | HTTPHEADER | SSL_VERIFYPEER | FOLLOWLOCATION | MAXREDIRS | HTTPGET | POST | POSTFIELDSIZE | POSTFIELDS
  | WRITEDATA | HEADERDATA

text \<open>The value of an option: a number, a text that is copied, a function of the source, the error buffer or the callbacks
  of a client, a header list, data of the caller, or null.\<close>

datatype curl_val =
    VLong int
  | VStr string
  | VFun string
  | VError nat
  | VCbs nat
  | VList nat
  | VData string
  | VNull

text \<open>What a transfer brings: its success, the chunks of the body, the header lines and the text of the error.\<close>

record transfer =
  tr_ok :: bool
  tr_chunks :: "string list"
  tr_headers :: "string list"
  tr_error :: string

record 'c curl_api =
  curl_easy_init :: "'c option"
  curl_easy_setopt :: "curl_opt \<Rightarrow> curl_val \<Rightarrow> 'c \<Rightarrow> 'c \<times> bool"
  curl_easy_reset :: "'c \<Rightarrow> 'c"
  curl_easy_perform :: "'c \<Rightarrow> 'c \<times> transfer"
  curl_response_code :: "'c \<Rightarrow> int option"
  curl_easy_escape :: "'c \<Rightarrow> string \<Rightarrow> string option"
  curl_easy_unescape :: "'c \<Rightarrow> string \<Rightarrow> string option"
  curl_slist_append_ok :: "string \<Rightarrow> bool"
  curl_has_keepcnt :: bool
  curl_opts :: "'c \<Rightarrow> curl_opt \<Rightarrow> curl_val option"

text \<open>The documented behaviour: an option that is set is kept until it is set again or the handle is reset; a new handle
  has none.\<close>

definition curl_ok :: "'c curl_api \<Rightarrow> bool" where
  "curl_ok api \<longleftrightarrow>
     (\<forall>c. curl_easy_init api = Some c \<longrightarrow> curl_opts api c = Map.empty) \<and>
     (\<forall>opt v c c'. curl_easy_setopt api opt v c = (c', True) \<longrightarrow> curl_opts api c' = (curl_opts api c)(opt \<mapsto> v)) \<and>
     (\<forall>opt v c c'. curl_easy_setopt api opt v c = (c', False) \<longrightarrow> curl_opts api c' = curl_opts api c) \<and>
     (\<forall>c. curl_opts api (curl_easy_reset api c) = Map.empty) \<and>
     (\<forall>c. curl_opts api (fst (curl_easy_perform api c)) = curl_opts api c)"

subsection \<open>Callbacks\<close>

definition writeFunction :: "cstring \<Rightarrow> string option \<Rightarrow> string option \<times> nat" where
  "writeFunction ptr data =
     (case (ptr, data) of
        (Some bs, Some d) \<Rightarrow> (Some (d @ bs), length bs)
      | _ \<Rightarrow> (data, 0))"

text \<open>\<^verbatim>\<open>ClientCbs::line\<close>: the line the callback gets, if any.\<close>

definition cbs_line :: "bool \<Rightarrow> string \<Rightarrow> string option" where
  "cbs_line has_cb data =
     (if \<not> has_cb then None
      else let hdr_line = right_trim_view data in if hdr_line = [] then None else Some hdr_line)"

definition headerFunction :: "cstring \<Rightarrow> bool option \<Rightarrow> string list \<Rightarrow> string list \<times> nat" where
  "headerFunction ptr cbs seen =
     (case (ptr, cbs) of
        (Some bs, Some has_cb) \<Rightarrow> (seen @ (case cbs_line has_cb bs of Some l \<Rightarrow> [l] | None \<Rightarrow> []), length bs)
      | _ \<Rightarrow> (seen, 0))"

subsection \<open>Client\<close>

record 'c client =
  cl_error :: string
  cl_curl :: "'c option"
  cl_headers :: "nat option"
  cl_cb :: bool
  cl_bw_period :: int
  cl_bw_speed :: int
  cl_alive :: bool

text \<open>The clients and the header lists, each list \<open>None\<close> once it is freed, and the lines the header callbacks got.\<close>

record 'c http_world =
  hw_clients :: "'c client list"
  hw_lists :: "string list option list"
  hw_lines :: "string list"

definition put_client :: "nat \<Rightarrow> 'c client \<Rightarrow> 'c http_world \<Rightarrow> 'c http_world" where
  "put_client i c w = w\<lparr>hw_clients := (hw_clients w)[i := c]\<rparr>"

text \<open>\<^verbatim>\<open>NSTL_CURL_CHECK\<close> around a sequence of \<^verbatim>\<open>curl_easy_setopt\<close>.\<close>

fun curl_checks :: "'c curl_api \<Rightarrow> (curl_opt \<times> curl_val) list \<Rightarrow> 'c \<Rightarrow> 'c \<times> unit result" where
  "curl_checks api [] c = (c, Inr ())"
| "curl_checks api ((opt, v) # opts) c =
     (case curl_easy_setopt api opt v c of
        (c, True) \<Rightarrow> curl_checks api opts c
      | (c, False) \<Rightarrow> (c, Inl (NstlException '' failed: '')))"

definition client_new :: "'c curl_api \<Rightarrow> bool \<Rightarrow> 'c http_world \<Rightarrow> 'c http_world \<times> nat result" where
  "client_new api verbose w =
     (let i = length (hw_clients w) in
      case curl_easy_init api of
        None \<Rightarrow> (w, Inl (NstlException ''curl_easy_init failed''))
      | Some c \<Rightarrow>
          (case curl_checks api
                  ([(NOSIGNAL, VLong 1), (ERRORBUFFER, VError i)] @
                   (if verbose then [(DEBUGFUNCTION, VFun ''my_trace''), (VERBOSE, VLong 1)] else [])) c of
             (c, Inl e) \<Rightarrow> (w, Inl e)
           | (c, Inr _) \<Rightarrow>
               (w\<lparr>hw_clients := hw_clients w @
                   [\<lparr>cl_error = [], cl_curl = Some c, cl_headers = None, cl_cb = False, cl_bw_period = 10,
                     cl_bw_speed = 10000, cl_alive = True\<rparr>]\<rparr>, Inr i)))"

definition free_list :: "nat option \<Rightarrow> 'c http_world \<Rightarrow> 'c http_world" where
  "free_list h w = (case h of None \<Rightarrow> w | Some a \<Rightarrow> w\<lparr>hw_lists := (hw_lists w)[a := None]\<rparr>)"

text \<open>\<^verbatim>\<open>_assign\<close>: the error buffer is set on the handle that is then replaced.\<close>

definition client_assign :: "'c curl_api \<Rightarrow> nat \<Rightarrow> nat \<Rightarrow> 'c http_world \<Rightarrow> 'c http_world" where
  "client_assign api i j w =
     (let this = hw_clients w ! i; other = hw_clients w ! j;
          this = this\<lparr>cl_error := cl_error other,
                      cl_curl := map_option (\<lambda>h. fst (curl_easy_setopt api ERRORBUFFER (VError i) h)) (cl_curl this)\<rparr>;
          other = other\<lparr>cl_error := []\<rparr>;
          w = free_list (cl_headers this) w;
          this = this\<lparr>cl_curl := cl_curl other, cl_headers := cl_headers other, cl_cb := cl_cb other\<rparr>;
          other = other\<lparr>cl_curl := None, cl_headers := None, cl_cb := False\<rparr>
      in put_client j other (put_client i this w))"

definition client_move_new :: "'c curl_api \<Rightarrow> nat \<Rightarrow> 'c http_world \<Rightarrow> 'c http_world" where
  "client_move_new api j w =
     (let i = length (hw_clients w);
          w = w\<lparr>hw_clients := hw_clients w @
                 [\<lparr>cl_error = [], cl_curl = None, cl_headers = None, cl_cb = False, cl_bw_period = 10,
                   cl_bw_speed = 10000, cl_alive = True\<rparr>]\<rparr>
      in client_assign api i j w)"

definition client_move_assign :: "'c curl_api \<Rightarrow> nat \<Rightarrow> nat \<Rightarrow> 'c http_world \<Rightarrow> 'c http_world" where
  "client_move_assign api i j w = (if i \<noteq> j then client_assign api i j w else w)"

definition client_delete :: "nat \<Rightarrow> 'c http_world \<Rightarrow> 'c http_world" where
  "client_delete i w =
     (let c = hw_clients w ! i
      in put_client i (c\<lparr>cl_curl := None, cl_headers := None, cl_alive := False\<rparr>) (free_list (cl_headers c) w))"

definition is_http_success :: "int \<Rightarrow> bool" where
  "is_http_success status_code \<longleftrightarrow> 200 \<le> status_code \<and> status_code < 300"

definition moved_error :: exn where
  "moved_error = NstlException ''curl pointer is nullptr: we should use instance after move''"

text \<open>The options \<^verbatim>\<open>_common\<close> sets, in its order.\<close>

definition common_opts :: "'c curl_api \<Rightarrow> string \<Rightarrow> int \<Rightarrow> bool \<Rightarrow> 'c client \<Rightarrow> (curl_opt \<times> curl_val) list" where
  "common_opts api url timeout verify c =
     (if 0 < timeout then [(CONNECTTIMEOUT_MS, VLong timeout), (TIMEOUT_MS, VLong timeout)] else []) @
     [(LOW_SPEED_TIME, VLong (cl_bw_period c)), (LOW_SPEED_LIMIT, VLong (cl_bw_speed c)),
      (TCP_KEEPALIVE, VLong 1), (TCP_KEEPIDLE, VLong 30), (TCP_KEEPINTVL, VLong 10)] @
     (if curl_has_keepcnt api then [(TCP_KEEPCNT, VLong 3)] else []) @
     [(WRITEFUNCTION, VFun ''writeFunction''), (HEADERFUNCTION, VFun ''headerFunction''), (URL, VStr url)] @
     (case cl_headers c of Some a \<Rightarrow> [(HTTPHEADER, VList a)] | None \<Rightarrow> []) @
     [(SSL_VERIFYPEER, VLong (if verify then 1 else 0)), (FOLLOWLOCATION, VLong 1), (MAXREDIRS, VLong 10)]"

text \<open>Options are set on the handle of client \<open>i\<close>.\<close>

definition client_setopts ::
    "'c curl_api \<Rightarrow> nat \<Rightarrow> (curl_opt \<times> curl_val) list \<Rightarrow> 'c http_world \<Rightarrow> 'c http_world \<times> unit result" where
  "client_setopts api i opts w =
     (case cl_curl (hw_clients w ! i) of
        None \<Rightarrow> (w, Inl Undefined)
      | Some h \<Rightarrow>
          (case curl_checks api opts h of
             (h, r) \<Rightarrow> (put_client i ((hw_clients w ! i)\<lparr>cl_curl := Some h\<rparr>) w, r)))"

definition client_common ::
    "'c curl_api \<Rightarrow> nat \<Rightarrow> cstring \<Rightarrow> int \<Rightarrow> bool \<Rightarrow> 'c http_world \<Rightarrow> 'c http_world \<times> unit result" where
  "client_common api i url timeout verify w =
     (let c = hw_clients w ! i in
      if cl_curl c = None then (w, Inl moved_error)
      else case url of
             None \<Rightarrow> (w, Inl (NstlException ''URL pointer is nullptr!''))
           | Some u \<Rightarrow>
               client_setopts api i (common_opts api u timeout verify c) (put_client i (c\<lparr>cl_error := []\<rparr>) w))"

text \<open>The transfer: libcurl reads the header list, calls the two functions, and on failure writes to the error buffer. A
  list that is freed and a buffer of an object that is gone must not be used.\<close>

definition client_perform ::
    "'c curl_api \<Rightarrow> nat \<Rightarrow> 'c http_world \<Rightarrow> 'c http_world \<times> (int \<times> string) result" where
  "client_perform api i w =
     (case cl_curl (hw_clients w ! i) of
        None \<Rightarrow> (w, Inl Undefined)
      | Some h \<Rightarrow>
          if (case curl_opts api h HTTPHEADER of Some (VList a) \<Rightarrow> hw_lists w ! a = None | _ \<Rightarrow> False)
          then (w, Inl Undefined)
          else case curl_easy_perform api h of
            (h, t) \<Rightarrow>
              let body = foldl (\<lambda>d bs. fst (writeFunction (Some bs) d)) (Some []) (tr_chunks t);
                  c = (hw_clients w ! i)\<lparr>cl_curl := Some h\<rparr>;
                  w = (put_client i c w)\<lparr>hw_lines :=
                        foldl (\<lambda>ls bs. fst (headerFunction (Some bs) (Some (cl_cb c)) ls)) (hw_lines w) (tr_headers t)\<rparr>
              in if tr_ok t
                 then (case curl_response_code api h of
                         None \<Rightarrow> (w, Inl (NstlException '' failed: ''))
                       | Some code \<Rightarrow> (w, Inr (signed_take_bit 31 code, case body of Some b \<Rightarrow> b | None \<Rightarrow> [])))
                 else (case curl_opts api h ERRORBUFFER of
                         Some (VError j) \<Rightarrow>
                           (if cl_alive (hw_clients w ! j)
                            then (put_client j ((hw_clients w ! j)\<lparr>cl_error := tr_error t\<rparr>) w,
                                  Inl (NstlException '' failed: ''))
                            else (w, Inl Undefined))
                       | _ \<Rightarrow> (w, Inl (NstlException '' failed: ''))))"

definition client_get ::
    "'c curl_api \<Rightarrow> nat \<Rightarrow> cstring \<Rightarrow> int \<Rightarrow> bool \<Rightarrow> 'c http_world \<Rightarrow> 'c http_world \<times> (int \<times> string) result" where
  "client_get api i url timeout verify w =
     (case client_common api i url timeout verify w of
        (w, Inl e) \<Rightarrow> (w, Inl e)
      | (w, Inr _) \<Rightarrow>
          (case client_setopts api i [(HTTPGET, VLong 1), (WRITEDATA, VData []), (HEADERDATA, VCbs i)] w of
             (w, Inl e) \<Rightarrow> (w, Inl e)
           | (w, Inr _) \<Rightarrow> client_perform api i w))"

definition post_opts :: "nat \<Rightarrow> string \<Rightarrow> (curl_opt \<times> curl_val) list" where
  "post_opts i data =
     (POST, VLong 1) #
     (if data = [] then [(POSTFIELDSIZE, VLong 0), (POSTFIELDS, VNull)]
      else [(POSTFIELDSIZE, VLong (int (length data))), (POSTFIELDS, VData data)]) @
     [(WRITEDATA, VData []), (HEADERDATA, VCbs i)]"

definition client_post_data ::
    "'c curl_api \<Rightarrow> nat \<Rightarrow> cstring \<Rightarrow> string \<Rightarrow> int \<Rightarrow> bool \<Rightarrow> 'c http_world \<Rightarrow> 'c http_world \<times> (int \<times> string) result" where
  "client_post_data api i url data timeout verify w =
     (case client_common api i url timeout verify w of
        (w, Inl e) \<Rightarrow> (w, Inl e)
      | (w, Inr _) \<Rightarrow>
          (case client_setopts api i (post_opts i data) w of
             (w, Inl e) \<Rightarrow> (w, Inl e)
           | (w, Inr _) \<Rightarrow> client_perform api i w))"

definition client_post ::
    "'c curl_api \<Rightarrow> nat \<Rightarrow> cstring \<Rightarrow> int \<Rightarrow> bool \<Rightarrow> 'c http_world \<Rightarrow> 'c http_world \<times> (int \<times> string) result" where
  "client_post api i url timeout verify w = client_post_data api i url [] timeout verify w"

text \<open>\<^verbatim>\<open>curl_slist_append\<close> starts a list, or extends the one it is given in place.\<close>

definition add_header :: "'c curl_api \<Rightarrow> nat \<Rightarrow> cstring \<Rightarrow> 'c http_world \<Rightarrow> 'c http_world \<times> bool result" where
  "add_header api i header w =
     (let c = hw_clients w ! i in
      if cl_curl c = None then (w, Inl moved_error)
      else case header of
             None \<Rightarrow> (w, Inl (NstlException ''header is nullptr''))
           | Some h \<Rightarrow>
               (if \<not> curl_slist_append_ok api h then (w, Inl (NstlException ''curl_slist_append failed''))
                else case cl_headers c of
                       None \<Rightarrow>
                         (put_client i (c\<lparr>cl_headers := Some (length (hw_lists w))\<rparr>) (w\<lparr>hw_lists := hw_lists w @ [Some [h]]\<rparr>),
                          Inr True)
                     | Some a \<Rightarrow>
                         (case hw_lists w ! a of
                            Some hs \<Rightarrow> (w\<lparr>hw_lists := (hw_lists w)[a := Some (hs @ [h])]\<rparr>, Inr True)
                          | None \<Rightarrow> (w, Inl Undefined))))"

definition url_encode :: "'c curl_api \<Rightarrow> string \<Rightarrow> 'c client \<Rightarrow> string result" where
  "url_encode api data c =
     (case cl_curl c of
        None \<Rightarrow> Inl moved_error
      | Some h \<Rightarrow>
          (if data = [] then Inr []
           else case curl_easy_escape api h data of
                  None \<Rightarrow> Inl (NstlException '' failed to be encoded by curl_easy_escape'')
                | Some encoded \<Rightarrow> Inr encoded))"

definition url_decode :: "'c curl_api \<Rightarrow> string \<Rightarrow> 'c client \<Rightarrow> string result" where
  "url_decode api data c =
     (case cl_curl c of
        None \<Rightarrow> Inl moved_error
      | Some h \<Rightarrow>
          (if data = [] then Inr []
           else case curl_easy_unescape api h data of
                  None \<Rightarrow> Inl (NstlException '' failed to be decoded by curl_easy_unescape'')
                | Some decoded \<Rightarrow> Inr decoded))"

definition error_view :: "'c client \<Rightarrow> string result" where
  "error_view c = (if cl_curl c = None then Inl moved_error else Inr (cl_error c))"

definition client_reset :: "'c curl_api \<Rightarrow> nat \<Rightarrow> 'c http_world \<Rightarrow> 'c http_world \<times> unit result" where
  "client_reset api i w =
     (case cl_curl (hw_clients w ! i) of
        None \<Rightarrow> (w, Inl moved_error)
      | Some h \<Rightarrow> (put_client i ((hw_clients w ! i)\<lparr>cl_curl := Some (curl_easy_reset api h)\<rparr>) w, Inr ()))"

definition reset_hdrs :: "nat \<Rightarrow> 'c http_world \<Rightarrow> 'c http_world" where
  "reset_hdrs i w =
     (let c = hw_clients w ! i in put_client i (c\<lparr>cl_headers := None\<rparr>) (free_list (cl_headers c) w))"

definition setHdrCb :: "nat \<Rightarrow> bool \<Rightarrow> 'c http_world \<Rightarrow> 'c http_world \<times> bool result" where
  "setHdrCb i cb w =
     (let c = hw_clients w ! i in
      if cl_curl c = None then (w, Inl moved_error) else (put_client i (c\<lparr>cl_cb := cb\<rparr>) w, Inr (cl_cb c)))"

definition minimumBandwidth :: "nat \<Rightarrow> int \<Rightarrow> int \<Rightarrow> 'c http_world \<Rightarrow> 'c http_world \<times> unit result" where
  "minimumBandwidth i check_period bandwidth w =
     (let c = hw_clients w ! i in
      if cl_curl c = None then (w, Inl moved_error)
      else if check_period < 0 then (w, Inl (NstlException ''Check period cannot be negative''))
      else if check_period = 0 \<or> bandwidth = 0
      then (put_client i (c\<lparr>cl_bw_period := 0, cl_bw_speed := 0\<rparr>) w, Inr ())
      else (put_client i (c\<lparr>cl_bw_period := check_period, cl_bw_speed := bandwidth\<rparr>) w, Inr ()))"

subsection \<open>Programs\<close>

datatype http_op =
    HNew bool
  | HMoveNew nat
  | HMoveAssign nat nat
  | HDelete nat
  | HGet nat cstring int bool
  | HPost nat cstring string int bool
  | HAddHeader nat cstring
  | HReset nat
  | HResetHdrs nat
  | HSetCb nat bool
  | HBandwidth nat int int

text \<open>One call, and whether it ran into undefined behaviour. Calls on objects that do not exist are not made.\<close>

definition client_here :: "nat \<Rightarrow> 'c http_world \<Rightarrow> bool" where
  "client_here i w \<longleftrightarrow> i < length (hw_clients w) \<and> cl_alive (hw_clients w ! i)"

definition outcome_of :: "'c http_world \<times> 'a result \<Rightarrow> 'c http_world \<times> bool" where
  "outcome_of r = (fst r, snd r = Inl Undefined)"

fun http_step :: "'c curl_api \<Rightarrow> http_op \<Rightarrow> 'c http_world \<Rightarrow> 'c http_world \<times> bool" where
  "http_step api (HNew verbose) w = outcome_of (client_new api verbose w)"
| "http_step api (HMoveNew j) w = (if client_here j w then client_move_new api j w else w, False)"
| "http_step api (HMoveAssign i j) w =
     (if client_here i w \<and> client_here j w then client_move_assign api i j w else w, False)"
| "http_step api (HDelete i) w = (if client_here i w then client_delete i w else w, False)"
| "http_step api (HGet i url timeout verify) w =
     (if client_here i w then outcome_of (client_get api i url timeout verify w) else (w, False))"
| "http_step api (HPost i url data timeout verify) w =
     (if client_here i w then outcome_of (client_post_data api i url data timeout verify w) else (w, False))"
| "http_step api (HAddHeader i h) w = (if client_here i w then outcome_of (add_header api i h w) else (w, False))"
| "http_step api (HReset i) w = (if client_here i w then outcome_of (client_reset api i w) else (w, False))"
| "http_step api (HResetHdrs i) w = (if client_here i w then reset_hdrs i w else w, False)"
| "http_step api (HSetCb i cb) w = (if client_here i w then outcome_of (setHdrCb i cb w) else (w, False))"
| "http_step api (HBandwidth i p b) w = (if client_here i w then outcome_of (minimumBandwidth i p b w) else (w, False))"

fun http_run :: "'c curl_api \<Rightarrow> http_op list \<Rightarrow> 'c http_world \<Rightarrow> 'c http_world \<times> bool" where
  "http_run api [] w = (w, False)"
| "http_run api (c # cs) w =
     (case http_step api c w of (w, ub) \<Rightarrow> if ub then (w, True) else http_run api cs w)"

definition http_empty :: "'c http_world" where
  "http_empty = \<lparr>hw_clients = [], hw_lists = [], hw_lines = []\<rparr>"

text \<open>The calls that take a header list or a handle away from the client it was set up for.\<close>

fun keeps_pointers :: "http_op \<Rightarrow> bool" where
  "keeps_pointers (HMoveNew _) = False"
| "keeps_pointers (HMoveAssign _ _) = False"
| "keeps_pointers (HResetHdrs _) = False"
| "keeps_pointers _ = True"

subsection \<open>URLs\<close>

text \<open>
  \<^verbatim>\<open>is_valid_url\<close> matches the expression of RFC 3986. Each of its groups is determined by the first of the characters that
  end it, so that the match is computed from left to right; the dot of the last group matches no line terminator.
\<close>

record url_match =
  um_scheme :: "string option"
  um_authority :: "string option"
  um_path :: string
  um_query :: "string option"
  um_fragment :: "string option"

definition until :: "string \<Rightarrow> string \<Rightarrow> string" where
  "until stops s = takeWhile (\<lambda>c. c \<notin> set stops) s"

definition url_scheme :: "string \<Rightarrow> string option \<times> string" where
  "url_scheme s =
     (let sch = until '':/?#'' s; rest = drop (length sch) s
      in if sch \<noteq> [] \<and> rest \<noteq> [] \<and> hd rest = CHR '':'' then (Some sch, tl rest) else (None, s))"

definition url_authority :: "string \<Rightarrow> string option \<times> string" where
  "url_authority s =
     (if take 2 s = ''//''
      then let a = until ''/?#'' (drop 2 s) in (Some a, drop (2 + length a) s)
      else (None, s))"

definition url_query :: "string \<Rightarrow> string option \<times> string" where
  "url_query s =
     (case s of
        CHR ''?'' # r \<Rightarrow> (let q = until ''#'' r in (Some q, drop (length q) r))
      | _ \<Rightarrow> (None, s))"

definition line_terminators :: string where
  "line_terminators = [CHR 0x0A, CHR 0x0D]"

definition is_valid_url_match :: "string \<Rightarrow> url_match option" where
  "is_valid_url_match url =
     (let (scheme, s) = url_scheme url;
          (authority, s) = url_authority s;
          path = until ''?#'' s; s = drop (length path) s;
          (query, s) = url_query s
      in case s of
           [] \<Rightarrow> Some \<lparr>um_scheme = scheme, um_authority = authority, um_path = path, um_query = query, um_fragment = None\<rparr>
         | c # frag \<Rightarrow>
             (if c = CHR ''#'' \<and> set frag \<inter> set line_terminators = {}
              then Some \<lparr>um_scheme = scheme, um_authority = authority, um_path = path, um_query = query,
                         um_fragment = Some frag\<rparr>
              else None))"

definition is_valid_url :: "string \<Rightarrow> bool" where
  "is_valid_url url \<longleftrightarrow> is_valid_url_match url \<noteq> None"

text \<open>The text of the groups, with the characters the expression puts between them.\<close>

definition url_text :: "url_match \<Rightarrow> string" where
  "url_text m =
     (case um_scheme m of Some s \<Rightarrow> s @ '':'' | None \<Rightarrow> []) @
     (case um_authority m of Some a \<Rightarrow> ''//'' @ a | None \<Rightarrow> []) @ um_path m @
     (case um_query m of Some q \<Rightarrow> ''?'' @ q | None \<Rightarrow> []) @
     (case um_fragment m of Some f \<Rightarrow> ''#'' @ f | None \<Rightarrow> [])"

section \<open>Theorems\<close>

subsection \<open>Pointers\<close>

definition client_ok :: "'c curl_api \<Rightarrow> 'c http_world \<Rightarrow> nat \<Rightarrow> bool" where
  "client_ok api w i \<longleftrightarrow>
     (\<forall>h. cl_curl (hw_clients w ! i) = Some h \<longrightarrow>
        cl_alive (hw_clients w ! i) \<and>
        (curl_opts api h ERRORBUFFER = None \<or> curl_opts api h ERRORBUFFER = Some (VError i)) \<and>
        (curl_opts api h HTTPHEADER = None \<or>
         (\<exists>a. cl_headers (hw_clients w ! i) = Some a \<and> curl_opts api h HTTPHEADER = Some (VList a)))) \<and>
     (\<forall>a. cl_headers (hw_clients w ! i) = Some a \<longrightarrow> a < length (hw_lists w) \<and> hw_lists w ! a \<noteq> None)"

definition http_ok :: "'c curl_api \<Rightarrow> 'c http_world \<Rightarrow> bool" where
  "http_ok api w \<longleftrightarrow>
     (\<forall>i < length (hw_clients w). client_ok api w i) \<and>
     (\<forall>i < length (hw_clients w). \<forall>j < length (hw_clients w). \<forall>a.
        cl_headers (hw_clients w ! i) = Some a \<longrightarrow> cl_headers (hw_clients w ! j) = Some a \<longrightarrow> i = j)"

lemma curl_checks_opts:
  assumes "curl_ok api"
  shows "curl_checks api opts c = (c', r) \<Longrightarrow> opt \<notin> fst ` set opts \<Longrightarrow> curl_opts api c' opt = curl_opts api c opt"
proof (induction opts arbitrary: c)
  case (Cons x opts)
  obtain o1 v where x: "x = (o1, v)" by (meson surj_pair)
  obtain c1 b where s: "curl_easy_setopt api o1 v c = (c1, b)" by (meson surj_pair)
  have "curl_opts api c1 opt = curl_opts api c opt"
    using assms s Cons.prems(2) x by (cases b) (auto simp: curl_ok_def)
  then show ?case using Cons s x by (cases b) auto
qed simp

text \<open>An option that is set to the same value wherever it is set has that value or its old one.\<close>

lemma curl_checks_opt_value:
  assumes "curl_ok api"
  shows "curl_checks api opts c = (c', r) \<Longrightarrow> \<forall>v'. (opt, v') \<in> set opts \<longrightarrow> v' = v \<Longrightarrow>
    curl_opts api c' opt = Some v \<or> curl_opts api c' opt = curl_opts api c opt"
proof (induction opts arbitrary: c)
  case (Cons x opts)
  obtain o1 v1 where x: "x = (o1, v1)" by (meson surj_pair)
  obtain c1 b where s: "curl_easy_setopt api o1 v1 c = (c1, b)" by (meson surj_pair)
  have "curl_opts api c1 opt = Some v \<or> curl_opts api c1 opt = curl_opts api c opt"
    using assms s Cons.prems(2) x by (cases b) (auto simp: curl_ok_def)
  then show ?case using Cons s x by (cases b) force+
qed simp

lemma curl_checks_defined: "curl_checks api opts c = (c', r) \<Longrightarrow> r \<noteq> Inl Undefined"
  by (induction opts arbitrary: c) (auto split: prod.splits bool.splits)

lemma put_client_access [simp]:
  "length (hw_clients (put_client i c w)) = length (hw_clients w)" "hw_lists (put_client i c w) = hw_lists w"
  "i < length (hw_clients w) \<Longrightarrow> hw_clients (put_client i c w) ! i = c"
  "j \<noteq> i \<Longrightarrow> hw_clients (put_client i c w) ! j = hw_clients w ! j"
  by (simp_all add: put_client_def)

lemma http_ok_put:
  assumes ok: "http_ok api w" and i: "i < length (hw_clients w)"
    and h: "cl_headers c = cl_headers (hw_clients w ! i)" and c: "client_ok api (put_client i c w) i"
  shows "http_ok api (put_client i c w)"
proof -
  have same: "cl_headers (hw_clients (put_client i c w) ! j) = cl_headers (hw_clients w ! j)" for j
    using h i by (cases "j = i") simp_all
  have "client_ok api (put_client i c w) j" if "j < length (hw_clients w)" for j
  proof (cases "j = i")
    case False
    then show ?thesis using ok that by (simp add: http_ok_def client_ok_def)
  qed (use c in simp)
  then show ?thesis using ok unfolding http_ok_def same by simp
qed

lemma client_setopts_ok:
  assumes api: "curl_ok api" and ok: "http_ok api w" and i: "i < length (hw_clients w)"
    and curl: "cl_curl (hw_clients w ! i) \<noteq> None" and e: "ERRORBUFFER \<notin> fst ` set opts"
    and hd: "\<forall>v. (HTTPHEADER, v) \<in> set opts \<longrightarrow> (\<exists>a. cl_headers (hw_clients w ! i) = Some a \<and> v = VList a)"
    and run: "client_setopts api i opts w = (w', r)"
  shows "http_ok api w' \<and> r \<noteq> Inl Undefined \<and> length (hw_clients w') = length (hw_clients w) \<and>
    cl_curl (hw_clients w' ! i) \<noteq> None"
proof -
  obtain h where h: "cl_curl (hw_clients w ! i) = Some h" using curl by blast
  obtain h' where ch: "curl_checks api opts h = (h', r)" and w': "w' = put_client i ((hw_clients w ! i)\<lparr>cl_curl := Some h'\<rparr>) w"
    using run h by (auto simp: client_setopts_def split: prod.splits)
  have cok: "client_ok api w i" using ok i by (simp add: http_ok_def)
  have eb: "curl_opts api h' ERRORBUFFER = curl_opts api h ERRORBUFFER" by (rule curl_checks_opts [OF api ch e])
  have "curl_opts api h' HTTPHEADER = curl_opts api h HTTPHEADER \<or>
      (\<exists>a. cl_headers (hw_clients w ! i) = Some a \<and> curl_opts api h' HTTPHEADER = Some (VList a))"
  proof (cases "cl_headers (hw_clients w ! i)")
    case None
    then have "HTTPHEADER \<notin> fst ` set opts" using hd by force
    then show ?thesis using curl_checks_opts [OF api ch] by blast
  next
    case (Some a)
    then show ?thesis using curl_checks_opt_value [OF api ch, of HTTPHEADER "VList a"] hd by auto
  qed
  then have "client_ok api w' i"
    using cok eb h i unfolding w' client_ok_def by (auto split: option.splits)
  then have "http_ok api w'" using http_ok_put [OF ok i] unfolding w' by simp
  then show ?thesis using curl_checks_defined [OF ch] i by (simp add: w')
qed

lemma common_opts_hdr:
  "ERRORBUFFER \<notin> fst ` set (common_opts api u t v c)"
  "(HTTPHEADER, x) \<in> set (common_opts api u t v c) \<Longrightarrow> \<exists>a. cl_headers c = Some a \<and> x = VList a"
  by (auto simp: common_opts_def split: option.splits if_splits)

lemma http_ok_error:
  assumes "http_ok api w" and "i < length (hw_clients w)"
  shows "http_ok api (put_client i ((hw_clients w ! i)\<lparr>cl_error := e\<rparr>) w)"
proof -
  have "client_ok api w i" using assms by (simp add: http_ok_def)
  then have "client_ok api (put_client i ((hw_clients w ! i)\<lparr>cl_error := e\<rparr>) w) i"
    using assms(2) by (simp add: client_ok_def Let_def)
  then show ?thesis using http_ok_put [OF assms] by simp
qed

lemma client_common_ok:
  assumes api: "curl_ok api" and ok: "http_ok api w" and i: "i < length (hw_clients w)"
    and run: "client_common api i url timeout verify w = (w', r)"
  shows "http_ok api w' \<and> r \<noteq> Inl Undefined \<and> length (hw_clients w') = length (hw_clients w) \<and>
    (r = Inr () \<longrightarrow> cl_curl (hw_clients w' ! i) \<noteq> None)"
proof (cases "cl_curl (hw_clients w ! i) = None \<or> url = None")
  case True
  then show ?thesis using run ok by (auto simp: client_common_def Let_def moved_error_def split: option.splits if_splits)
next
  case False
  then obtain u where u: "url = Some u" by blast
  let ?w = "put_client i ((hw_clients w ! i)\<lparr>cl_error := []\<rparr>) w"
  have run1: "client_setopts api i (common_opts api u timeout verify (hw_clients w ! i)) ?w = (w', r)"
    using run False u by (auto simp: client_common_def Let_def split: if_splits)
  have hd: "\<forall>v. (HTTPHEADER, v) \<in> set (common_opts api u timeout verify (hw_clients w ! i)) \<longrightarrow>
      (\<exists>a. cl_headers (hw_clients ?w ! i) = Some a \<and> v = VList a)"
    using common_opts_hdr(2) i by fastforce
  have "i < length (hw_clients ?w)" "cl_curl (hw_clients ?w ! i) \<noteq> None" using i False by simp_all
  from client_setopts_ok [OF api http_ok_error [OF ok i] this common_opts_hdr(1) hd run1]
  show ?thesis by simp
qed

lemma client_perform_ok:
  assumes api: "curl_ok api" and ok: "http_ok api w" and i: "i < length (hw_clients w)"
    and curl: "cl_curl (hw_clients w ! i) \<noteq> None" and run: "client_perform api i w = (w', r)"
  shows "http_ok api w' \<and> r \<noteq> Inl Undefined"
proof -
  obtain h where h: "cl_curl (hw_clients w ! i) = Some h" using curl by blast
  have cok: "client_ok api w i" using ok i by (simp add: http_ok_def)
  obtain h' t where p: "curl_easy_perform api h = (h', t)" by (meson surj_pair)
  have opts: "curl_opts api h' = curl_opts api h" using api p unfolding curl_ok_def by (metis fst_conv)
  define c where "c = (hw_clients w ! i)\<lparr>cl_curl := Some h'\<rparr>"
  have hdr: "\<not> (case curl_opts api h HTTPHEADER of Some (VList a) \<Rightarrow> hw_lists w ! a = None | _ \<Rightarrow> False)"
    using cok h by (auto simp: client_ok_def Let_def split: option.splits)
  define w1 where "w1 = (put_client i c w)\<lparr>hw_lines :=
      foldl (\<lambda>ls bs. fst (headerFunction (Some bs) (Some (cl_cb c)) ls)) (hw_lines w) (tr_headers t)\<rparr>"
  have "client_ok api (put_client i c w) i"
    using cok h i opts by (simp add: client_ok_def Let_def c_def)
  then have "http_ok api (put_client i c w)" by (intro http_ok_put [OF ok i]) (simp_all add: c_def)
  then have ok1: "http_ok api w1" by (simp add: http_ok_def client_ok_def w1_def)
  have alive: "cl_alive (hw_clients w1 ! i)"
    using cok h i by (simp add: client_ok_def Let_def w1_def c_def)
  have eb: "curl_opts api h' ERRORBUFFER = None \<or> curl_opts api h' ERRORBUFFER = Some (VError i)"
    using cok h opts by (simp add: client_ok_def Let_def)
  have i1: "i < length (hw_clients w1)" using i by (simp add: w1_def)
  have "client_perform api i w =
      (if tr_ok t
       then (case curl_response_code api h' of
               None \<Rightarrow> (w1, Inl (NstlException '' failed: ''))
             | Some code \<Rightarrow> (w1, Inr (signed_take_bit 31 code,
                 case foldl (\<lambda>d bs. fst (writeFunction (Some bs) d)) (Some []) (tr_chunks t) of Some b \<Rightarrow> b | None \<Rightarrow> [])))
       else (case curl_opts api h' ERRORBUFFER of
               Some (VError j) \<Rightarrow>
                 (if cl_alive (hw_clients w1 ! j)
                  then (put_client j ((hw_clients w1 ! j)\<lparr>cl_error := tr_error t\<rparr>) w1, Inl (NstlException '' failed: ''))
                  else (w1, Inl Undefined))
             | _ \<Rightarrow> (w1, Inl (NstlException '' failed: ''))))"
    using hdr h p unfolding client_perform_def w1_def c_def by (simp add: Let_def)
  then show ?thesis
    using run ok1 alive eb http_ok_error [OF ok1 i1] by (auto split: if_splits option.splits)
qed

lemma request_ok:
  assumes api: "curl_ok api" and ok: "http_ok api w" and i: "i < length (hw_clients w)"
    and opts: "ERRORBUFFER \<notin> fst ` set opts" "HTTPHEADER \<notin> fst ` set opts"
    and run: "(case client_common api i url timeout verify w of
        (w, Inl e) \<Rightarrow> (w, Inl e)
      | (w, Inr _) \<Rightarrow>
          (case client_setopts api i opts w of (w, Inl e) \<Rightarrow> (w, Inl e) | (w, Inr _) \<Rightarrow> client_perform api i w)) = (w', r)"
  shows "http_ok api w' \<and> r \<noteq> Inl Undefined"
proof -
  obtain w1 r1 where c: "client_common api i url timeout verify w = (w1, r1)" by (meson surj_pair)
  note c_ok = client_common_ok [OF api ok i c]
  show ?thesis
  proof (cases r1)
    case (Inl e)
    then show ?thesis using run c c_ok by auto
  next
    case (Inr u)
    obtain w2 r2 where s: "client_setopts api i opts w1 = (w2, r2)" by (meson surj_pair)
    have s_ok: "http_ok api w2 \<and> r2 \<noteq> Inl Undefined \<and> length (hw_clients w2) = length (hw_clients w1) \<and>
        cl_curl (hw_clients w2 ! i) \<noteq> None"
      using client_setopts_ok [OF api _ _ _ opts(1) _ s] c_ok i Inr opts(2) by force
    show ?thesis
    proof (cases r2)
      case (Inl e)
      then show ?thesis using run c s Inr s_ok by auto
    next
      case (Inr v)
      then have p: "client_perform api i w2 = (w', r)" using run c s \<open>r1 = Inr u\<close> by simp
      show ?thesis using client_perform_ok [OF api _ _ _ p] s_ok c_ok i by simp
    qed
  qed
qed

lemma post_opts_hdr: "ERRORBUFFER \<notin> fst ` set (post_opts i data)" "HTTPHEADER \<notin> fst ` set (post_opts i data)"
  by (auto simp: post_opts_def)

lemma client_new_ok:
  assumes api: "curl_ok api" and ok: "http_ok api w" and run: "client_new api verbose w = (w', r)"
  shows "http_ok api w' \<and> r \<noteq> Inl Undefined"
proof -
  let ?i = "length (hw_clients w)"
  let ?opts = "[(NOSIGNAL, VLong 1), (ERRORBUFFER, VError ?i)] @
     (if verbose then [(DEBUGFUNCTION, VFun ''my_trace''), (VERBOSE, VLong 1)] else [])"
  show ?thesis
  proof (cases "curl_easy_init api")
    case None
    then show ?thesis using run ok by (auto simp: client_new_def)
  next
    case (Some c)
    obtain c1 r1 where ch: "curl_checks api ?opts c = (c1, r1)" by (meson surj_pair)
    show ?thesis
    proof (cases r1)
      case (Inl e)
      then have "(w', r) = (w, Inl e)" using run Some ch by (simp add: client_new_def Let_def)
      then show ?thesis using ok curl_checks_defined [OF ch] Inl by simp
    next
      case (Inr u)
      let ?c = "\<lparr>cl_error = [], cl_curl = Some c1, cl_headers = None, cl_cb = False, cl_bw_period = 10,
                     cl_bw_speed = 10000, cl_alive = True\<rparr>"
      have w': "w' = w\<lparr>hw_clients := hw_clients w @ [?c]\<rparr>" "r = Inr ?i"
        using run Some ch Inr by (simp_all add: client_new_def Let_def)
      have "curl_opts api c = Map.empty" using api Some by (simp add: curl_ok_def)
      moreover have "HTTPHEADER \<notin> fst ` set ?opts" by (cases verbose) simp_all
      moreover have "\<forall>v. (ERRORBUFFER, v) \<in> set ?opts \<longrightarrow> v = VError ?i" by (cases verbose) simp_all
      ultimately have "curl_opts api c1 ERRORBUFFER = Some (VError ?i) \<or> curl_opts api c1 ERRORBUFFER = None"
        "curl_opts api c1 HTTPHEADER = None"
        using curl_checks_opt_value [OF api ch, of ERRORBUFFER "VError ?i"] curl_checks_opts [OF api ch, of HTTPHEADER]
        by simp_all
      then show ?thesis using ok w' by (auto simp: http_ok_def client_ok_def nth_append less_Suc_eq)
    qed
  qed
qed

lemma http_ok_lists:
  assumes "http_ok api w" and "length (hw_lists w) \<le> length ls"
    and "\<And>b. b < length (hw_lists w) \<Longrightarrow> hw_lists w ! b \<noteq> None \<Longrightarrow> ls ! b \<noteq> None"
  shows "http_ok api (w\<lparr>hw_lists := ls\<rparr>)"
proof -
  have "client_ok api (w\<lparr>hw_lists := ls\<rparr>) i" if "client_ok api w i" for i
    using that assms(2,3) unfolding client_ok_def by fastforce
  then show ?thesis using assms(1) by (simp add: http_ok_def)
qed

lemma add_header_ok:
  assumes ok: "http_ok api w" and i: "i < length (hw_clients w)" and run: "add_header api i header w = (w', r)"
  shows "http_ok api w' \<and> r \<noteq> Inl Undefined"
proof (cases "cl_curl (hw_clients w ! i) = None \<or> header = None \<or> (\<exists>h. header = Some h \<and> \<not> curl_slist_append_ok api h)")
  case True
  then show ?thesis using run ok by (auto simp: add_header_def Let_def moved_error_def split: option.splits if_splits)
next
  case False
  then obtain h where h: "header = Some h" "curl_slist_append_ok api h" by (cases header) auto
  show ?thesis
  proof (cases "cl_headers (hw_clients w ! i)")
    case None
    let ?n = "length (hw_lists w)"
    let ?c = "(hw_clients w ! i)\<lparr>cl_headers := Some ?n\<rparr>"
    have w': "w' = put_client i ?c (w\<lparr>hw_lists := hw_lists w @ [Some [h]]\<rparr>)" "r = Inr True"
      using run False h None by (auto simp: add_header_def Let_def split: if_splits)
    have hds: "cl_headers (hw_clients w' ! j) = (if j = i then Some ?n else cl_headers (hw_clients w ! j))" for j
      using i by (simp add: w' put_client_def)
    have old: "a < ?n" if "cl_headers (hw_clients w ! j) = Some a" "j < length (hw_clients w)" for j a
      using ok that by (auto simp: http_ok_def client_ok_def)
    have "client_ok api w' j" if j: "j < length (hw_clients w)" for j
    proof (cases "j = i")
      case True
      have "client_ok api w i" using ok i by (simp add: http_ok_def)
      then show ?thesis using True i None by (auto simp: client_ok_def w' put_client_def)
    next
      case False
      have "client_ok api w j" using ok j by (simp add: http_ok_def)
      then show ?thesis using False old [OF _ j] by (auto simp: client_ok_def w' put_client_def nth_append)
    qed
    moreover have "j = k"
      if "j < length (hw_clients w)" "k < length (hw_clients w)" "cl_headers (hw_clients w' ! j) = Some a"
        "cl_headers (hw_clients w' ! k) = Some a" for j k a
      using that old ok unfolding hds http_ok_def by (metis less_irrefl option.inject)
    ultimately show ?thesis using w' by (simp add: http_ok_def put_client_def)
  next
    case (Some a)
    have "client_ok api w i" using ok i by (simp add: http_ok_def)
    then obtain hs where hs: "hw_lists w ! a = Some hs" "a < length (hw_lists w)"
      using Some by (auto simp: client_ok_def)
    have "w' = w\<lparr>hw_lists := (hw_lists w)[a := Some (hs @ [h])]\<rparr>" "r = Inr True"
      using run False h Some hs by (auto simp: add_header_def Let_def split: if_splits)
    moreover have "http_ok api (w\<lparr>hw_lists := (hw_lists w)[a := Some (hs @ [h])]\<rparr>)"
      by (rule http_ok_lists [OF ok]) (use hs in \<open>auto simp: nth_list_update\<close>)
    ultimately show ?thesis by simp
  qed
qed

lemma http_step_ok:
  assumes api: "curl_ok api" and ok: "http_ok api w" and keep: "keeps_pointers c" and run: "http_step api c w = (w', ub)"
  shows "http_ok api w' \<and> \<not> ub"
proof (cases c)
  case (HNew verbose)
  then show ?thesis
    using client_new_ok [OF api ok, of verbose] run by (cases "client_new api verbose w") (auto simp: outcome_of_def)
next
  case (HDelete i)
  show ?thesis
  proof (cases "client_here i w")
    case True
    then have i: "i < length (hw_clients w)" by (simp add: client_here_def)
    let ?c = "(hw_clients w ! i)\<lparr>cl_curl := None, cl_headers := None, cl_alive := False\<rparr>"
    have w': "w' = put_client i ?c (free_list (cl_headers (hw_clients w ! i)) w)" "\<not> ub"
      using run HDelete True by (auto simp: client_delete_def Let_def)
    have "http_ok api (put_client i ?c (free_list (cl_headers (hw_clients w ! i)) w))" 
      using ok i unfolding http_ok_def client_ok_def free_list_def put_client_def
      by (cases "cl_headers (hw_clients w ! i)") (auto simp: nth_list_update split: if_splits)
    then show ?thesis using w' by simp
  qed (use run HDelete ok in auto)
next
  case (HGet i url t v)
  have "ERRORBUFFER \<notin> fst ` set [(HTTPGET, VLong 1), (WRITEDATA, VData []), (HEADERDATA, VCbs i)]"
    "HTTPHEADER \<notin> fst ` set [(HTTPGET, VLong 1), (WRITEDATA, VData []), (HEADERDATA, VCbs i)]" by simp_all
  note req = request_ok [OF api ok _ this]
  show ?thesis
    using req [of i url t v] run HGet ok
    by (cases "client_get api i url t v w") (auto simp: client_get_def outcome_of_def client_here_def split: if_splits)
next
  case (HPost i url data t v)
  show ?thesis
    using request_ok [OF api ok _ post_opts_hdr, of i i data url t v] run HPost ok
    by (cases "client_post_data api i url data t v w")
      (auto simp: client_post_data_def outcome_of_def client_here_def split: if_splits)
next
  case (HAddHeader i h)
  then show ?thesis
    using add_header_ok [OF ok, of i h] run ok
    by (cases "add_header api i h w") (auto simp: outcome_of_def client_here_def split: if_splits)
next
  case (HReset i)
  show ?thesis
  proof (cases "client_here i w \<and> cl_curl (hw_clients w ! i) \<noteq> None")
    case True
    then obtain h where h: "cl_curl (hw_clients w ! i) = Some h" "i < length (hw_clients w)"
      by (auto simp: client_here_def)
    let ?c = "(hw_clients w ! i)\<lparr>cl_curl := Some (curl_easy_reset api h)\<rparr>"
    have "client_ok api w i" using ok h by (simp add: http_ok_def)
    then have "client_ok api (put_client i ?c w) i" using api h by (auto simp: client_ok_def curl_ok_def)
    then have "http_ok api (put_client i ?c w)" by (intro http_ok_put [OF ok h(2)]) simp_all
    then show ?thesis using run HReset True h by (auto simp: outcome_of_def client_reset_def)
  qed (use run HReset ok in \<open>auto simp: outcome_of_def client_reset_def moved_error_def split: if_splits\<close>)
next
  case (HSetCb i cb)
  have "http_ok api (put_client i ((hw_clients w ! i)\<lparr>cl_cb := cb\<rparr>) w)" if i: "i < length (hw_clients w)"
  proof -
    have "client_ok api w i" using ok i by (simp add: http_ok_def)
    then show ?thesis using i by (intro http_ok_put [OF ok i]) (simp_all add: client_ok_def)
  qed
  then show ?thesis
    using run HSetCb ok
    by (auto simp: outcome_of_def setHdrCb_def Let_def moved_error_def client_here_def split: if_splits)
next
  case (HBandwidth i p b)
  have "http_ok api (put_client i ((hw_clients w ! i)\<lparr>cl_bw_period := x, cl_bw_speed := y\<rparr>) w)"
    if i: "i < length (hw_clients w)" for x y
  proof -
    have "client_ok api w i" using ok i by (simp add: http_ok_def)
    then show ?thesis using i by (intro http_ok_put [OF ok i]) (simp_all add: client_ok_def)
  qed
  then show ?thesis
    using run HBandwidth ok
    by (auto simp: outcome_of_def minimumBandwidth_def Let_def moved_error_def client_here_def split: if_splits)
qed (use keep in simp_all)

lemma http_ok_empty: "http_ok api http_empty"
  by (simp add: http_ok_def http_empty_def)

text \<open>C8. The pointers a client leaves with libcurl stay good: a program that makes clients, sends requests, adds headers, sets
  callbacks and limits, resets handles and destroys clients, in any order and whichever calls of libcurl fail, never
  lets a transfer use a freed header list or the error buffer of another or a destroyed object.\<close>

theorem http_pointers_good:
  assumes "curl_ok api" and "\<forall>c \<in> set cs. keeps_pointers c"
  shows "\<not> snd (http_run api cs http_empty)"
proof -
  have "\<not> snd (http_run api cs w)" if "http_ok api w" "\<forall>c \<in> set cs. keeps_pointers c" for w
    using that
  proof (induction cs arbitrary: w)
    case (Cons c cs)
    obtain w1 ub where s: "http_step api c w = (w1, ub)" by (meson surj_pair)
    have "http_ok api w1" "\<not> ub" using http_step_ok [OF assms(1) Cons.prems(1) _ s] Cons.prems(2) by simp_all
    then show ?case using Cons.IH [of w1] Cons.prems(2) s by simp
  qed simp
  then show ?thesis using assms(2) http_ok_empty by blast
qed

text \<open>A handle that is the map of its options and takes them all; every transfer fails or succeeds.\<close>

definition map_curl :: "bool \<Rightarrow> (curl_opt \<Rightarrow> curl_val option) curl_api" where
  "map_curl ok =
     \<lparr>curl_easy_init = Some Map.empty, curl_easy_setopt = (\<lambda>opt v c. (c(opt \<mapsto> v), True)), curl_easy_reset = (\<lambda>c. Map.empty),
      curl_easy_perform = (\<lambda>c. (c, \<lparr>tr_ok = ok, tr_chunks = [''body''], tr_headers = [], tr_error = ''no route''\<rparr>)),
      curl_response_code = (\<lambda>c. Some 200), curl_easy_escape = (\<lambda>c s. Some s), curl_easy_unescape = (\<lambda>c s. Some s),
      curl_slist_append_ok = (\<lambda>s. True), curl_has_keepcnt = True, curl_opts = (\<lambda>c. c)\<rparr>"

lemma map_curl_ok: "curl_ok (map_curl ok)"
  by (simp add: curl_ok_def map_curl_def)

theorem http_pointers_good_witness:
  "\<not> snd (http_run (map_curl True)
     [HNew False, HAddHeader 0 (Some ''a: b''), HGet 0 (Some ''http://x'') 10 True, HDelete 0] http_empty)"
  using http_pointers_good [OF map_curl_ok,
      of "[HNew False, HAddHeader 0 (Some ''a: b''), HGet 0 (Some ''http://x'') 10 True, HDelete 0]"] by simp

text \<open>The options after a sequence of settings that all succeed.\<close>

definition takes_all :: "'c curl_api \<Rightarrow> bool" where
  "takes_all api \<longleftrightarrow> (\<forall>opt v c. snd (curl_easy_setopt api opt v c))"

lemma curl_checks_all:
  assumes "curl_ok api" and "takes_all api"
  shows "\<exists>c'. curl_checks api opts c = (c', Inr ()) \<and> curl_opts api c' = foldl (\<lambda>m (opt, v). m(opt \<mapsto> v)) (curl_opts api c) opts"
proof (induction opts arbitrary: c)
  case (Cons x opts)
  obtain o1 v where x: "x = (o1, v)" by (meson surj_pair)
  obtain c1 b where s: "curl_easy_setopt api o1 v c = (c1, b)" by (meson surj_pair)
  have b: "b" using assms(2) s unfolding takes_all_def by (metis snd_conv)
  then have "curl_opts api c1 = (curl_opts api c)(o1 \<mapsto> v)" using assms(1) s by (simp add: curl_ok_def)
  then show ?case using Cons.IH [of c1] s b x by auto
qed simp

definition set_all :: "(curl_opt \<times> curl_val) list \<Rightarrow> (curl_opt \<Rightarrow> curl_val option) \<Rightarrow> curl_opt \<Rightarrow> curl_val option" where
  "set_all opts m = foldl (\<lambda>m (opt, v). m(opt \<mapsto> v)) m opts"

lemma set_all_simps:
  "set_all [] m = m" "set_all ((opt, v) # opts) m = set_all opts (m(opt \<mapsto> v))"
  "set_all (xs @ ys) m = set_all ys (set_all xs m)"
  by (simp_all add: set_all_def)

lemma set_all_other: "opt \<notin> fst ` set opts \<Longrightarrow> set_all opts m opt = m opt"
  by (induction opts arbitrary: m) (auto simp: set_all_simps)

lemma client_get_opts:
  assumes api: "curl_ok api" "takes_all api" and i: "i < length (hw_clients w)" and h: "cl_curl (hw_clients w ! i) = Some h"
  shows "\<exists>h'. client_get api i (Some u) t v w =
      client_perform api i (put_client i ((hw_clients w ! i)\<lparr>cl_error := [], cl_curl := Some h'\<rparr>) w) \<and>
    curl_opts api h' =
      set_all (common_opts api u t v (hw_clients w ! i) @ [(HTTPGET, VLong 1), (WRITEDATA, VData []), (HEADERDATA, VCbs i)])
        (curl_opts api h)"
proof -
  let ?o1 = "common_opts api u t v (hw_clients w ! i)"
  let ?o2 = "[(HTTPGET, VLong 1), (WRITEDATA, VData []), (HEADERDATA, VCbs i)]"
  obtain h1 where h1: "curl_checks api ?o1 h = (h1, Inr ())" "curl_opts api h1 = set_all ?o1 (curl_opts api h)"
    using curl_checks_all [OF api] unfolding set_all_def by blast
  obtain h2 where h2: "curl_checks api ?o2 h1 = (h2, Inr ())" "curl_opts api h2 = set_all ?o2 (curl_opts api h1)"
    using curl_checks_all [OF api, of ?o2 h1] unfolding set_all_def by blast
  have "client_get api i (Some u) t v w =
      client_perform api i (put_client i ((hw_clients w ! i)\<lparr>cl_error := [], cl_curl := Some h2\<rparr>) w)"
    using i h h1(1) h2(1)
    by (simp add: client_get_def client_common_def client_setopts_def Let_def put_client_def del: curl_checks.simps)
  then show ?thesis using h1(2) h2(2) by (auto simp: set_all_simps)
qed

lemma client_perform_stale:
  assumes "cl_curl (hw_clients w ! i) = Some h" and "curl_opts api h HTTPHEADER = Some (VList a)" and "hw_lists w ! a = None"
  shows "client_perform api i w = (w, Inl Undefined)"
  using assms by (simp add: client_perform_def)

text \<open>What a transfer leaves: the options of the handle and the lists.\<close>

lemma client_perform_keeps:
  assumes api: "curl_ok api" and i: "i < length (hw_clients w)" and h: "cl_curl (hw_clients w ! i) = Some h"
    and run: "client_perform api i w = (w', r)"
  shows "hw_lists w' = hw_lists w \<and> length (hw_clients w') = length (hw_clients w) \<and>
    cl_headers (hw_clients w' ! i) = cl_headers (hw_clients w ! i) \<and> cl_alive (hw_clients w' ! i) = cl_alive (hw_clients w ! i) \<and>
    (\<exists>h'. cl_curl (hw_clients w' ! i) = Some h' \<and> curl_opts api h' = curl_opts api h)"
proof (cases "case curl_opts api h HTTPHEADER of Some (VList a) \<Rightarrow> hw_lists w ! a = None | _ \<Rightarrow> False")
  case True
  then have "w' = w" using run h by (simp add: client_perform_def)
  then show ?thesis using h by simp
next
  case False
  obtain h' t where p: "curl_easy_perform api h = (h', t)" by (meson surj_pair)
  have opts: "curl_opts api h' = curl_opts api h" using api p unfolding curl_ok_def by (metis fst_conv)
  let ?c = "(hw_clients w ! i)\<lparr>cl_curl := Some h'\<rparr>"
  let ?ls = "foldl (\<lambda>ls bs. fst (headerFunction (Some bs) (Some (cl_cb ?c)) ls)) (hw_lines w) (tr_headers t)"
  define w1 where "w1 = (put_client i ?c w)\<lparr>hw_lines := ?ls\<rparr>"
  have "w' = w1 \<or> (\<exists>j e. w' = put_client j ((hw_clients w1 ! j)\<lparr>cl_error := e\<rparr>) w1)"
    using run h p False unfolding client_perform_def w1_def
    by (auto simp: Let_def split: if_splits option.splits curl_val.splits)
  then obtain j e where w': "w' = w1 \<or> w' = put_client j ((hw_clients w1 ! j)\<lparr>cl_error := e\<rparr>) w1" by blast
  have w1: "hw_clients w1 ! i = ?c" "hw_lists w1 = hw_lists w" "length (hw_clients w1) = length (hw_clients w)"
    using i by (simp_all add: w1_def)
  have "hw_clients w' ! i = ?c \<or> hw_clients w' ! i = ?c\<lparr>cl_error := e\<rparr>"
    using w' w1 i by (cases "j = i") auto
  then show ?thesis using opts w' w1(2,3) by auto
qed

lemma client_new_runs:
  assumes api: "curl_ok api" "takes_all api" and init: "curl_easy_init api = Some c"
  obtains h where "client_new api vb http_empty =
      (http_empty\<lparr>hw_clients := [\<lparr>cl_error = [], cl_curl = Some h, cl_headers = None, cl_cb = False, cl_bw_period = 10,
         cl_bw_speed = 10000, cl_alive = True\<rparr>]\<rparr>, Inr 0)"
    and "curl_opts api h ERRORBUFFER = Some (VError 0)" and "curl_opts api h HTTPHEADER = None"
proof -
  let ?opts = "[(NOSIGNAL, VLong 1), (ERRORBUFFER, VError 0)] @
     (if vb then [(DEBUGFUNCTION, VFun ''my_trace''), (VERBOSE, VLong 1)] else [])"
  obtain h where h: "curl_checks api ?opts c = (h, Inr ())" "curl_opts api h = set_all ?opts (curl_opts api c)"
    using curl_checks_all [OF api] unfolding set_all_def by blast
  have "curl_opts api c = Map.empty" using api init by (simp add: curl_ok_def)
  then have "curl_opts api h ERRORBUFFER = Some (VError 0)" "curl_opts api h HTTPHEADER = None"
    using h(2) by (auto simp: set_all_simps)
  moreover have "client_new api vb http_empty =
      (http_empty\<lparr>hw_clients := [\<lparr>cl_error = [], cl_curl = Some h, cl_headers = None, cl_cb = False, cl_bw_period = 10,
         cl_bw_speed = 10000, cl_alive = True\<rparr>]\<rparr>, Inr 0)"
    using h(1) init by (simp add: client_new_def http_empty_def Let_def)
  ultimately show thesis using that by blast
qed

lemma reset_hdrs_then_get:
  assumes api: "curl_ok api" "takes_all api" and i: "i < length (hw_clients w)"
    and h: "cl_curl (hw_clients w ! i) = Some h" "curl_opts api h HTTPHEADER = Some (VList a)"
    and hd: "cl_headers (hw_clients w ! i) = Some a" "a < length (hw_lists w)"
  shows "snd (client_get api i (Some u) t v (reset_hdrs i w)) = Inl Undefined"
proof -
  let ?w = "reset_hdrs i w"
  have w: "i < length (hw_clients ?w)" "cl_curl (hw_clients ?w ! i) = Some h" "cl_headers (hw_clients ?w ! i) = None"
    "hw_lists ?w ! a = None"
    using i h hd by (simp_all add: reset_hdrs_def Let_def free_list_def put_client_def)
  obtain h' where g: "client_get api i (Some u) t v ?w =
      client_perform api i (put_client i ((hw_clients ?w ! i)\<lparr>cl_error := [], cl_curl := Some h'\<rparr>) ?w)"
    "curl_opts api h' = set_all (common_opts api u t v (hw_clients ?w ! i) @
       [(HTTPGET, VLong 1), (WRITEDATA, VData []), (HEADERDATA, VCbs i)]) (curl_opts api h)"
    using client_get_opts [OF api w(1,2)] by blast
  have "HTTPHEADER \<notin> fst ` set (common_opts api u t v (hw_clients ?w ! i) @
      [(HTTPGET, VLong 1), (WRITEDATA, VData []), (HEADERDATA, VCbs i)])"
    using w(3) common_opts_hdr(2) by fastforce
  then have "curl_opts api h' HTTPHEADER = Some (VList a)" using g(2) h(2) set_all_other by simp
  then show ?thesis using g(1) client_perform_stale [of _ i h' api a] w by simp
qed

lemma stale_headers:
  assumes api: "curl_ok api" "takes_all api" and init: "curl_easy_init api = Some c"
    and hdr: "curl_slist_append_ok api hdr"
  shows "snd (http_run api [HNew vb, HAddHeader 0 (Some hdr), HGet 0 (Some u) t v, HResetHdrs 0, HGet 0 (Some u) t v] http_empty)"
proof -
  obtain h where new: "client_new api vb http_empty =
      (http_empty\<lparr>hw_clients := [\<lparr>cl_error = [], cl_curl = Some h, cl_headers = None, cl_cb = False, cl_bw_period = 10,
         cl_bw_speed = 10000, cl_alive = True\<rparr>]\<rparr>, Inr 0)"
    using client_new_runs [OF api init] by blast
  define w1 where "w1 = fst (client_new api vb http_empty)"
  define w2 where "w2 = fst (add_header api 0 (Some hdr) w1)"
  have add: "add_header api 0 (Some hdr) w1 = (w2, Inr True)"
    and w2: "hw_lists w2 = [Some [hdr]]" "length (hw_clients w2) = 1" "cl_curl (hw_clients w2 ! 0) = Some h"
    "cl_headers (hw_clients w2 ! 0) = Some 0" "cl_alive (hw_clients w2 ! 0)"
    using hdr new by (simp_all add: w1_def w2_def add_header_def Let_def put_client_def http_empty_def)
  have n1: "client_new api vb http_empty = (w1, Inr 0)" using new by (simp add: w1_def)
  have "http_ok api w1" using client_new_ok [OF api(1) http_ok_empty n1] by simp
  moreover have "0 < length (hw_clients w1)" using new by (simp add: w1_def)
  ultimately have ok: "http_ok api w2" using add_header_ok [OF _ _ add] by blast
  have zero: "0 < length (hw_clients w2)" using w2(2) by simp
  obtain h' where g: "client_get api 0 (Some u) t v w2 =
      client_perform api 0 (put_client 0 ((hw_clients w2 ! 0)\<lparr>cl_error := [], cl_curl := Some h'\<rparr>) w2)"
    "curl_opts api h' = set_all (common_opts api u t v (hw_clients w2 ! 0) @
       [(HTTPGET, VLong 1), (WRITEDATA, VData []), (HEADERDATA, VCbs 0)]) (curl_opts api h)"
    using client_get_opts [OF api zero w2(3), of u t v] by blast
  have hp: "curl_opts api h' HTTPHEADER = Some (VList 0)"
    using w2(4) by (auto simp: g(2) common_opts_def set_all_simps)
  obtain w3 r where p: "client_get api 0 (Some u) t v w2 = (w3, r)" by (meson surj_pair)
  have k: "hw_lists w3 = hw_lists w2" "length (hw_clients w3) = 1" "cl_headers (hw_clients w3 ! 0) = Some 0"
    "cl_alive (hw_clients w3 ! 0)"
    "\<exists>h3. cl_curl (hw_clients w3 ! 0) = Some h3 \<and> curl_opts api h3 HTTPHEADER = Some (VList 0)"
    using client_perform_keeps [OF api(1), of 0 "put_client 0 ((hw_clients w2 ! 0)\<lparr>cl_error := [], cl_curl := Some h'\<rparr>) w2" h' w3 r]
      p g(1) w2 hp by auto
  have "r \<noteq> Inl Undefined"
    using http_step_ok [OF api(1) ok, of "HGet 0 (Some u) t v"] p w2 by (auto simp: client_here_def outcome_of_def)
  moreover have "snd (client_get api 0 (Some u) t v (reset_hdrs 0 w3)) = Inl Undefined"
    using reset_hdrs_then_get [OF api, of 0 w3] k w2(1) by auto
  moreover have "client_here 0 w1" "client_here 0 w2" "client_here 0 w3" "client_here 0 (reset_hdrs 0 w3)"
    using new w2 k by (simp_all add: client_here_def w1_def reset_hdrs_def Let_def free_list_def put_client_def)
  moreover have "outcome_of (client_new api vb http_empty) = (w1, False)" using new by (simp add: outcome_of_def w1_def)
  ultimately show ?thesis using add p by (simp add: outcome_of_def)
qed

lemma stale_error_buffer:
  assumes api: "curl_ok api" "takes_all api" and init: "curl_easy_init api = Some c"
    and fails: "\<And>c. \<not> tr_ok (snd (curl_easy_perform api c))"
  shows "snd (http_run api [HNew vb, HMoveNew 0, HDelete 0, HGet 1 (Some u) t v] http_empty)"
proof -
  obtain h where new: "client_new api vb http_empty =
      (http_empty\<lparr>hw_clients := [\<lparr>cl_error = [], cl_curl = Some h, cl_headers = None, cl_cb = False, cl_bw_period = 10,
         cl_bw_speed = 10000, cl_alive = True\<rparr>]\<rparr>, Inr 0)"
    and eb: "curl_opts api h ERRORBUFFER = Some (VError 0)" and hh: "curl_opts api h HTTPHEADER = None"
    using client_new_runs [OF api init] by blast
  define w1 where "w1 = fst (client_new api vb http_empty)"
  define w3 where "w3 = client_delete 0 (client_move_new api 0 w1)"
  have w3: "length (hw_clients w3) = 2" "\<not> cl_alive (hw_clients w3 ! 0)" "cl_alive (hw_clients w3 ! 1)"
    "cl_curl (hw_clients w3 ! 1) = Some h" "cl_headers (hw_clients w3 ! 1) = None"
    and here: "client_here 0 w1" "client_here 0 (client_move_new api 0 w1)" "client_here 1 w3"
    using new by (simp_all add: w3_def w1_def client_delete_def client_move_new_def client_assign_def Let_def put_client_def
        free_list_def http_empty_def client_here_def)
  have one: "1 < length (hw_clients w3)" using w3(1) by simp
  obtain h' where g: "client_get api 1 (Some u) t v w3 =
      client_perform api 1 (put_client 1 ((hw_clients w3 ! 1)\<lparr>cl_error := [], cl_curl := Some h'\<rparr>) w3)"
    "curl_opts api h' = set_all (common_opts api u t v (hw_clients w3 ! 1) @
       [(HTTPGET, VLong 1), (WRITEDATA, VData []), (HEADERDATA, VCbs 1)]) (curl_opts api h)"
    using client_get_opts [OF api one w3(4), of u t v] by blast
  have opts: "curl_opts api h' ERRORBUFFER = Some (VError 0)" "curl_opts api h' HTTPHEADER = None"
    using w3(5) eb hh by (auto simp: g(2) common_opts_def set_all_simps)
  obtain h4 tr where p: "curl_easy_perform api h' = (h4, tr)" by (meson surj_pair)
  have "curl_opts api h4 = curl_opts api h'" using api p unfolding curl_ok_def by (metis fst_conv)
  moreover have "\<not> tr_ok tr" using fails [of h'] p by simp
  ultimately have "snd (client_get api 1 (Some u) t v w3) = Inl Undefined"
    using g(1) opts p w3 by (simp add: client_perform_def Let_def put_client_def)
  moreover have "outcome_of (client_new api vb http_empty) = (w1, False)" using new by (simp add: outcome_of_def w1_def)
  ultimately show ?thesis using here by (simp add: w3_def outcome_of_def)
qed

text \<open>C40. Two calls leave bad pointers behind. After a request with headers, \<^verbatim>\<open>reset_hdrs\<close> frees the list that the handle still
  names, and the next request reads it. After a move the handle still names the error buffer of the object moved from, and a
  failed transfer writes to it when that object is gone.\<close>

theorem http_pointers_dangle:
  assumes "curl_ok api" and "takes_all api" and "curl_easy_init api = Some c" and "curl_slist_append_ok api hdr"
  shows "snd (http_run api [HNew vb, HAddHeader 0 (Some hdr), HGet 0 (Some u) t v, HResetHdrs 0, HGet 0 (Some u) t v] http_empty) \<and>
    ((\<forall>c. \<not> tr_ok (snd (curl_easy_perform api c))) \<longrightarrow>
      snd (http_run api [HNew vb, HMoveNew 0, HDelete 0, HGet 1 (Some u) t v] http_empty))"
  using stale_headers [OF assms] stale_error_buffer [OF assms(1-3)] by blast

theorem http_pointers_dangle_witness:
  "snd (http_run (map_curl False)
     [HNew False, HAddHeader 0 (Some ''a: b''), HGet 0 (Some ''http://x'') 10 True, HResetHdrs 0, HGet 0 (Some ''http://x'') 10 True]
     http_empty) \<and>
   snd (http_run (map_curl False) [HNew False, HMoveNew 0, HDelete 0, HGet 1 (Some ''http://x'') 10 True] http_empty)"
  using http_pointers_dangle [OF map_curl_ok, of False Map.empty "''a: b''" False "''http://x''" 10 True]
  by (simp add: takes_all_def map_curl_def)

subsection \<open>URLs\<close>

lemma until_split: "s = until stops s @ drop (length (until stops s)) s"
  unfolding until_def by (metis append_eq_conv_conj takeWhile_dropWhile_id)

lemma until_free: "set (until stops s) \<inter> set stops = {}"
  unfolding until_def by (auto dest: set_takeWhileD)

lemma until_next: "drop (length (until stops s)) s = c # r \<Longrightarrow> c \<in> set stops"
  unfolding until_def by (metis dropWhile_eq_drop hd_dropWhile list.distinct(1) list.sel(1))

lemma url_scheme_split:
  assumes "url_scheme s = (sc, r)"
  shows "s = (case sc of Some x \<Rightarrow> x @ '':'' | None \<Rightarrow> []) @ r"
    and "sc = Some x \<Longrightarrow> x \<noteq> [] \<and> set x \<inter> set '':/?#'' = {}"
proof -
  show "s = (case sc of Some x \<Rightarrow> x @ '':'' | None \<Rightarrow> []) @ r"
    using assms until_split [of s "'':/?#''"]
    by (cases "drop (length (until '':/?#'' s)) s") (auto simp: url_scheme_def Let_def split: if_splits)
  show "sc = Some x \<Longrightarrow> x \<noteq> [] \<and> set x \<inter> set '':/?#'' = {}"
    using assms until_free [of "'':/?#''" s] by (auto simp: url_scheme_def Let_def split: if_splits)
qed

lemma url_authority_split:
  assumes "url_authority s = (a, r)"
  shows "s = (case a of Some x \<Rightarrow> ''//'' @ x | None \<Rightarrow> []) @ r" and "a = Some x \<Longrightarrow> set x \<inter> set ''/?#'' = {}"
proof -
  show "s = (case a of Some x \<Rightarrow> ''//'' @ x | None \<Rightarrow> []) @ r"
  proof (cases "take 2 s = ''//''")
    case True
    have "s = take 2 s @ drop 2 s" by simp
    also have "drop 2 s = until ''/?#'' (drop 2 s) @ drop (length (until ''/?#'' (drop 2 s))) (drop 2 s)" by (rule until_split)
    finally have "s = ''//'' @ until ''/?#'' (drop 2 s) @ drop (2 + length (until ''/?#'' (drop 2 s))) s"
      using True by (simp add: add.commute)
    then show ?thesis using assms True by (auto simp: url_authority_def Let_def)
  qed (use assms in \<open>auto simp: url_authority_def\<close>)
  show "a = Some x \<Longrightarrow> set x \<inter> set ''/?#'' = {}"
    using assms until_free [of "''/?#''" "drop 2 s"] by (auto simp: url_authority_def Let_def split: if_splits)
qed

lemma url_query_split:
  assumes "url_query s = (q, r)" and "s = [] \<or> hd s \<in> set ''?#''"
  shows "s = (case q of Some x \<Rightarrow> ''?'' @ x | None \<Rightarrow> []) @ r" and "q = Some x \<Longrightarrow> CHR ''#'' \<notin> set x"
    and "r = [] \<or> hd r = CHR ''#''"
proof -
  have "s = (case q of Some x \<Rightarrow> ''?'' @ x | None \<Rightarrow> []) @ r \<and> (\<forall>x. q = Some x \<longrightarrow> CHR ''#'' \<notin> set x) \<and>
      (r = [] \<or> hd r = CHR ''#'')"
  proof (cases "s \<noteq> [] \<and> hd s = CHR ''?''")
    case True
    then obtain t where t: "s = CHR ''?'' # t" by (cases s) auto
    let ?q = "until ''#'' t"
    have "q = Some ?q" "r = drop (length ?q) t" using assms(1) t by (simp_all add: url_query_def Let_def)
    moreover have "t = ?q @ drop (length ?q) t" by (rule until_split)
    moreover have "CHR ''#'' \<notin> set ?q" using until_free [of "''#''" t] by auto
    moreover have "drop (length ?q) t = [] \<or> hd (drop (length ?q) t) = CHR ''#''"
      using until_next [of "''#''" t] by (cases "drop (length ?q) t") auto
    ultimately show ?thesis using t by simp
  next
    case False
    then have "q = None" "r = s"
      using assms(1) by (auto simp: url_query_def Let_def split: list.splits char.splits bool.splits)
    then show ?thesis using assms(2) False by auto
  qed
  then show "s = (case q of Some x \<Rightarrow> ''?'' @ x | None \<Rightarrow> []) @ r" and "q = Some x \<Longrightarrow> CHR ''#'' \<notin> set x"
    and "r = [] \<or> hd r = CHR ''#''" by blast+
qed

text \<open>The groups of a URL, put together with their marks, are the URL again, and each is free of the characters that end it;
  a text is refused only for a line terminator in its fragment, so that every text without a number sign is accepted.\<close>

theorem url_match_roundtrip:
  "case is_valid_url_match url of
     Some m \<Rightarrow>
       url_text m = url \<and>
       (case um_scheme m of Some s \<Rightarrow> s \<noteq> [] \<and> set s \<inter> set '':/?#'' = {} | None \<Rightarrow> True) \<and>
       (case um_authority m of Some a \<Rightarrow> set a \<inter> set ''/?#'' = {} | None \<Rightarrow> True) \<and>
       set (um_path m) \<inter> set ''?#'' = {} \<and>
       (case um_query m of Some q \<Rightarrow> CHR ''#'' \<notin> set q | None \<Rightarrow> True)
   | None \<Rightarrow> \<exists>pre frag. url = pre @ CHR ''#'' # frag \<and> set frag \<inter> set line_terminators \<noteq> {}"
proof -
  obtain sc r1 where 1: "url_scheme url = (sc, r1)" by (meson surj_pair)
  obtain a r2 where 2: "url_authority r1 = (a, r2)" by (meson surj_pair)
  define path r3 where "path = until ''?#'' r2" and "r3 = drop (length path) r2"
  obtain q r4 where 4: "url_query r3 = (q, r4)" by (meson surj_pair)
  have "r3 = [] \<or> hd r3 \<in> set ''?#''"
    using until_next [of "''?#''" r2] unfolding r3_def path_def by (cases "drop (length (until ''?#'' r2)) r2") auto
  note s = url_scheme_split [OF 1] url_authority_split [OF 2] url_query_split [OF 4 this]
  have r2: "r2 = path @ r3" unfolding r3_def path_def by (rule until_split)
  have path: "set path \<inter> set ''?#'' = {}" unfolding path_def by (rule until_free)
  have m: "is_valid_url_match url =
      (case r4 of
         [] \<Rightarrow> Some \<lparr>um_scheme = sc, um_authority = a, um_path = path, um_query = q, um_fragment = None\<rparr>
       | c # frag \<Rightarrow>
           (if c = CHR ''#'' \<and> set frag \<inter> set line_terminators = {}
            then Some \<lparr>um_scheme = sc, um_authority = a, um_path = path, um_query = q, um_fragment = Some frag\<rparr>
            else None))"
    using 1 2 4 unfolding path_def r3_def by (simp add: is_valid_url_match_def Let_def)
  show ?thesis
  proof (cases r4)
    case Nil
    then show ?thesis using s r2 path m by (auto simp: url_text_def split: option.splits)
  next
    case (Cons c frag)
    then have c: "c = CHR ''#''" using s(7) by simp
    have url: "url = (case sc of Some x \<Rightarrow> x @ '':'' | None \<Rightarrow> []) @ (case a of Some x \<Rightarrow> ''//'' @ x | None \<Rightarrow> []) @ path @
        (case q of Some x \<Rightarrow> ''?'' @ x | None \<Rightarrow> []) @ CHR ''#'' # frag"
      using s(1) s(3) s(5) r2 Cons c by simp
    show ?thesis
    proof (cases "set frag \<inter> set line_terminators = {}")
      case True
      then show ?thesis using s(2,4,6) path url unfolding m Cons c by (auto simp: url_text_def split: option.splits)
    next
      case False
      moreover have "is_valid_url_match url = None" using False unfolding m Cons by simp
      ultimately show ?thesis using url by (auto simp: append_assoc [symmetric] simp del: append_assoc)
    qed
  qed
qed

end
