(* ===== verification/DeadLock.thy ===== *)
theory DeadLock
  imports NstlPrelude
begin

text \<open>
  The dead lock detection of \<^verbatim>\<open>nstl/dead_lock_detect.cpp\<close>: threads bump the time of their executor, a checker looks for
  executors that are overdue, from its own loop or on demand. The mutex of the checker makes its calls atomic; the executors
  are numbered, and a weak pointer is the number of its executor. Time is in nanoseconds.
\<close>

section \<open>Definitions\<close>

record executor =
  ex_tp :: int
  ex_alive :: bool

record dl_world =
  dl_now :: int
  dl_execs :: "executor list"
  dl_timeout :: int
  dl_items :: "nat list"
  dl_running :: bool
  dl_runner :: bool
  dl_alerts :: nat

definition checker_new :: "int \<Rightarrow> bool \<Rightarrow> int \<Rightarrow> dl_world result" where
  "checker_new timeout alerter now =
     throw_if (timeout \<le> 0) (NstlException ''timeout must be greater than zero'')
       (throw_if (\<not> alerter) (NstlException ''alerter function is empty'')
         (Inr \<lparr>dl_now = now, dl_execs = [], dl_timeout = timeout, dl_items = [], dl_running = False, dl_runner = False,
               dl_alerts = 0\<rparr>))"

definition exec_bump :: "nat \<Rightarrow> dl_world \<Rightarrow> dl_world" where
  "exec_bump p w = w\<lparr>dl_execs := (dl_execs w)[p := (dl_execs w ! p)\<lparr>ex_tp := dl_now w\<rparr>]\<rparr>"

definition exec_elapsed :: "nat \<Rightarrow> dl_world \<Rightarrow> int" where
  "exec_elapsed p w = dl_now w - ex_tp (dl_execs w ! p)"

text \<open>The loop of \<^verbatim>\<open>_check\<close>: expired items are erased, the others kept; the flag tells of an overdue one.\<close>

fun check_loop :: "dl_world \<Rightarrow> nat list \<Rightarrow> nat list \<times> bool" where
  "check_loop w [] = ([], False)"
| "check_loop w (p # items) =
     (case check_loop w items of
        (rest, retval) \<Rightarrow>
          (if ex_alive (dl_execs w ! p) then (p # rest, retval \<or> dl_timeout w < exec_elapsed p w)
           else (rest, retval)))"

definition check_items :: "dl_world \<Rightarrow> dl_world \<times> bool" where
  "check_items w = (case check_loop w (dl_items w) of (items, retval) \<Rightarrow> (w\<lparr>dl_items := items\<rparr>, retval))"

definition checker_check :: "dl_world \<Rightarrow> dl_world \<times> bool" where
  "checker_check w =
     (case check_items w of
        (w, True) \<Rightarrow> (w\<lparr>dl_alerts := dl_alerts w + 1\<rparr>, True)
      | (w, False) \<Rightarrow> (w, False))"

definition addCheckedThread :: "dl_world \<Rightarrow> dl_world \<times> nat" where
  "addCheckedThread w =
     (let p = length (dl_execs w)
      in (w\<lparr>dl_execs := dl_execs w @ [\<lparr>ex_tp = dl_now w, ex_alive = True\<rparr>], dl_items := dl_items w @ [p]\<rparr>, p))"

text \<open>The loop of \<^verbatim>\<open>runner\<close>: its entry, and what it does each time the wait returns, on a timeout, a notification or for no
  reason.\<close>

definition runner_enter :: "dl_world \<Rightarrow> dl_world" where
  "runner_enter w = w\<lparr>dl_running := True, dl_runner := True\<rparr>"

definition runner_turn :: "dl_world \<Rightarrow> dl_world" where
  "runner_turn w =
     (let w = fst (checker_check w) in if dl_running w then w else w\<lparr>dl_runner := False\<rparr>)"

definition checker_stop :: "dl_world \<Rightarrow> dl_world" where
  "checker_stop w = w\<lparr>dl_running := False\<rparr>"

definition checker_empty :: "dl_world \<Rightarrow> bool" where
  "checker_empty w \<longleftrightarrow> dl_items w = []"

text \<open>The owner of an executor lets it go; time passes.\<close>

definition exec_release :: "nat \<Rightarrow> dl_world \<Rightarrow> dl_world" where
  "exec_release p w = w\<lparr>dl_execs := (dl_execs w)[p := (dl_execs w ! p)\<lparr>ex_alive := False\<rparr>]\<rparr>"

datatype dl_op = DlAdd | DlBump nat | DlRelease nat | DlTick nat | DlCheck | DlRunner | DlTurn | DlStop

fun dl_step :: "dl_op \<Rightarrow> dl_world \<Rightarrow> dl_world" where
  "dl_step DlAdd w = fst (addCheckedThread w)"
| "dl_step (DlBump p) w = (if p < length (dl_execs w) \<and> ex_alive (dl_execs w ! p) then exec_bump p w else w)"
| "dl_step (DlRelease p) w = (if p < length (dl_execs w) then exec_release p w else w)"
| "dl_step (DlTick d) w = w\<lparr>dl_now := dl_now w + int d\<rparr>"
| "dl_step DlCheck w = fst (checker_check w)"
| "dl_step DlRunner w = (if dl_runner w then w else runner_enter w)"
| "dl_step DlTurn w = (if dl_runner w then runner_turn w else w)"
| "dl_step DlStop w = checker_stop w"

definition dl_run :: "dl_op list \<Rightarrow> dl_world \<Rightarrow> dl_world" where
  "dl_run ops w = fold dl_step ops w"

text \<open>What is to be detected: a thread that still holds its executor and has not bumped it for longer than the
  timeout.\<close>

definition overdue :: "dl_world \<Rightarrow> nat \<Rightarrow> bool" where
  "overdue w p \<longleftrightarrow>
     p < length (dl_execs w) \<and> ex_alive (dl_execs w ! p) \<and> dl_timeout w < dl_now w - ex_tp (dl_execs w ! p)"

section \<open>Theorems\<close>

definition dl_inv :: "dl_world \<Rightarrow> bool" where
  "dl_inv w \<longleftrightarrow>
     distinct (dl_items w) \<and> (\<forall>p \<in> set (dl_items w). p < length (dl_execs w)) \<and>
     (\<forall>p < length (dl_execs w). ex_alive (dl_execs w ! p) \<longrightarrow> p \<in> set (dl_items w)) \<and>
     (\<forall>p < length (dl_execs w). ex_tp (dl_execs w ! p) \<le> dl_now w) \<and>
     (dl_running w \<longrightarrow> dl_runner w)"

lemma check_loop_eq:
  "check_loop w items =
     (filter (\<lambda>p. ex_alive (dl_execs w ! p)) items,
      \<exists>p \<in> set items. ex_alive (dl_execs w ! p) \<and> dl_timeout w < dl_now w - ex_tp (dl_execs w ! p))"
  by (induction items) (auto simp: exec_elapsed_def)

lemma checker_check_eq:
  assumes "dl_inv w"
  shows "checker_check w =
    (w\<lparr>dl_items := filter (\<lambda>p. ex_alive (dl_execs w ! p)) (dl_items w),
       dl_alerts := dl_alerts w + (if \<exists>p. overdue w p then 1 else 0)\<rparr>, \<exists>p. overdue w p)"
proof -
  have "(\<exists>p \<in> set (dl_items w). ex_alive (dl_execs w ! p) \<and> dl_timeout w < dl_now w - ex_tp (dl_execs w ! p)) \<longleftrightarrow>
      (\<exists>p. overdue w p)"
    using assms by (auto simp: dl_inv_def overdue_def)
  then have loop: "check_loop w (dl_items w) = (filter (\<lambda>p. ex_alive (dl_execs w ! p)) (dl_items w), \<exists>p. overdue w p)"
    by (simp only: check_loop_eq)
  show ?thesis unfolding checker_check_def check_items_def loop by (simp split: bool.split)
qed

lemma dl_inv_check: "dl_inv w \<Longrightarrow> dl_inv (fst (checker_check w))"
  by (simp add: checker_check_eq) (auto simp: dl_inv_def)

lemma dl_inv_step: "dl_inv w \<Longrightarrow> dl_inv (dl_step c w)"
proof (cases c)
  case DlAdd
  assume "dl_inv w"
  then show ?thesis
    unfolding DlAdd dl_inv_def by (auto simp: addCheckedThread_def Let_def nth_append less_Suc_eq)
next
  case (DlBump p)
  assume "dl_inv w"
  then show ?thesis
    unfolding DlBump dl_inv_def by (auto simp: exec_bump_def nth_list_update)
next
  case (DlRelease p)
  assume "dl_inv w"
  then show ?thesis
    unfolding DlRelease dl_inv_def by (auto simp: exec_release_def nth_list_update)
next
  case DlCheck
  assume "dl_inv w"
  then show ?thesis using dl_inv_check DlCheck by simp
next
  case DlTurn
  assume "dl_inv w"
  then show ?thesis
    using dl_inv_check [of w] DlTurn by (auto simp: runner_turn_def Let_def dl_inv_def)
qed (force simp: dl_inv_def runner_enter_def checker_stop_def)+

lemma dl_inv_run:
  assumes "checker_new timeout True now = Inr w"
  shows "dl_inv (dl_run ops w)"
proof -
  have "dl_inv w" using assms by (auto simp: checker_new_def throw_if_Inr dl_inv_def)
  then show ?thesis unfolding dl_run_def by (induction ops arbitrary: w) (auto intro: dl_inv_step)
qed

text \<open>C29. The detection is exact: whatever was added, bumped, released and checked before, a check alerts, once, if and only
  if some thread still holds its executor and has not bumped it for longer than the timeout; the items it keeps are the
  executors that live; and while the checker's own loop runs, each of its turns does just this.\<close>

theorem dead_lock_detection_exact:
  assumes "checker_new timeout True now = Inr w0" and "w = dl_run ops w0"
  shows "snd (checker_check w) = (\<exists>p. overdue w p) \<and>
    dl_alerts (fst (checker_check w)) = dl_alerts w + (if \<exists>p. overdue w p then 1 else 0) \<and>
    set (dl_items (fst (checker_check w))) = {p. p < length (dl_execs w) \<and> ex_alive (dl_execs w ! p)} \<and>
    dl_alerts (runner_turn w) = dl_alerts w + (if \<exists>p. overdue w p then 1 else 0) \<and>
    dl_runner (runner_turn w) = (dl_runner w \<and> dl_running w)"
proof -
  have inv: "dl_inv w" using dl_inv_run [OF assms(1)] assms(2) by simp
  note check = checker_check_eq [OF inv]
  have "set (filter (\<lambda>p. ex_alive (dl_execs w ! p)) (dl_items w)) = {p. p < length (dl_execs w) \<and> ex_alive (dl_execs w ! p)}"
    using inv by (auto simp: dl_inv_def)
  moreover have "dl_running w \<longrightarrow> dl_runner w" using inv by (simp add: dl_inv_def)
  ultimately show ?thesis unfolding check runner_turn_def Let_def by auto
qed

theorem dead_lock_detection_exact_witness:
  "snd (checker_check (dl_run [DlAdd, DlTick 6, DlAdd] \<lparr>dl_now = 0, dl_execs = [], dl_timeout = 5, dl_items = [],
      dl_running = False, dl_runner = False, dl_alerts = 0\<rparr>))"
proof -
  have new: "checker_new 5 True 0 = Inr \<lparr>dl_now = 0, dl_execs = [], dl_timeout = 5, dl_items = [], dl_running = False,
      dl_runner = False, dl_alerts = 0\<rparr>" by (simp add: checker_new_def)
  let ?w = "dl_run [DlAdd, DlTick 6, DlAdd] \<lparr>dl_now = 0, dl_execs = [], dl_timeout = 5, dl_items = [],
      dl_running = False, dl_runner = False, dl_alerts = 0\<rparr>"
  have "overdue ?w 0" by (simp add: dl_run_def addCheckedThread_def Let_def overdue_def)
  then show ?thesis using dead_lock_detection_exact [OF new refl, of "[DlAdd, DlTick 6, DlAdd]"] by blast
qed

text \<open>A stop that comes before the loop has begun is lost: the loop sets the flag itself and runs on.\<close>

lemma early_stop_lost:
  "\<not> dl_runner w \<Longrightarrow> dl_runner (dl_run [DlStop, DlRunner, DlTurn] w)"
  by (simp add: dl_run_def checker_stop_def runner_enter_def runner_turn_def checker_check_def check_items_def
      check_loop_eq Let_def split: bool.splits)

text \<open>A stop during the loop ends it with its next turn.\<close>

lemma stop_ends_runner: "dl_inv w \<Longrightarrow> \<not> dl_runner (dl_run [DlStop, DlTurn] w)"
  using checker_check_eq [of "checker_stop w"]
  by (auto simp: dl_run_def checker_stop_def runner_turn_def dl_inv_def Let_def)

end
