(* ===== verification/SignalBarrier.thy ===== *)
theory SignalBarrier
  imports NstlPrelude "HOL-Library.Multiset"
begin

text \<open>
  Waiting for signals: the conversions of \<^verbatim>\<open>nstl/signal_barrier_common.cpp\<close>, the polling barrier of
  \<^verbatim>\<open>signal_barrier.cpp\<close> and the barrier of \<^verbatim>\<open>signal_barrier_linux.cpp\<close> on a signal descriptor, a timer and an epoll
  instance. What the system calls return, and the signals that arrive while a thread sleeps, are given as sequences.
\<close>

section \<open>Definitions\<close>

subsection \<open>signal_barrier_common.cpp\<close>

datatype SigVal = Unknown | SigInt | SigTerm | SigQuit | SigLogoff | SigShutdown

definition from_signal_conv :: "int \<Rightarrow> SigVal result" where
  "from_signal_conv val =
     (if val = SIGINT then Inr SigInt
      else if val = SIGTERM then Inr SigTerm
      else if val = SIGQUIT then Inr SigQuit
      else Inl (NstlException '' signal cannot be converted to SigVal''))"

primrec to_signal_conv :: "SigVal \<Rightarrow> int" where
  "to_signal_conv Unknown = - 1"
| "to_signal_conv SigInt = 2"
| "to_signal_conv SigTerm = 15"
| "to_signal_conv SigQuit = 3"
| "to_signal_conv SigLogoff = 12"
| "to_signal_conv SigShutdown = 13"

primrec sigval_name :: "SigVal \<Rightarrow> string" where
  "sigval_name SigInt = ''SIGINT''"
| "sigval_name SigTerm = ''SIGTERM''"
| "sigval_name SigQuit = ''SIGQUIT''"
| "sigval_name SigLogoff = ''SIGLOGOFF''"
| "sigval_name SigShutdown = ''SIGSHUTDOWN''"
| "sigval_name Unknown = ''Unknown''"

subsection \<open>signal_barrier.cpp\<close>

datatype sig_handler = SigDfl | SignalReceiver | OtherHandler nat

text \<open>The variables of the file, and the handlers the system has for the three signals. On Windows there is a console handler
  too; \<open>sb_app\<close> is the event it stored.\<close>

record sig_state =
  sb_in_use :: bool
  sb_received :: int
  sb_app :: "nat option"
  sb_int :: sig_handler
  sb_term :: sig_handler
  sb_quit :: sig_handler
  sb_saved_int :: sig_handler
  sb_saved_term :: sig_handler
  sb_saved_quit :: sig_handler
  sb_console :: bool

abbreviation (input) "CTRL_C_EVENT \<equiv> (0 :: nat)"
abbreviation (input) "CTRL_CLOSE_EVENT \<equiv> (2 :: nat)"
abbreviation (input) "CTRL_LOGOFF_EVENT \<equiv> (5 :: nat)"
abbreviation (input) "CTRL_SHUTDOWN_EVENT \<equiv> (6 :: nat)"

definition ConsoleHandler :: "nat \<Rightarrow> sig_state \<Rightarrow> sig_state \<times> bool" where
  "ConsoleHandler signal s =
     (if signal \<in> {CTRL_C_EVENT, CTRL_CLOSE_EVENT, CTRL_LOGOFF_EVENT, CTRL_SHUTDOWN_EVENT}
      then (s\<lparr>sb_app := Some signal\<rparr>, True) else (s, False))"

definition signal_receiver :: "int \<Rightarrow> sig_state \<Rightarrow> sig_state" where
  "signal_receiver val s = s\<lparr>sb_received := val\<rparr>"

definition load_value :: "bool \<Rightarrow> sig_state \<Rightarrow> sig_state \<times> SigVal option result" where
  "load_value win s =
     (let val = sb_received s; s = s\<lparr>sb_received := 0\<rparr> in
      if 0 < val then (s, bind_result (from_signal_conv val) (\<lambda>v. Inr (Some v)))
      else if win then
        (let wval = sb_app s; s = s\<lparr>sb_app := None\<rparr> in
         (s, Inr (case wval of
            None \<Rightarrow> None
          | Some e \<Rightarrow>
              (if e = CTRL_C_EVENT then Some SigInt
               else if e = CTRL_CLOSE_EVENT then Some SigTerm
               else if e = CTRL_LOGOFF_EVENT then Some SigLogoff
               else if e = CTRL_SHUTDOWN_EVENT then Some SigShutdown
               else None))))
      else (s, Inr None))"

text \<open>The constructor; the last argument tells whether \<^verbatim>\<open>SetConsoleCtrlHandler\<close> succeeds. Windows has no \<^verbatim>\<open>SIGQUIT\<close>.\<close>

definition barrier_new :: "bool \<Rightarrow> int \<Rightarrow> bool \<Rightarrow> sig_state \<Rightarrow> sig_state \<times> unit result" where
  "barrier_new win period console_ok s =
     (if period \<le> 0 then (s, Inl (NstlException ''period time must be greater than 0''))
      else if sb_in_use s then (s, Inl (NstlException ''SignalBarrier is already in use''))
      else
        let s = s\<lparr>sb_in_use := True, sb_saved_int := sb_int s, sb_int := SignalReceiver,
                  sb_saved_term := sb_term s, sb_term := SignalReceiver\<rparr>;
            s = (if win then s else s\<lparr>sb_saved_quit := sb_quit s, sb_quit := SignalReceiver\<rparr>)
        in if win
           then if console_ok then (s\<lparr>sb_console := True\<rparr>, Inr ())
                else (s, Inl (NstlException ''SetConsoleCtrlHandler failed''))
           else (s, Inr ()))"

definition barrier_delete :: "bool \<Rightarrow> sig_state \<Rightarrow> sig_state" where
  "barrier_delete win s =
     (let s = s\<lparr>sb_int := sb_saved_int s, sb_saved_int := sb_int s, sb_term := sb_saved_term s, sb_saved_term := sb_term s\<rparr>;
          s = (if win then s else s\<lparr>sb_quit := sb_saved_quit s, sb_saved_quit := sb_quit s\<rparr>)
      in s\<lparr>sb_in_use := False\<rparr>)"

text \<open>A signal arrives: the handler runs. Other handlers are not of this file.\<close>

definition sig_arrives :: "int \<Rightarrow> sig_state \<Rightarrow> sig_state" where
  "sig_arrives sig s =
     (if (sig = SIGINT \<and> sb_int s = SignalReceiver) \<or> (sig = SIGTERM \<and> sb_term s = SignalReceiver) \<or>
         (sig = SIGQUIT \<and> sb_quit s = SignalReceiver)
      then signal_receiver sig s else s)"

text \<open>The two waits; each element of the sequence is the signals that arrive during one sleep, for \<^verbatim>\<open>wait_for\<close> with the time that
  has passed at the test of the loop. \<open>None\<close> is a wait that has not returned when the sequence ends.\<close>

fun barrier_wait :: "bool \<Rightarrow> int list list \<Rightarrow> sig_state \<Rightarrow> (sig_state \<times> SigVal result) option" where
  "barrier_wait win sleeps s =
     (case load_value win s of
        (s, Inl e) \<Rightarrow> Some (s, Inl e)
      | (s, Inr (Some v)) \<Rightarrow> Some (s, Inr v)
      | (s, Inr None) \<Rightarrow>
          (case sleeps of [] \<Rightarrow> None | sigs # sleeps \<Rightarrow> barrier_wait win sleeps (fold sig_arrives sigs s)))"

fun barrier_wait_loop ::
    "bool \<Rightarrow> int \<Rightarrow> (int \<times> int list) list \<Rightarrow> sig_state \<Rightarrow> (sig_state \<times> SigVal option result) option" where
  "barrier_wait_loop win to [] s = None"
| "barrier_wait_loop win to ((elapsed, sigs) # sleeps) s =
     (if elapsed < to
      then case load_value win (fold sig_arrives sigs s) of
             (s, Inl e) \<Rightarrow> Some (s, Inl e)
           | (s, Inr (Some v)) \<Rightarrow> Some (s, Inr (Some v))
           | (s, Inr None) \<Rightarrow> barrier_wait_loop win to sleeps s
      else Some (s, Inr None))"

definition barrier_wait_for ::
    "bool \<Rightarrow> int \<Rightarrow> (int \<times> int list) list \<Rightarrow> sig_state \<Rightarrow> (sig_state \<times> SigVal option result) option" where
  "barrier_wait_for win to sleeps s =
     (case load_value win s of
        (s, Inl e) \<Rightarrow> Some (s, Inl e)
      | (s, Inr (Some v)) \<Rightarrow> Some (s, Inr (Some v))
      | (s, Inr None) \<Rightarrow> barrier_wait_loop win to sleeps s)"

declare barrier_wait.simps [simp del]

subsection \<open>signal_barrier_linux.cpp\<close>

datatype sys_errno = Eagain | Eintr | Eother

text \<open>The result of a \<^verbatim>\<open>read\<close>: an error, or the number of bytes and the value they hold, the number of a signal or of the
  expirations of a timer.\<close>

datatype fd_read = FdErrno sys_errno | FdSize nat int

datatype epoll_result = EpErr sys_errno | EpReady "(int \<times> fd_read list) list"

text \<open>How a call ends: it returns, throws, ends the process by an exception out of a destructor, or is still waiting when the
  sequence of results ends.\<close>

datatype 'a ending = Returns 'a | Throws exn | Terminates | StillWaits

abbreviation (input) "siginfo_size \<equiv> (128 :: nat)"

fun read_signal :: "fd_read list \<Rightarrow> int ending" where
  "read_signal [] = StillWaits"
| "read_signal (FdErrno e # rs) =
     (if e = Eagain then Returns 0
      else if e = Eintr then read_signal rs
      else Throws (NstlException ''read(signalfd) failed''))"
| "read_signal (FdSize n signo # rs) =
     (if n \<noteq> siginfo_size then Throws (NstlException ''short read on signalfd: '')
      else if signo \<in> {SIGINT, SIGTERM, SIGQUIT} then Returns signo
      else read_signal rs)"

fun read_timer :: "fd_read list \<Rightarrow> int ending" where
  "read_timer [] = StillWaits"
| "read_timer (FdErrno e # rs) =
     (if e = Eagain then Returns 0
      else if e = Eintr then read_timer rs
      else Throws (NstlException ''read(timer) failed''))"
| "read_timer (FdSize n expirations # rs) =
     (if n \<noteq> 8 then Throws (NstlException ''short read on timerfd: '') else Returns expirations)"

text \<open>The seconds and nanoseconds of the timer.\<close>

definition timer_spec :: "int \<Rightarrow> int \<times> int" where
  "timer_spec to = (let seconds = to div 1000000000 in (seconds, to - seconds * 1000000000))"

text \<open>The loop over the events of one wait; \<open>None\<close> when none of them ends the call. \<^verbatim>\<open>wait\<close> has no timer.\<close>

fun handle_events :: "int \<Rightarrow> int option \<Rightarrow> (int \<times> fd_read list) list \<Rightarrow> SigVal option ending option" where
  "handle_events sfd timer [] = None"
| "handle_events sfd timer ((fd, rs) # evs) =
     (if fd = sfd then
        (case read_signal rs of
           Returns v \<Rightarrow>
             (if 0 < v
              then Some (case from_signal_conv v of Inl e \<Rightarrow> Throws e | Inr x \<Rightarrow> Returns (Some x))
              else handle_events sfd timer evs)
         | Throws e \<Rightarrow> Some (Throws e)
         | Terminates \<Rightarrow> Some Terminates
         | StillWaits \<Rightarrow> Some StillWaits)
      else if timer = Some fd then
        (case read_timer rs of
           Returns v \<Rightarrow> (if 0 < v then Some (Returns None) else handle_events sfd timer evs)
         | Throws e \<Rightarrow> Some (Throws e)
         | Terminates \<Rightarrow> Some Terminates
         | StillWaits \<Rightarrow> Some StillWaits)
      else handle_events sfd timer evs)"

fun epoll_loop :: "int \<Rightarrow> int option \<Rightarrow> epoll_result list \<Rightarrow> SigVal option ending" where
  "epoll_loop sfd timer [] = StillWaits"
| "epoll_loop sfd timer (EpErr e # ws) =
     (if e = Eintr then epoll_loop sfd timer ws else Throws (NstlException ''epoll_wait failed''))"
| "epoll_loop sfd timer (EpReady evs # ws) =
     (case handle_events sfd timer evs of None \<Rightarrow> epoll_loop sfd timer ws | Some r \<Rightarrow> r)"

text \<open>What the other system calls return.\<close>

record linux_calls =
  lc_timerfd_create :: int
  lc_timerfd_settime :: bool
  lc_epoll_create :: int
  lc_add_signal :: bool
  lc_add_timer :: bool
  lc_del_signal :: bool
  lc_del_timer :: bool
  lc_waits :: "epoll_result list"

text \<open>\<^verbatim>\<open>on_scope_exit\<close> with a \<^verbatim>\<open>close\<close>, and with an \<^verbatim>\<open>epoll_remove\<close>, which may throw out of the destructor. The open descriptors
  go along.\<close>

definition closing :: "int \<Rightarrow> int list \<times> 'a ending \<Rightarrow> int list \<times> 'a ending" where
  "closing fd r =
     (case r of
        (fds, Terminates) \<Rightarrow> (fds, Terminates)
      | (fds, StillWaits) \<Rightarrow> (fds, StillWaits)
      | (fds, e) \<Rightarrow> (remove1 fd fds, e))"

definition removing :: "bool \<Rightarrow> int list \<times> 'a ending \<Rightarrow> int list \<times> 'a ending" where
  "removing ok r =
     (case r of
        (fds, StillWaits) \<Rightarrow> (fds, StillWaits)
      | (fds, e) \<Rightarrow> if ok then (fds, e) else (fds, Terminates))"

definition linux_barrier_new :: "int \<Rightarrow> int result" where
  "linux_barrier_new sfd =
     throw_if (sfd < 0) (NstlException ''signal file is not open: global_init should be initialized with signal enabled'')
       (Inr sfd)"

definition create_timer_file :: "linux_calls \<Rightarrow> int \<Rightarrow> int list \<Rightarrow> int list \<times> int ending" where
  "create_timer_file c to fds =
     (let tfd = lc_timerfd_create c in
      if tfd = - 1 then (fds, Throws (NstlException ''timerfd_create''))
      else if \<not> lc_timerfd_settime c then (tfd # fds, Throws (NstlException ''timerfd_settime failed''))
      else (tfd # fds, Returns tfd))"

definition linux_wait :: "linux_calls \<Rightarrow> int \<Rightarrow> int list \<Rightarrow> int list \<times> SigVal option ending" where
  "linux_wait c sfd fds =
     (let epfd = lc_epoll_create c in
      if epfd = - 1 then (fds, Throws (NstlException ''epoll_create1 failed''))
      else closing epfd
        (if \<not> lc_add_signal c then (epfd # fds, Throws (NstlException ''epoll add failed''))
         else removing (lc_del_signal c) (epfd # fds, epoll_loop sfd None (lc_waits c))))"

definition linux_wait_for :: "linux_calls \<Rightarrow> int \<Rightarrow> int \<Rightarrow> int list \<Rightarrow> int list \<times> SigVal option ending" where
  "linux_wait_for c sfd to fds =
     (if to \<le> 0 then (fds, Throws (NstlException ''timeout must be greater than zero''))
      else case create_timer_file c to fds of
        (fds, Throws e) \<Rightarrow> (fds, Throws e)
      | (fds, Terminates) \<Rightarrow> (fds, Terminates)
      | (fds, StillWaits) \<Rightarrow> (fds, StillWaits)
      | (fds, Returns timer_fd) \<Rightarrow>
          closing timer_fd
            (let epfd = lc_epoll_create c in
             if epfd = - 1 then (fds, Throws (NstlException ''epoll_create1 failed''))
             else closing epfd
               (if \<not> lc_add_signal c then (epfd # fds, Throws (NstlException ''epoll add failed''))
                else removing (lc_del_signal c)
                  (if \<not> lc_add_timer c then (epfd # fds, Throws (NstlException ''epoll add failed''))
                   else removing (lc_del_timer c)
                     (epfd # fds, epoll_loop sfd (Some timer_fd) (lc_waits c))))))"

section \<open>Theorems\<close>

subsection \<open>Polling\<close>

lemma sigval_roundtrip:
  "from_signal_conv v = Inr x \<Longrightarrow> to_signal_conv x = v"
  by (auto simp: from_signal_conv_def split: if_splits)

definition barrier_installed :: "sig_state \<Rightarrow> bool" where
  "barrier_installed s \<longleftrightarrow>
     sb_in_use s \<and> sb_int s = SignalReceiver \<and> sb_term s = SignalReceiver \<and> sb_quit s = SignalReceiver"

lemma arrivals:
  assumes "barrier_installed s" and "set sigs \<subseteq> {SIGINT, SIGTERM, SIGQUIT}" and "sigs \<noteq> []"
  shows "fold sig_arrives sigs s = s\<lparr>sb_received := last sigs\<rparr>"
  using assms
proof (induction sigs arbitrary: s)
  case (Cons a sigs)
  have "sig_arrives a s = s\<lparr>sb_received := a\<rparr>"
    using Cons.prems by (auto simp: sig_arrives_def signal_receiver_def barrier_installed_def)
  then show ?case
    using Cons.IH [of "s\<lparr>sb_received := a\<rparr>"] Cons.prems by (cases "sigs = []") (auto simp: barrier_installed_def)
qed simp

lemma load_quiet: "sb_received s = 0 \<Longrightarrow> load_value False s = (s, Inr None)"
  by (simp add: load_value_def)

lemma wait_quiet:
  assumes "sb_received s = 0"
  shows "barrier_wait False (replicate n [] @ sleeps) s = barrier_wait False sleeps s"
proof (induction n)
  case (Suc n)
  then show ?case using load_quiet [OF assms] by (subst barrier_wait.simps) simp
qed simp

text \<open>C30. The polling barrier sees every signal: a wait returns, however long it slept before, after the first sleep during which
  signals came, with the last of them, and leaves the barrier as it was; and between construction and destruction the handlers of
  the program are kept and put back, while a second barrier is refused and changes nothing.\<close>

theorem barrier_wait_returns:
  assumes "barrier_new False period ok s0 = (s, Inr ())" and "sb_received s0 = 0"
    and "sigs \<noteq> []" and "set sigs \<subseteq> {SIGINT, SIGTERM, SIGQUIT}"
  shows "barrier_wait False (replicate n [] @ sigs # rest) s = Some (s, from_signal_conv (last sigs)) \<and>
    (\<exists>v. from_signal_conv (last sigs) = Inr v) \<and>
    barrier_new False period ok s = (s, Inl (NstlException ''SignalBarrier is already in use'')) \<and>
    sb_int (barrier_delete False s) = sb_int s0 \<and> sb_term (barrier_delete False s) = sb_term s0 \<and>
    sb_quit (barrier_delete False s) = sb_quit s0 \<and> \<not> sb_in_use (barrier_delete False s)"
proof -
  have s: "s = s0\<lparr>sb_in_use := True, sb_saved_int := sb_int s0, sb_int := SignalReceiver,
      sb_saved_term := sb_term s0, sb_term := SignalReceiver, sb_saved_quit := sb_quit s0, sb_quit := SignalReceiver\<rparr>"
    and pos: "0 < period"
    using assms(1) by (auto simp: barrier_new_def Let_def split: if_splits)
  have rec: "sb_received s = 0" and inst: "barrier_installed s"
    using assms(2) unfolding s by (simp_all add: barrier_installed_def)
  have last: "last sigs \<in> {SIGINT, SIGTERM, SIGQUIT}" using assms(3,4) last_in_set by blast
  have conv: "\<exists>v. from_signal_conv (last sigs) = Inr v" using last by (auto simp: from_signal_conv_def)
  then obtain v where v: "from_signal_conv (last sigs) = Inr v" by blast
  have load: "load_value False (s\<lparr>sb_received := last sigs\<rparr>) = (s, Inr (Some v))"
    using last v rec by (auto simp: load_value_def)
  have "barrier_wait False (sigs # rest) s = barrier_wait False rest (s\<lparr>sb_received := last sigs\<rparr>)"
    using load_quiet [OF rec] arrivals [OF inst assms(4,3)] by (subst barrier_wait.simps) simp
  also have "\<dots> = Some (s, Inr v)" using load by (subst barrier_wait.simps) simp
  finally have "barrier_wait False (replicate n [] @ sigs # rest) s = Some (s, from_signal_conv (last sigs))"
    using wait_quiet [OF rec] v by simp
  then show ?thesis
    using conv pos by (simp add: s barrier_new_def barrier_delete_def)
qed

definition sig_start :: sig_state where
  "sig_start = \<lparr>sb_in_use = False, sb_received = 0, sb_app = None, sb_int = SigDfl, sb_term = OtherHandler 1, sb_quit = SigDfl,
     sb_saved_int = SigDfl, sb_saved_term = SigDfl, sb_saved_quit = SigDfl, sb_console = False\<rparr>"

theorem barrier_wait_returns_witness:
  "\<exists>s. barrier_new False 10 True sig_start = (s, Inr ()) \<and>
     barrier_wait False [[], [], [2, 15], []] s = Some (s, Inr SigTerm)"
proof -
  obtain s where s: "barrier_new False 10 True sig_start = (s, Inr ())"
    by (simp add: barrier_new_def sig_start_def)
  have "sb_received sig_start = 0" by (simp add: sig_start_def)
  from barrier_wait_returns [OF s this, of "[2, 15]" 2 "[[]]"] s show ?thesis
    by (auto simp: numeral_2_eq_2 from_signal_conv_def)
qed

text \<open>On Windows a constructor that fails to set its console handler leaves the barrier in use for good.\<close>

lemma failed_barrier_stays_in_use:
  assumes "\<not> sb_in_use s" and "0 < period"
  shows "case barrier_new True period False s of (s', r) \<Rightarrow>
    r = Inl (NstlException ''SetConsoleCtrlHandler failed'') \<and>
    barrier_new True period True s' = (s', Inl (NstlException ''SignalBarrier is already in use''))"
  using assms by (simp add: barrier_new_def Let_def)

lemma barrier_wait_loop_timeout:
  assumes "sb_received s = 0" and "\<forall>x \<in> set sleeps. fst x < to \<and> snd x = []" and "to \<le> t"
  shows "barrier_wait_loop False to (sleeps @ (t, sigs) # rest) s = Some (s, Inr None)"
  using assms(2)
proof (induction sleeps)
  case (Cons x sleeps)
  then show ?case using load_quiet [OF assms(1)] by (cases x) simp
qed (use assms(3) in simp)

subsection \<open>Linux\<close>

lemma timer_spec_bounds:
  "timer_spec to = (sec, nsec) \<Longrightarrow> sec * 1000000000 + nsec = to \<and> 0 \<le> nsec \<and> nsec < 1000000000"
  by (auto simp: timer_spec_def Let_def minus_mult_div_eq_mod algebra_simps)

lemma closing_simps [simp]:
  "closing fd (fd # fds, Returns x) = (fds, Returns x)" "closing fd (fd # fds, Throws e) = (fds, Throws e)"
  "closing fd (fds, Terminates) = (fds, Terminates)" "closing fd (fds, StillWaits) = (fds, StillWaits)"
  by (simp_all add: closing_def)

lemma removing_simps [simp]:
  "removing True (fds, r) = (fds, r)" "removing ok (fds, StillWaits) = (fds, StillWaits)"
  by (cases r) (simp_all add: removing_def)

text \<open>C31. The Linux waits leak no descriptor: whichever system calls fail and whatever the reads bring, when the call returns or
  throws, the open descriptors are those from before. There is one exception: a timer that was made and cannot be set stays
  open.\<close>

theorem linux_waits_close:
  "(case linux_wait c sfd fds of
      (fds', Returns _) \<Rightarrow> fds' = fds
    | (fds', Throws _) \<Rightarrow> fds' = fds
    | _ \<Rightarrow> True) \<and>
   (case linux_wait_for c sfd to fds of
      (fds', Returns _) \<Rightarrow> fds' = fds
    | (fds', Throws _) \<Rightarrow>
        fds' = (if 0 < to \<and> lc_timerfd_create c \<noteq> - 1 \<and> \<not> lc_timerfd_settime c then lc_timerfd_create c # fds else fds)
    | _ \<Rightarrow> True)"
proof
  have close: "case closing fd (removing ok (fd # fds, r)) of
      (fds', Returns _) \<Rightarrow> fds' = fds | (fds', Throws _) \<Rightarrow> fds' = fds | _ \<Rightarrow> True"
    for fd :: int and fds ok and r :: "SigVal option ending"
    by (cases ok; cases r) (simp_all add: removing_def)
  show "case linux_wait c sfd fds of
      (fds', Returns _) \<Rightarrow> fds' = fds | (fds', Throws _) \<Rightarrow> fds' = fds | _ \<Rightarrow> True"
    using close by (simp add: linux_wait_def Let_def)
  show "case linux_wait_for c sfd to fds of
      (fds', Returns _) \<Rightarrow> fds' = fds
    | (fds', Throws _) \<Rightarrow>
        fds' = (if 0 < to \<and> lc_timerfd_create c \<noteq> - 1 \<and> \<not> lc_timerfd_settime c then lc_timerfd_create c # fds else fds)
    | _ \<Rightarrow> True"
    by (cases "lc_del_signal c"; cases "lc_del_timer c";
        cases "epoll_loop sfd (Some (lc_timerfd_create c)) (lc_waits c)")
      (simp_all add: linux_wait_for_def create_timer_file_def Let_def removing_def)
qed

end
