(* ===== verification/MultiRunner.thy ===== *)
theory MultiRunner
  imports StringTools Charconv
begin

text \<open>
  What the three versions of the tool \<^verbatim>\<open>bin/multi_runner\<close> share: the command line, the variables each copy finds in
  its environment, the exit code of a copy, and the contract of a supervisor, which is what the README promises of the tool: the
  first copy that fails gives the exit code, and every copy that still runs then is told to end, once. The theories
  \<^verbatim>\<open>RunnerLinux\<close>, \<^verbatim>\<open>RunnerMac\<close> and \<^verbatim>\<open>RunnerWindows\<close> interpret the contract.
\<close>

section \<open>Definitions\<close>

datatype runner_cmd = ShowVersion | RunCopies nat "string list"

definition runner_args :: "string list \<Rightarrow> runner_cmd result" where
  "runner_args argv =
     (if 2 \<le> length argv \<and> nstl_strcmp (Some ''--version'') (Some (argv ! 1)) = 0 then Inr ShowVersion
      else throw_if (length argv < 3) (InvalidArgument ''At least 3 args expected'')
        (bind_result (parse_view_int 0 (2 ^ 32 - 1) (argv ! 1))
          (\<lambda>threads. throw_if (threads = 0) (RuntimeError ''at least one thread must be set'')
            (Inr (RunCopies (nat threads) (drop 2 argv))))))"

definition env_var_big :: "nat \<Rightarrow> string" where
  "env_var_big n = ''NSTL_PROCESSES_NUMBER='' @ show_nat n"

definition env_var_idx :: "nat \<Rightarrow> string" where
  "env_var_idx idx = ''NSTL_PROCESSES_ID='' @ show_nat idx"

text \<open>What \<^verbatim>\<open>execve\<close> is called with.\<close>

record exec_image =
  ex_path :: string
  ex_args :: "string list"
  ex_env :: "string list"

text \<open>An error number that Linux and macOS share.\<close>

abbreviation (input) "EINTR \<equiv> (4 :: int)"

text \<open>How a child ended, as the macros of \<^verbatim>\<open>sys/wait.h\<close> read it from the status, and the code the runner makes of it.\<close>

datatype wait_status = Exited nat | Signaled nat

fun status_code :: "wait_status \<Rightarrow> int" where
  "status_code (Exited c) = int c"
| "status_code (Signaled sig) = 128 + int sig"

text \<open>The first failure in a sequence of ends, and what precedes it.\<close>

fun first_failure :: "('c \<Rightarrow> int) \<Rightarrow> ('p \<times> 'c) list \<Rightarrow> int option" where
  "first_failure code [] = None"
| "first_failure code ((p, c) # es) = (if code c = 0 then first_failure code es else Some (code c))"

text \<open>The copies that are told to end: those that are left when the first failure has been taken note of.\<close>

fun told_to_end :: "('c \<Rightarrow> int) \<Rightarrow> ('p \<times> 'c) list \<Rightarrow> 'p list \<Rightarrow> 'p list" where
  "told_to_end code [] ps = []"
| "told_to_end code ((p, c) # es) ps =
     (if code c = 0 then told_to_end code es (remove1 p ps) else remove1 p ps)"

text \<open>A supervisor that learns of the ends in this order.\<close>

definition supervise :: "('p \<Rightarrow> 'c \<Rightarrow> 's \<Rightarrow> 's) \<Rightarrow> ('p \<times> 'c) list \<Rightarrow> 's \<Rightarrow> 's" where
  "supervise reap es s = fold (\<lambda>(p, c). reap p c) es s"

section \<open>The command line\<close>

lemma show_nat_inj: "show_nat a = show_nat b \<longleftrightarrow> a = b"
  by (metis dec_value_show_nat)

lemma show_nat_not_option: "show_nat n \<noteq> CHR ''-'' # t"
  using hd_show_nat [of n] by (metis list.sel(1))

text \<open>The runner takes every count from 1 to the largest 32-bit number.\<close>

lemma runner_args_copies:
  assumes "0 < n" "n < 2 ^ 32" "cmd \<noteq> []"
  shows "runner_args (exe # show_nat n # cmd) = Inr (RunCopies n cmd)"
proof -
  have "std_from_chars 0 (2 ^ 32 - 1) (show_int (int n)) = (length (show_int (int n)), NoError, Some (int n))"
    using assms(2) by (intro std_from_chars_show_int) auto
  then have "parse_view_int 0 (2 ^ 32 - 1) (show_nat n) = Inr (int n)"
    by (simp add: parse_view_int_def parse_view_def show_int_def)
  moreover have "nstl_strcmp (Some ''--version'') (Some (show_nat n)) \<noteq> 0"
    using show_nat_not_option [of n] by (metis nstl_strcmp_0 option.inject)
  ultimately show ?thesis
    using assms(1,3) by (cases cmd) (auto simp: runner_args_def)
qed

lemma env_var_idx_inj: "env_var_idx i = env_var_idx j \<longleftrightarrow> i = j"
  by (simp add: env_var_idx_def show_nat_inj)

lemma supervise_simps [simp]:
  "supervise reap [] s = s" "supervise reap ((p, c) # es) s = supervise reap es (reap p c s)"
  by (simp_all add: supervise_def)

lemma told_to_end_subset: "set (told_to_end code es ps) \<subseteq> set ps"
  by (induction code es ps rule: told_to_end.induct) (auto dest: notin_set_remove1 split: if_splits, (meson in_mono notin_set_remove1)+)

section \<open>The contract of a supervisor\<close>

text \<open>
  \<open>reap p c s\<close> is what the supervisor does when it learns that copy \<open>p\<close> has ended with \<open>c\<close>; \<open>live\<close> are the copies it waits for,
  \<open>told\<close> the targets of the requests to end it has sent and \<open>target\<close> the target of a copy.
\<close>

locale supervisor =
  fixes ok :: "'s \<Rightarrow> bool"
    and live :: "'s \<Rightarrow> 'p list"
    and raised :: "'s \<Rightarrow> bool"
    and exit_code :: "'s \<Rightarrow> int"
    and told :: "'s \<Rightarrow> 't list"
    and target :: "'s \<Rightarrow> 'p \<Rightarrow> 't"
    and code :: "'c \<Rightarrow> int"
    and reap :: "'p \<Rightarrow> 'c \<Rightarrow> 's \<Rightarrow> 's"
  assumes reap_ok: "ok s \<Longrightarrow> p \<in> set (live s) \<Longrightarrow> ok (reap p c s)"
    and live_distinct: "ok s \<Longrightarrow> distinct (live s)"
    and reap_live: "ok s \<Longrightarrow> p \<in> set (live s) \<Longrightarrow> live (reap p c s) = remove1 p (live s)"
    and reap_raised: "ok s \<Longrightarrow> p \<in> set (live s) \<Longrightarrow> raised (reap p c s) \<longleftrightarrow> raised s \<or> code c \<noteq> 0"
    and reap_exit: "ok s \<Longrightarrow> p \<in> set (live s) \<Longrightarrow>
      exit_code (reap p c s) = (if code c \<noteq> 0 \<and> \<not> raised s then code c else exit_code s)"
    and reap_told: "ok s \<Longrightarrow> p \<in> set (live s) \<Longrightarrow>
      told (reap p c s) = told s @ (if code c \<noteq> 0 \<and> \<not> raised s then map (target s) (remove1 p (live s)) else [])"
    and reap_target: "ok s \<Longrightarrow> p \<in> set (live s) \<Longrightarrow> q \<in> set (remove1 p (live s)) \<Longrightarrow> target (reap p c s) q = target s q"
begin

lemma supervise_raised:
  assumes "ok s" "raised s" "distinct (map fst es)" "set (map fst es) \<subseteq> set (live s)"
  shows "ok (supervise reap es s) \<and> raised (supervise reap es s) \<and> exit_code (supervise reap es s) = exit_code s \<and>
    told (supervise reap es s) = told s \<and> live (supervise reap es s) = filter (\<lambda>p. p \<notin> fst ` set es) (live s)"
  using assms
proof (induction es arbitrary: s)
  case (Cons e es)
  obtain p c where e: "e = (p, c)" by (cases e)
  have p: "p \<in> set (live s)" using Cons.prems e by simp
  note live = reap_live [OF Cons.prems(1) p, of c] and d = live_distinct [OF Cons.prems(1)]
  have "set (map fst es) \<subseteq> set (live (reap p c s))"
    using Cons.prems(3,4) e d by (auto simp: live)
  then have "ok (supervise reap es (reap p c s)) \<and> raised (supervise reap es (reap p c s)) \<and>
      exit_code (supervise reap es (reap p c s)) = exit_code (reap p c s) \<and> told (supervise reap es (reap p c s)) = told (reap p c s) \<and>
      live (supervise reap es (reap p c s)) = filter (\<lambda>p. p \<notin> fst ` set es) (live (reap p c s))"
    using Cons.prems(2,3) e
    by (intro Cons.IH) (simp_all add: reap_ok [OF Cons.prems(1) p] reap_raised [OF Cons.prems(1) p])
  then show ?case
    using Cons.prems(2) d
    by (simp add: e live reap_exit [OF Cons.prems(1) p] reap_told [OF Cons.prems(1) p] distinct_remove1_removeAll
        removeAll_filter_not_eq) (auto intro: filter_cong)
qed simp

lemma supervise_quiet:
  assumes "ok s" "\<not> raised s" "distinct (map fst es)" "set (map fst es) \<subseteq> set (live s)"
  shows "exit_code (supervise reap es s) = (case first_failure code es of None \<Rightarrow> exit_code s | Some v \<Rightarrow> v) \<and>
    told (supervise reap es s) = told s @ map (target s) (told_to_end code es (live s)) \<and>
    live (supervise reap es s) = filter (\<lambda>p. p \<notin> fst ` set es) (live s)"
  using assms
proof (induction es arbitrary: s)
  case (Cons e es)
  obtain p c where e: "e = (p, c)" by (cases e)
  have p: "p \<in> set (live s)" using Cons.prems e by simp
  note live = reap_live [OF Cons.prems(1) p, of c] and d = live_distinct [OF Cons.prems(1)]
  note ok = reap_ok [OF Cons.prems(1) p, of c] and ex = reap_exit [OF Cons.prems(1) p] and told = reap_told [OF Cons.prems(1) p]
  have sub: "set (map fst es) \<subseteq> set (live (reap p c s))" and dist: "distinct (map fst es)"
    using Cons.prems(3,4) e d by (auto simp: live)
  have left: "filter (\<lambda>q. q \<notin> fst ` set es) (live (reap p c s)) = filter (\<lambda>q. q \<notin> fst ` set (e # es)) (live s)"
    using d by (simp add: e live distinct_remove1_removeAll removeAll_filter_not_eq) (auto intro: filter_cong)
  show ?case
  proof (cases "code c = 0")
    case True
    have r: "\<not> raised (reap p c s)" using Cons.prems(2) True by (simp add: reap_raised [OF Cons.prems(1) p])
    have "map (target (reap p c s)) (told_to_end code es (remove1 p (live s))) =
        map (target s) (told_to_end code es (remove1 p (live s)))"
      using told_to_end_subset [of code es "remove1 p (live s)"] by (auto intro!: reap_target [OF Cons.prems(1) p])
    then show ?thesis
      using Cons.IH [OF ok r dist sub] left True Cons.prems(2) by (simp add: e ex told live split: option.split)
  next
    case False
    have r: "raised (reap p c s)" using False by (simp add: reap_raised [OF Cons.prems(1) p])
    show ?thesis
      using supervise_raised [OF ok r dist sub] left False Cons.prems(2) by (simp add: e ex told)
  qed
qed simp

text \<open>Once every copy has ended, in any order, none is waited for, the first failure is the exit code, and exactly the copies that
  were left then have been told to end, once.\<close>

theorem supervise_all:
  assumes "ok s" "\<not> raised s" "mset (map fst es) = mset (live s)"
  shows "live (supervise reap es s) = []"
    and "exit_code (supervise reap es s) = (case first_failure code es of None \<Rightarrow> exit_code s | Some v \<Rightarrow> v)"
    and "told (supervise reap es s) = told s @ map (target s) (told_to_end code es (live s))"
proof -
  have d: "distinct (map fst es)" using live_distinct [OF assms(1)] assms(3) mset_eq_imp_distinct_iff by blast
  have eq: "set (map fst es) = set (live s)" using assms(3) mset_eq_setD by blast
  note q = supervise_quiet [OF assms(1,2) d equalityD1 [OF eq]]
  show "exit_code (supervise reap es s) = (case first_failure code es of None \<Rightarrow> exit_code s | Some v \<Rightarrow> v)"
    and "told (supervise reap es s) = told s @ map (target s) (told_to_end code es (live s))"
    using q by blast+
  have "\<forall>p\<in>set (live s). p \<in> fst ` set es" using eq by auto
  then show "live (supervise reap es s) = []" using q by (simp add: filter_False)
qed

end

end
