(* ===== verification/RunnerLinux.thy ===== *)
theory RunnerLinux
  imports MultiRunner
begin

text \<open>
  \<^verbatim>\<open>bin/main_linux.cpp\<close>: the runner starts the copies with their standard output on a pipe, and an epoll loop reads the signal
  descriptor and the pipes. What the system calls return is given to each function as a sequence, in the order of the calls; the
  relations of the second part say which sequences a Linux kernel gives (signal(7), signalfd(2), waitpid(2), pipe(7)) while the
  children run beside the runner, and the theorems hold for every interleaving.
\<close>

section \<open>Definitions\<close>

subsection \<open>struct process\<close>

record process =
  pr_pid :: int
  read_fd :: int
  write_fd :: int

definition process_none :: process where
  "process_none = \<lparr>pr_pid = 0, read_fd = - 1, write_fd = - 1\<rparr>"

text \<open>The constructor; the argument is what \<^verbatim>\<open>pipe2\<close> gives.\<close>

definition process_new :: "(int \<times> int) option \<Rightarrow> process result" where
  "process_new fds =
     (case fds of None \<Rightarrow> Inl (RuntimeError ''Pipe cannot be opened'')
      | Some (r, w) \<Rightarrow> Inr (process_none\<lparr>read_fd := r, write_fd := w\<rparr>))"

definition process_swap :: "process \<Rightarrow> process \<Rightarrow> process \<times> process" where
  "process_swap a b =
     (a\<lparr>read_fd := read_fd b, write_fd := write_fd b\<rparr>, b\<lparr>read_fd := read_fd a, write_fd := write_fd a\<rparr>)"

text \<open>The descriptors that are closed are the second component.\<close>

definition process_reset :: "process \<Rightarrow> process \<times> int list" where
  "process_reset p =
     (let (p, c) = (if 0 \<le> read_fd p then (p\<lparr>read_fd := - 1\<rparr>, [read_fd p]) else (p, [])) in
      if 0 \<le> write_fd p then (p\<lparr>write_fd := - 1\<rparr>, c @ [write_fd p]) else (p, c))"

definition process_move :: "process \<Rightarrow> process \<times> process" where
  "process_move other = process_swap process_none other"

definition process_assign :: "process \<Rightarrow> process \<Rightarrow> (process \<times> process) \<times> int list" where
  "process_assign this other = (let (this, c) = process_reset this in (process_swap this other, c))"

definition validPid :: "process \<Rightarrow> bool" where
  "validPid p = (0 < pr_pid p)"

definition process_valid :: "process \<Rightarrow> bool" where
  "process_valid p = (validPid p \<or> 0 \<le> read_fd p)"

text \<open>The first argument tells whether \<^verbatim>\<open>epoll_ctl\<close> succeeds.\<close>

definition close_read :: "bool \<Rightarrow> process \<Rightarrow> (process \<times> int list) result" where
  "close_read ctl_ok p =
     (if read_fd p < 0 then Inr (p, [])
      else throw_if (\<not> ctl_ok) (RuntimeError ''epoll_ctl failed'') (Inr (p\<lparr>read_fd := - 1\<rparr>, [read_fd p])))"

subsection \<open>start_processes\<close>

text \<open>The child's image, with the descriptor its standard output is a duplicate of.\<close>

record piped_image = exec_image +
  ex_stdout :: int

text \<open>The function returns in the runner with the processes, and in a child only when \<^verbatim>\<open>execve\<close> fails, with what the child
  has written and its exit code.\<close>

datatype start_result = Started "process list" | Replaced piped_image | ExecFailed string int

text \<open>\<open>fork idx\<close> is what the call for this process returns (0 in the child), \<open>exec\<close> is \<open>None\<close> when \<^verbatim>\<open>execve\<close> succeeds and the error number
  otherwise.\<close>

fun start_loop ::
    "string list \<Rightarrow> string list \<Rightarrow> (nat \<Rightarrow> int) \<Rightarrow> bool \<Rightarrow> int option \<Rightarrow> nat \<Rightarrow> process list \<Rightarrow> process list \<Rightarrow> start_result result" where
  "start_loop argv envvars fork dup_ok exec idx done [] = Inr (Started done)"
| "start_loop argv envvars fork dup_ok exec idx done (p_item # tgt) =
     (let pid = fork idx; env = envvars @ [env_var_idx idx] in
      throw_if (pid < 0) (RuntimeError ''::fork failed'')
        (if pid = 0
         then throw_if (\<not> dup_ok) (RuntimeError ''duplicate handle failed'')
           (case exec of
              None \<Rightarrow> Inr (Replaced \<lparr>ex_path = argv ! 0, ex_args = argv, ex_env = env, ex_stdout = write_fd p_item\<rparr>)
            | Some errno \<Rightarrow> Inr (ExecFailed (show_int errno @ '' error number'' @ [char_of (10 :: nat)]) 1))
         else start_loop argv envvars fork dup_ok exec (Suc idx) (done @ [p_item\<lparr>pr_pid := pid\<rparr>]) tgt))"

definition start_processes ::
    "string list \<Rightarrow> string list \<Rightarrow> (nat \<Rightarrow> int) \<Rightarrow> bool \<Rightarrow> int option \<Rightarrow> process list \<Rightarrow> start_result result" where
  "start_processes argv envv fork dup_ok exec tgt =
     start_loop argv (envv @ [env_var_big (length tgt)]) fork dup_ok exec 0 [] tgt"

subsection \<open>read_signal\<close>

abbreviation (input) "SIGCHLD \<equiv> (17 :: int)"
abbreviation (input) "ECHILD \<equiv> (10 :: int)"
abbreviation (input) "EAGAIN \<equiv> (11 :: int)"

text \<open>The variables of \<^verbatim>\<open>main\<close> the loop works on, the signals sent (target and number), the descriptors closed, and what is written
  to the standard output, each piece with the number of the process it was read from.\<close>

record runner =
  l_procs :: "process list"
  l_raised :: bool
  l_exit :: int
  l_kills :: "(int \<times> int) list"
  l_closed :: "int list"
  l_out :: "(nat \<times> string) list"

definition live_pids :: "runner \<Rightarrow> int list" where
  "live_pids s = map pr_pid (filter validPid (l_procs s))"

definition kill_all :: "int \<Rightarrow> runner \<Rightarrow> runner" where
  "kill_all sig s = s\<lparr>l_kills := l_kills s @ map (\<lambda>pid. (pid, sig)) (live_pids s)\<rparr>"

definition forward_signal :: "int \<Rightarrow> runner \<Rightarrow> runner" where
  "forward_signal sig s = (kill_all sig s)\<lparr>l_raised := True\<rparr>"

text \<open>\<^verbatim>\<open>std::ranges::find_if\<close> on the processes, and the body of the reaping loop for a child that \<^verbatim>\<open>waitpid\<close> has returned.\<close>

fun clear_pid :: "int \<Rightarrow> process list \<Rightarrow> process list option" where
  "clear_pid pid [] = None"
| "clear_pid pid (p # ps) =
     (if pr_pid p = pid then Some (p\<lparr>pr_pid := 0\<rparr> # ps) else map_option ((#) p) (clear_pid pid ps))"

definition child_ended :: "int \<Rightarrow> wait_status \<Rightarrow> runner \<Rightarrow> runner" where
  "child_ended pid status s =
     (case clear_pid pid (l_procs s) of
        None \<Rightarrow> s
      | Some ps \<Rightarrow>
          let s = s\<lparr>l_procs := ps\<rparr>; code = status_code status in
          if code \<noteq> 0 \<and> \<not> l_raised s
          then (kill_all SIGTERM (s\<lparr>l_exit := code\<rparr>))\<lparr>l_raised := True\<rparr>
          else s)"

datatype wait_result = Reaped int wait_status | NoneReady | WaitError int

text \<open>The \<^verbatim>\<open>while (true)\<close> over \<^verbatim>\<open>waitpid\<close>: \<open>None\<close> is a loop that has not ended when the results end. On Linux \<^verbatim>\<open>EWOULDBLOCK\<close> is
  \<^verbatim>\<open>EAGAIN\<close>.\<close>

fun reap_children :: "wait_result list \<Rightarrow> runner \<Rightarrow> runner option" where
  "reap_children [] s = None"
| "reap_children (Reaped pid status # ws) s = reap_children ws (child_ended pid status s)"
| "reap_children (NoneReady # ws) s = Some s"
| "reap_children (WaitError errno # ws) s =
     (if errno = EINTR then reap_children ws s
      else if errno = EAGAIN \<or> errno = ECHILD then Some s
      else reap_children ws s)"

text \<open>One \<^verbatim>\<open>read\<close> of the signal descriptor: a record, with the results of \<^verbatim>\<open>waitpid\<close> while it is handled; a short read; or no more.\<close>

datatype signal_read = SigInfo int "wait_result list" | SigShort | SigNone

fun runner_read_signal :: "signal_read list \<Rightarrow> runner \<Rightarrow> runner option" where
  "runner_read_signal [] s = None"
| "runner_read_signal (SigNone # rs) s = Some s"
| "runner_read_signal (SigShort # rs) s = Some s"
| "runner_read_signal (SigInfo signo ws # rs) s =
     (if signo = SIGINT \<or> signo = SIGTERM \<or> signo = SIGQUIT then runner_read_signal rs (forward_signal signo s)
      else if signo = SIGCHLD
      then (case reap_children ws s of None \<Rightarrow> None | Some s \<Rightarrow> runner_read_signal rs s)
      else runner_read_signal rs s)"

subsection \<open>read_pipe\<close>

text \<open>One \<^verbatim>\<open>read\<close> of a pipe: bytes, the end of the file (with the success of the \<^verbatim>\<open>epoll_ctl\<close> that follows) or an error.\<close>

datatype pipe_read = PipeData string | PipeEof bool | PipeError int

fun read_pipe :: "nat \<Rightarrow> pipe_read list \<Rightarrow> runner \<Rightarrow> (runner \<times> unit result) option" where
  "read_pipe i rs s =
     (if read_fd (l_procs s ! i) < 0 then Some (s, Inr ())
      else case rs of
        [] \<Rightarrow> None
      | PipeData bytes # rs \<Rightarrow> read_pipe i rs (s\<lparr>l_out := l_out s @ [(i, bytes)]\<rparr>)
      | PipeEof ctl_ok # rs \<Rightarrow>
          Some (case close_read ctl_ok (l_procs s ! i) of
             Inl e \<Rightarrow> (s, Inl e)
           | Inr (p, closed) \<Rightarrow> (s\<lparr>l_procs := (l_procs s)[i := p], l_closed := l_closed s @ closed\<rparr>, Inr ()))
      | PipeError errno # rs \<Rightarrow>
          (if errno = EINTR then read_pipe i rs s
           else if errno = EAGAIN then Some (s, Inr ())
           else Some (s, Inl (RuntimeError ''read(pipe) failed''))))"

declare read_pipe.simps [simp del]

subsection \<open>main\<close>

text \<open>An event of \<^verbatim>\<open>epoll_wait\<close>: its descriptor, with what the reads of it give.\<close>

record fd_event =
  ev_fd :: int
  ev_signals :: "signal_read list"
  ev_pipe :: "pipe_read list"

fun runner_handle_events :: "int \<Rightarrow> fd_event list \<Rightarrow> runner \<Rightarrow> (runner \<times> unit result) option" where
  "runner_handle_events sfd [] s = Some (s, Inr ())"
| "runner_handle_events sfd (ev # evs) s =
     (if ev_fd ev = sfd
      then (case runner_read_signal (ev_signals ev) s of None \<Rightarrow> None | Some s \<Rightarrow> runner_handle_events sfd evs s)
      else case find_idx (ev_fd ev) (map read_fd (l_procs s)) of
        None \<Rightarrow> runner_handle_events sfd evs s
      | Some i \<Rightarrow>
          (case read_pipe i (ev_pipe ev) s of
             None \<Rightarrow> None
           | Some (s, Inl e) \<Rightarrow> Some (s, Inl e)
           | Some (s, Inr _) \<Rightarrow> runner_handle_events sfd evs s))"

datatype runner_epoll_result = Ready "fd_event list" | EpollError int

fun runner_epoll_loop :: "int \<Rightarrow> runner_epoll_result list \<Rightarrow> runner \<Rightarrow> (runner \<times> unit result) option" where
  "runner_epoll_loop sfd rs s =
     (if \<not> list_ex validPid (l_procs s) then Some (s, Inr ())
      else case rs of
        [] \<Rightarrow> None
      | EpollError errno # rs \<Rightarrow>
          (if errno = EINTR then runner_epoll_loop sfd rs s else Some (s, Inl (RuntimeError ''epoll_wait error n = '')))
      | Ready evs # rs \<Rightarrow>
          (case runner_handle_events sfd evs s of
             None \<Rightarrow> None
           | Some (s, Inl e) \<Rightarrow> Some (s, Inl e)
           | Some (s, Inr _) \<Rightarrow> runner_epoll_loop sfd rs s))"

declare runner_epoll_loop.simps [simp del]

text \<open>The last \<^verbatim>\<open>for_each\<close>: process by process, with what the reads of each give.\<close>

fun drain_pipes :: "nat list \<Rightarrow> pipe_read list list \<Rightarrow> runner \<Rightarrow> (runner \<times> unit result) option" where
  "drain_pipes [] rss s = Some (s, Inr ())"
| "drain_pipes (i # is) [] s = None"
| "drain_pipes (i # is) (rs # rss) s =
     (case read_pipe i rs s of
        None \<Rightarrow> None
      | Some (s, Inl e) \<Rightarrow> Some (s, Inl e)
      | Some (s, Inr _) \<Rightarrow> drain_pipes is rss s)"

text \<open>\<^verbatim>\<open>processes.resize(threads)\<close>.\<close>

fun make_processes :: "(nat \<Rightarrow> (int \<times> int) option) \<Rightarrow> nat \<Rightarrow> process list result" where
  "make_processes pipes 0 = Inr []"
| "make_processes pipes (Suc n) =
     bind_result (make_processes pipes n) (\<lambda>ps. bind_result (process_new (pipes n)) (\<lambda>p. Inr (ps @ [p])))"

text \<open>What the system calls of \<^verbatim>\<open>main\<close> give.\<close>

record runner_linux_calls =
  lc_sigprocmask :: int
  lc_signalfd :: int
  lc_pipes :: "nat \<Rightarrow> (int \<times> int) option"
  lc_fork :: "nat \<Rightarrow> int"
  lc_dup_ok :: bool
  lc_exec :: "int option"
  lc_epoll_create :: int
  lc_epoll_add :: "int \<Rightarrow> int"
  lc_epoll :: "runner_epoll_result list"
  lc_drain :: "pipe_read list list"

definition runner_start :: "process list \<Rightarrow> runner" where
  "runner_start ps = \<lparr>l_procs = ps, l_raised = False, l_exit = 0, l_kills = [], l_closed = [], l_out = []\<rparr>"

definition runner_loops :: "runner_linux_calls \<Rightarrow> process list \<Rightarrow> (runner \<times> unit result) option" where
  "runner_loops lc ps =
     (case runner_epoll_loop (lc_signalfd lc) (lc_epoll lc) (runner_start ps) of
        None \<Rightarrow> None
      | Some (s, Inl e) \<Rightarrow> Some (s, Inl e)
      | Some (s, Inr _) \<Rightarrow> drain_pipes [0..<length (l_procs s)] (lc_drain lc) s)"

text \<open>The ways \<^verbatim>\<open>main\<close> ends: the version is printed; the image is replaced, or \<^verbatim>\<open>execve\<close> failed, in a child; the runner returns
  \<^verbatim>\<open>exit_code\<close>; or an exception leaves it.\<close>

datatype main_end =
    PrintedVersion
  | BecameChild piped_image
  | ChildReturned string int
  | RunnerReturned runner int
  | MainThrew exn

definition main_linux :: "runner_linux_calls \<Rightarrow> string list \<Rightarrow> string list \<Rightarrow> main_end option" where
  "main_linux lc argv envv =
     (case runner_args argv of
        Inl e \<Rightarrow> Some (MainThrew e)
      | Inr ShowVersion \<Rightarrow> Some PrintedVersion
      | Inr (RunCopies threads cmd) \<Rightarrow>
          if lc_sigprocmask lc < 0 then Some (MainThrew (RuntimeError ''sigprocmask failed''))
          else if lc_signalfd lc < 0 then Some (MainThrew (RuntimeError ''signalfd failed''))
          else case make_processes (lc_pipes lc) threads of
            Inl e \<Rightarrow> Some (MainThrew e)
          | Inr processes \<Rightarrow>
              (case start_processes cmd envv (lc_fork lc) (lc_dup_ok lc) (lc_exec lc) processes of
                 Inl e \<Rightarrow> Some (MainThrew e)
               | Inr (Replaced img) \<Rightarrow> Some (BecameChild img)
               | Inr (ExecFailed out code) \<Rightarrow> Some (ChildReturned out code)
               | Inr (Started ps) \<Rightarrow>
                   if lc_epoll_create lc < 0 then Some (MainThrew (RuntimeError ''epoll_create1 failed''))
                   else if lc_epoll_add lc (lc_signalfd lc) < 0 then Some (MainThrew (RuntimeError ''epoll_ctl failed''))
                   else if list_ex (\<lambda>p. lc_epoll_add lc (read_fd p) \<noteq> 0) ps
                   then Some (MainThrew (RuntimeError ''epoll_ctl failed''))
                   else case runner_loops lc ps of
                     None \<Rightarrow> None
                   | Some (s, Inl e) \<Rightarrow> Some (MainThrew e)
                   | Some (s, Inr _) \<Rightarrow> Some (RunnerReturned s (l_exit s))))"

section \<open>What the kernel gives\<close>

text \<open>
  The children (alive, or ended and not yet waited for), the signals pending for the signal descriptor (a set: a signal that is
  pending already is not queued again), what is in the pipe of each copy and what has ever been written to it, and the order in which
  the runner took signals and ends. \<open>own\<close> are the process numbers of the copies in their order.
\<close>

datatype log_entry = TookSignal int | TookEnd int wait_status

record kern =
  k_alive :: "int set"
  k_zombies :: "(int \<times> wait_status) set"
  k_pending :: "int set"
  k_pipe :: "nat \<Rightarrow> string"
  k_written :: "nat \<Rightarrow> string"
  k_log :: "log_entry list"

definition kern_start :: "int list \<Rightarrow> kern" where
  "kern_start own =
     \<lparr>k_alive = set own, k_zombies = {}, k_pending = {}, k_pipe = (\<lambda>_. []), k_written = (\<lambda>_. []), k_log = []\<rparr>"

text \<open>What happens beside the runner: a child ends, stops or writes, somebody sends the runner a signal.\<close>

inductive kern_env :: "int list \<Rightarrow> kern \<Rightarrow> kern \<Rightarrow> bool" for own where
  child_ends: "p \<in> k_alive k \<Longrightarrow>
    kern_env own k (k\<lparr>k_alive := k_alive k - {p}, k_zombies := insert (p, st) (k_zombies k), k_pending := insert SIGCHLD (k_pending k)\<rparr>)"
| child_stops: "kern_env own k (k\<lparr>k_pending := insert SIGCHLD (k_pending k)\<rparr>)"
| signal_sent: "sig \<in> {SIGINT, SIGTERM, SIGQUIT} \<Longrightarrow> kern_env own k (k\<lparr>k_pending := insert sig (k_pending k)\<rparr>)"
| child_writes: "i < length own \<Longrightarrow> own ! i \<in> k_alive k \<Longrightarrow>
    kern_env own k (k\<lparr>k_pipe := (k_pipe k)(i := k_pipe k i @ t), k_written := (k_written k)(i := k_written k i @ t)\<rparr>)"

text \<open>The results of the \<^verbatim>\<open>waitpid\<close> calls of one reaping loop: a child that has ended, 0 when there are children and none has, and
  \<^verbatim>\<open>ECHILD\<close> when there is no child.\<close>

inductive kern_waits :: "int list \<Rightarrow> kern \<Rightarrow> wait_result list \<Rightarrow> kern \<Rightarrow> bool" for own where
  waits_env: "kern_env own k k1 \<Longrightarrow> kern_waits own k1 ws k2 \<Longrightarrow> kern_waits own k ws k2"
| waits_reap: "(p, st) \<in> k_zombies k \<Longrightarrow>
    kern_waits own (k\<lparr>k_zombies := k_zombies k - {(p, st)}, k_log := k_log k @ [TookEnd p st]\<rparr>) ws k2 \<Longrightarrow>
    kern_waits own k (Reaped p st # ws) k2"
| waits_interrupted: "kern_waits own k ws k2 \<Longrightarrow> kern_waits own k (WaitError EINTR # ws) k2"
| waits_none: "k_zombies k = {} \<Longrightarrow> k_alive k \<noteq> {} \<Longrightarrow> kern_waits own k [NoneReady] k"
| waits_no_child: "k_zombies k = {} \<Longrightarrow> k_alive k = {} \<Longrightarrow> kern_waits own k [WaitError ECHILD] k"

text \<open>The reads of the signal descriptor: each takes a pending signal, until there is none.\<close>

inductive kern_signals :: "int list \<Rightarrow> kern \<Rightarrow> signal_read list \<Rightarrow> kern \<Rightarrow> bool" for own where
  signals_env: "kern_env own k k1 \<Longrightarrow> kern_signals own k1 rs k2 \<Longrightarrow> kern_signals own k rs k2"
| signals_take: "sig \<in> k_pending k \<Longrightarrow> sig \<in> {SIGINT, SIGTERM, SIGQUIT} \<Longrightarrow>
    kern_signals own (k\<lparr>k_pending := k_pending k - {sig}, k_log := k_log k @ [TookSignal sig]\<rparr>) rs k2 \<Longrightarrow>
    kern_signals own k (SigInfo sig [] # rs) k2"
| signals_child: "SIGCHLD \<in> k_pending k \<Longrightarrow> kern_waits own (k\<lparr>k_pending := k_pending k - {SIGCHLD}\<rparr>) ws k1 \<Longrightarrow>
    kern_signals own k1 rs k2 \<Longrightarrow> kern_signals own k (SigInfo SIGCHLD ws # rs) k2"
| signals_none: "k_pending k = {} \<Longrightarrow> kern_signals own k [SigNone] k"

text \<open>The reads of the pipe of copy \<open>i\<close>: some bytes, or \<^verbatim>\<open>EAGAIN\<close> when it is empty. The end of the file is not among them: the runner
  keeps the write end of each pipe open itself.\<close>

inductive kern_pipe :: "int list \<Rightarrow> nat \<Rightarrow> kern \<Rightarrow> pipe_read list \<Rightarrow> kern \<Rightarrow> bool" for own i where
  pipe_env: "kern_env own k k1 \<Longrightarrow> kern_pipe own i k1 rs k2 \<Longrightarrow> kern_pipe own i k rs k2"
| pipe_data: "t \<noteq> [] \<Longrightarrow> k_pipe k i = t @ rest \<Longrightarrow>
    kern_pipe own i (k\<lparr>k_pipe := (k_pipe k)(i := rest)\<rparr>) rs k2 \<Longrightarrow> kern_pipe own i k (PipeData t # rs) k2"
| pipe_interrupted: "kern_pipe own i k rs k2 \<Longrightarrow> kern_pipe own i k (PipeError EINTR # rs) k2"
| pipe_empty: "k_pipe k i = [] \<Longrightarrow> kern_pipe own i k [PipeError EAGAIN] k"

inductive kern_pipes :: "int list \<Rightarrow> nat list \<Rightarrow> kern \<Rightarrow> pipe_read list list \<Rightarrow> kern \<Rightarrow> bool" for own where
  pipes_nil: "kern_pipes own [] k [] k"
| pipes_cons: "kern_pipe own i k rs k1 \<Longrightarrow> kern_pipes own is k1 rss k2 \<Longrightarrow> kern_pipes own (i # is) k (rs # rss) k2"

text \<open>The states of the loop of \<^verbatim>\<open>main\<close> between two handlers.\<close>

inductive runner_reach :: "process list \<Rightarrow> kern \<Rightarrow> runner \<Rightarrow> bool" for ps where
  reach_start: "runner_reach ps (kern_start (map pr_pid ps)) (runner_start ps)"
| reach_env: "runner_reach ps k s \<Longrightarrow> kern_env (map pr_pid ps) k k1 \<Longrightarrow> runner_reach ps k1 s"
| reach_signal: "runner_reach ps k s \<Longrightarrow> kern_signals (map pr_pid ps) k rs k1 \<Longrightarrow> runner_read_signal rs s = Some s1 \<Longrightarrow>
    runner_reach ps k1 s1"
| reach_pipe: "runner_reach ps k s \<Longrightarrow> i < length ps \<Longrightarrow> kern_pipe (map pr_pid ps) i k rs k1 \<Longrightarrow>
    read_pipe i rs s = Some (s1, Inr ()) \<Longrightarrow> runner_reach ps k1 s1"

text \<open>The events that \<^verbatim>\<open>epoll_wait\<close> gives, one call after the other.\<close>

inductive kern_events :: "process list \<Rightarrow> int \<Rightarrow> kern \<Rightarrow> fd_event list \<Rightarrow> kern \<Rightarrow> bool" for ps sfd where
  events_nil: "kern_events ps sfd k [] k"
| events_env: "kern_env (map pr_pid ps) k k1 \<Longrightarrow> kern_events ps sfd k1 evs k2 \<Longrightarrow> kern_events ps sfd k evs k2"
| events_signal: "kern_signals (map pr_pid ps) k rs k1 \<Longrightarrow> kern_events ps sfd k1 evs k2 \<Longrightarrow>
    kern_events ps sfd k (\<lparr>ev_fd = sfd, ev_signals = rs, ev_pipe = []\<rparr> # evs) k2"
| events_pipe: "i < length ps \<Longrightarrow> kern_pipe (map pr_pid ps) i k rs k1 \<Longrightarrow> kern_events ps sfd k1 evs k2 \<Longrightarrow>
    kern_events ps sfd k (\<lparr>ev_fd = read_fd (ps ! i), ev_signals = [], ev_pipe = rs\<rparr> # evs) k2"

inductive kern_epolls :: "process list \<Rightarrow> int \<Rightarrow> kern \<Rightarrow> runner_epoll_result list \<Rightarrow> bool" for ps sfd where
  epolls_nil: "kern_epolls ps sfd k []"
| epolls_ready: "kern_events ps sfd k evs k1 \<Longrightarrow> kern_epolls ps sfd k1 rs \<Longrightarrow> kern_epolls ps sfd k (Ready evs # rs)"
| epolls_interrupted: "kern_epolls ps sfd k rs \<Longrightarrow> kern_epolls ps sfd k (EpollError EINTR # rs)"

text \<open>The specification: what the runner makes of the signals and ends it takes, on the copies it waits for, the flag \<^verbatim>\<open>raised\<close>, the
  exit code and the signals sent.\<close>

type_synonym spec_state = "int list \<times> bool \<times> int \<times> (int \<times> int) list"

fun spec_step :: "log_entry \<Rightarrow> spec_state \<Rightarrow> spec_state" where
  "spec_step (TookSignal sig) (ps, r, e, ks) = (ps, True, e, ks @ map (\<lambda>p. (p, sig)) ps)"
| "spec_step (TookEnd p st) (ps, r, e, ks) =
     (let ps = remove1 p ps in
      if status_code st \<noteq> 0 \<and> \<not> r then (ps, True, status_code st, ks @ map (\<lambda>p. (p, SIGTERM)) ps) else (ps, r, e, ks))"

definition runner_abs :: "runner \<Rightarrow> spec_state" where
  "runner_abs s = (live_pids s, l_raised s, l_exit s, l_kills s)"

fun log_exit :: "log_entry list \<Rightarrow> int" where
  "log_exit [] = 0"
| "log_exit (TookSignal sig # es) = 0"
| "log_exit (TookEnd p st # es) = (if status_code st = 0 then log_exit es else status_code st)"

text \<open>What has been forwarded from copy \<open>i\<close>.\<close>

definition forwarded :: "nat \<Rightarrow> runner \<Rightarrow> string" where
  "forwarded i s = concat (map snd (filter (\<lambda>x. fst x = i) (l_out s)))"

definition started_ok :: "process list \<Rightarrow> bool" where
  "started_ok ps = (distinct (map pr_pid ps) \<and> distinct (map read_fd ps) \<and> list_all (\<lambda>p. 0 < pr_pid p \<and> 0 \<le> read_fd p) ps)"

definition runner_inv :: "process list \<Rightarrow> kern \<Rightarrow> runner \<Rightarrow> bool" where
  "runner_inv ps k s =
     (map read_fd (l_procs s) = map read_fd ps \<and>
      distinct (live_pids s) \<and> set (live_pids s) = k_alive k \<union> fst ` k_zombies k \<and>
      k_alive k \<inter> fst ` k_zombies k = {} \<and> inj_on fst (k_zombies k) \<and>
      runner_abs s = fold spec_step (k_log k) (map pr_pid ps, False, 0, []) \<and>
      (\<forall>i. forwarded i s @ k_pipe k i = k_written k i))"

definition sigchld_set :: "kern \<Rightarrow> bool" where
  "sigchld_set k = (k_zombies k \<noteq> {} \<longrightarrow> SIGCHLD \<in> k_pending k)"


section \<open>The supervisor\<close>

lemma clear_pid_None: "clear_pid pid ps = None \<longleftrightarrow> pid \<notin> pr_pid ` set ps"
  by (induction ps) auto

lemma clear_pid_Some:
  "clear_pid pid ps = Some qs \<Longrightarrow> 0 < pid \<Longrightarrow>
     map pr_pid (filter validPid qs) = remove1 pid (map pr_pid (filter validPid ps)) \<and> map read_fd qs = map read_fd ps"
  by (induction ps arbitrary: qs) (auto simp: validPid_def split: if_splits)

lemma live_pids_pos: "p \<in> set (live_pids s) \<Longrightarrow> 0 < p"
  by (auto simp: live_pids_def validPid_def)

lemma live_pids_updates [simp]:
  "live_pids (s\<lparr>l_raised := r\<rparr>) = live_pids s" "live_pids (s\<lparr>l_exit := e\<rparr>) = live_pids s"
  "live_pids (s\<lparr>l_kills := ks\<rparr>) = live_pids s" "live_pids (s\<lparr>l_out := out\<rparr>) = live_pids s"
  by (simp_all add: live_pids_def)

text \<open>What the runner does with the end of a child and with a signal is what the specification says.\<close>

lemma child_ended_spec:
  assumes "pid \<in> set (live_pids s)"
  shows "runner_abs (child_ended pid st s) = spec_step (TookEnd pid st) (runner_abs s)"
    and "map read_fd (l_procs (child_ended pid st s)) = map read_fd (l_procs s)"
    and "l_out (child_ended pid st s) = l_out s"
proof -
  have "pid \<in> pr_pid ` set (l_procs s)" using assms by (auto simp: live_pids_def)
  then obtain qs where qs: "clear_pid pid (l_procs s) = Some qs"
    using clear_pid_None by (cases "clear_pid pid (l_procs s)") auto
  note c = clear_pid_Some [OF qs live_pids_pos [OF assms]]
  show "runner_abs (child_ended pid st s) = spec_step (TookEnd pid st) (runner_abs s)"
    using c by (simp add: child_ended_def qs Let_def runner_abs_def kill_all_def live_pids_def)
  show "map read_fd (l_procs (child_ended pid st s)) = map read_fd (l_procs s)" "l_out (child_ended pid st s) = l_out s"
    using c by (simp_all add: child_ended_def qs Let_def kill_all_def)
qed

text \<open>A child that is not one of the copies is passed over.\<close>

lemma child_ended_other: "pid \<notin> pr_pid ` set (l_procs s) \<Longrightarrow> child_ended pid st s = s"
  using clear_pid_None [of pid "l_procs s"] by (simp add: child_ended_def)

lemma forward_signal_spec:
  "runner_abs (forward_signal sig s) = spec_step (TookSignal sig) (runner_abs s)"
  "l_procs (forward_signal sig s) = l_procs s" "l_out (forward_signal sig s) = l_out s"
  by (simp_all add: forward_signal_def kill_all_def runner_abs_def)

interpretation linux: supervisor
  "\<lambda>s. distinct (live_pids s)" live_pids l_raised l_exit l_kills "\<lambda>s p. (p, SIGTERM)" status_code child_ended
proof unfold_locales
  fix s and p :: int and c
  assume d: "distinct (live_pids s)" and p: "p \<in> set (live_pids s)"
  note sp = child_ended_spec(1) [OF p, of c]
  show "live_pids (child_ended p c s) = remove1 p (live_pids s)"
    using sp by (auto simp: runner_abs_def Let_def split: if_splits)
  with d show "distinct (live_pids (child_ended p c s))" by simp
  show "l_raised (child_ended p c s) \<longleftrightarrow> l_raised s \<or> status_code c \<noteq> 0"
    and "l_exit (child_ended p c s) = (if status_code c \<noteq> 0 \<and> \<not> l_raised s then status_code c else l_exit s)"
    and "l_kills (child_ended p c s) = l_kills s @
      (if status_code c \<noteq> 0 \<and> \<not> l_raised s then map (\<lambda>p. (p, SIGTERM)) (remove1 p (live_pids s)) else [])"
    using sp by (auto simp: runner_abs_def Let_def split: if_splits)
qed auto

section \<open>Every interleaving\<close>

lemma runner_inv_env:
  assumes "kern_env (map pr_pid ps) k k1" "runner_inv ps k s"
  shows "runner_inv ps k1 s" "sigchld_set k \<Longrightarrow> sigchld_set k1"
  using assms by (induction rule: kern_env.induct) (auto simp: runner_inv_def sigchld_set_def inj_on_def)

lemma runner_inv_reap:
  assumes "runner_inv ps k s" "(p, st) \<in> k_zombies k"
  shows "runner_inv ps (k\<lparr>k_zombies := k_zombies k - {(p, st)}, k_log := k_log k @ [TookEnd p st]\<rparr>) (child_ended p st s)"
proof -
  have p: "p \<in> set (live_pids s)" using assms by (auto simp: runner_inv_def image_iff intro!: bexI [of _ "(p, st)"])
  note sp = child_ended_spec [OF p, of st]
  have live: "live_pids (child_ended p st s) = remove1 p (live_pids s)"
    using sp(1) by (auto simp: runner_abs_def Let_def split: if_splits)
  have img: "fst ` (k_zombies k - {(p, st)}) = fst ` k_zombies k - {p}"
    using assms inj_on_image_set_diff [of fst "k_zombies k" "k_zombies k" "{(p, st)}"] by (simp add: runner_inv_def)
  have "p \<in> fst ` k_zombies k" using assms(2) by force
  then have "p \<notin> k_alive k" using assms(1) unfolding runner_inv_def by blast
  then show ?thesis
    using assms sp by (simp add: runner_inv_def live img forwarded_def) (auto simp: inj_on_def)
qed

lemma runner_inv_waits:
  assumes "kern_waits (map pr_pid ps) k ws k2" "runner_inv ps k s"
  shows "\<exists>s2. reap_children ws s = Some s2 \<and> runner_inv ps k2 s2 \<and> sigchld_set k2"
  using assms
proof (induction arbitrary: s rule: kern_waits.induct)
  case (waits_env k k1 ws k2)
  then show ?case using runner_inv_env by blast
next
  case (waits_reap p st k ws k2)
  then show ?case using runner_inv_reap by simp
qed (auto simp: sigchld_set_def)

lemma runner_inv_signals:
  assumes "kern_signals (map pr_pid ps) k rs k2" "runner_inv ps k s" "sigchld_set k"
  shows "\<exists>s2. runner_read_signal rs s = Some s2 \<and> runner_inv ps k2 s2 \<and> sigchld_set k2 \<and> k_pending k2 = {}"
  using assms
proof (induction arbitrary: s rule: kern_signals.induct)
  case (signals_env k k1 rs k2)
  then show ?case using runner_inv_env by blast
next
  case (signals_take sig k rs k2)
  have "runner_inv ps (k\<lparr>k_pending := k_pending k - {sig}, k_log := k_log k @ [TookSignal sig]\<rparr>) (forward_signal sig s)"
    using signals_take.prems(1) by (simp add: runner_inv_def forward_signal_spec forwarded_def live_pids_def)
  moreover have "sigchld_set (k\<lparr>k_pending := k_pending k - {sig}, k_log := k_log k @ [TookSignal sig]\<rparr>)"
    using signals_take.prems(2) signals_take.hyps(2) by (auto simp: sigchld_set_def)
  ultimately show ?case using signals_take.IH signals_take.hyps(2) by auto
next
  case (signals_child k ws k1 rs k2)
  have "runner_inv ps (k\<lparr>k_pending := k_pending k - {SIGCHLD}\<rparr>) s"
    using signals_child.prems(1) by (simp add: runner_inv_def)
  from runner_inv_waits [OF signals_child.hyps(2) this]
  obtain s1 where "reap_children ws s = Some s1" "runner_inv ps k1 s1" "sigchld_set k1" by blast
  with signals_child.IH [of s1] show ?case by simp
qed auto


lemma runner_inv_procs:
  assumes "runner_inv ps k s" "started_ok ps"
  shows "length (l_procs s) = length ps" "i < length ps \<Longrightarrow> 0 \<le> read_fd (l_procs s ! i)"
proof -
  have fds: "map read_fd (l_procs s) = map read_fd ps" using assms(1) unfolding runner_inv_def by blast
  then show len: "length (l_procs s) = length ps" using map_eq_imp_length_eq by blast
  assume "i < length ps"
  then show "0 \<le> read_fd (l_procs s ! i)"
    using assms(2) fds len nth_map [of i "l_procs s" read_fd] nth_map [of i ps read_fd]
    by (auto simp: started_ok_def list_all_length)
qed

text \<open>Reading a pipe to \<^verbatim>\<open>EAGAIN\<close> forwards all that is in it, and touches nothing else.\<close>

lemma runner_inv_pipe:
  assumes "kern_pipe (map pr_pid ps) i k rs k2" "runner_inv ps k s" "started_ok ps" "i < length ps"
  shows "\<exists>s2. read_pipe i rs s = Some (s2, Inr ()) \<and> runner_inv ps k2 s2 \<and> (sigchld_set k \<longrightarrow> sigchld_set k2) \<and>
    runner_abs s2 = runner_abs s \<and> k_pipe k2 i = []"
  using assms
proof (induction arbitrary: s rule: kern_pipe.induct)
  case (pipe_env k k1 rs k2)
  then show ?case using runner_inv_env by meson
next
  case (pipe_data t k rest rs k2)
  note fd = runner_inv_procs(2) [OF pipe_data.prems(1-3)]
  define s1 where "s1 = s\<lparr>l_out := l_out s @ [(i, t)]\<rparr>"
  have fw: "forwarded j s1 = forwarded j s @ (if j = i then t else [])" for j by (simp add: forwarded_def s1_def)
  have same: "l_procs s1 = l_procs s" "live_pids s1 = live_pids s" "runner_abs s1 = runner_abs s"
    by (simp_all add: s1_def runner_abs_def)
  have "forwarded i s @ t @ rest = k_written k i"
    using pipe_data.prems(1) pipe_data.hyps(2) unfolding runner_inv_def by metis
  then have inv1: "runner_inv ps (k\<lparr>k_pipe := (k_pipe k)(i := rest)\<rparr>) s1"
    using pipe_data.prems(1) by (simp add: runner_inv_def fw same)
  have "read_pipe i (PipeData t # rs) s = read_pipe i rs s1"
    using fd by (simp add: read_pipe.simps [of i "PipeData t # rs"] s1_def)
  with same pipe_data.IH [OF inv1 pipe_data.prems(2,3)] show ?case by (simp add: sigchld_set_def)
next
  case (pipe_interrupted k rs k2)
  then show ?case using runner_inv_procs(2) [OF pipe_interrupted.prems(1-3)] by (simp add: read_pipe.simps [of i "_ # _"])
next
  case (pipe_empty k)
  then show ?case using runner_inv_procs(2) [OF pipe_empty.prems(1-3)] by (simp add: read_pipe.simps)
qed

lemma runner_reach_inv:
  assumes "runner_reach ps k s" "started_ok ps"
  shows "runner_inv ps k s \<and> sigchld_set k"
  using assms
proof (induction rule: runner_reach.induct)
  case reach_start
  have "filter validPid ps = ps" using reach_start by (simp add: started_ok_def list_all_iff validPid_def)
  then show ?case
    using reach_start
    by (simp add: runner_inv_def sigchld_set_def kern_start_def runner_start_def live_pids_def runner_abs_def forwarded_def started_ok_def)
next
  case (reach_env k s k1)
  then show ?case using runner_inv_env by blast
next
  case (reach_signal k s rs k1 s1)
  then show ?case using runner_inv_signals by fastforce
next
  case (reach_pipe k s i rs k1 s1)
  then show ?case using runner_inv_pipe by fastforce
qed

lemma spec_exit:
  "fst (snd (snd (fold spec_step es (ps, r, e, ks)))) =
     (if r then e else if log_exit es = 0 then e else log_exit es)"
proof (induction es arbitrary: ps r e ks)
  case (Cons x es)
  then show ?case by (cases x) (simp_all add: Let_def)
qed simp


lemma runner_exit: "runner_inv ps k s \<Longrightarrow> l_exit s = log_exit (k_log k)"
  using spec_exit [of "k_log k" "map pr_pid ps" False 0 "[]"]
  by (auto simp: runner_inv_def runner_abs_def dest: sym)

lemma no_valid_pid: "\<not> list_ex validPid (l_procs s) \<longleftrightarrow> live_pids s = []"
  by (simp add: live_pids_def list_ex_iff filter_empty_conv)

lemma kern_env_alive: "kern_env own k k1 \<Longrightarrow> k_alive k1 \<subseteq> k_alive k"
  by (induction rule: kern_env.induct) auto

lemma kern_waits_alive: "kern_waits own k ws k2 \<Longrightarrow> k_alive k2 \<subseteq> k_alive k"
  by (induction rule: kern_waits.induct) (auto dest: kern_env_alive)

lemma kern_signals_alive: "kern_signals own k rs k2 \<Longrightarrow> k_alive k2 \<subseteq> k_alive k"
  by (induction rule: kern_signals.induct) (auto dest!: kern_env_alive kern_waits_alive)

text \<open>The kernel always has an answer: there are sequences for the reaping loop and for the signal descriptor.\<close>

lemma kern_waits_exists: "finite (k_zombies k) \<Longrightarrow> \<exists>ws k2. kern_waits own k ws k2 \<and> k_pending k2 = k_pending k"
proof (induction "card (k_zombies k)" arbitrary: k)
  case 0
  then show ?case using waits_none [of k own] waits_no_child [of k own] by (cases "k_alive k = {}") auto
next
  case (Suc n)
  then have "k_zombies k \<noteq> {}" by auto
  then obtain p st where z: "(p, st) \<in> k_zombies k" by fast
  define k1 where "k1 = k\<lparr>k_zombies := k_zombies k - {(p, st)}, k_log := k_log k @ [TookEnd p st]\<rparr>"
  have "n = card (k_zombies k1)" "finite (k_zombies k1)" using Suc.hyps(2) Suc.prems z by (simp_all add: k1_def)
  then obtain ws k2 where "kern_waits own k1 ws k2" "k_pending k2 = k_pending k1" using Suc.hyps(1) by blast
  then show ?case using waits_reap [OF z, of own ws k2] by (auto simp: k1_def)
qed

lemma kern_env_pending:
  "kern_env own k k1 \<Longrightarrow> k_pending k \<subseteq> {SIGINT, SIGTERM, SIGQUIT, SIGCHLD} \<Longrightarrow>
     k_pending k1 \<subseteq> {SIGINT, SIGTERM, SIGQUIT, SIGCHLD}"
  by (induction rule: kern_env.induct) auto

lemma kern_signals_exists:
  assumes "k_pending k \<subseteq> {SIGINT, SIGTERM, SIGQUIT, SIGCHLD}" "runner_inv ps k s"
  shows "\<exists>rs k2. kern_signals (map pr_pid ps) k rs k2"
  using assms
proof (induction "card (k_pending k)" arbitrary: k s)
  case 0
  then have "k_pending k = {}" by (metis card_eq_0_iff finite.emptyI finite_insert finite_subset)
  then show ?case using signals_none by blast
next
  case (Suc n)
  then have "k_pending k \<noteq> {}" by auto
  then obtain sig where sig: "sig \<in> k_pending k" by blast
  have fin: "finite (k_pending k)" using Suc.prems(1) finite_subset by fastforce
  show ?case
  proof (cases "sig = SIGCHLD")
    case True
    define k0 where "k0 = k\<lparr>k_pending := k_pending k - {SIGCHLD}\<rparr>"
    have inv0: "runner_inv ps k0 s" using Suc.prems(2) by (simp add: runner_inv_def k0_def)
    have "finite (fst ` k_zombies k0)" "inj_on fst (k_zombies k0)"
      using inv0 unfolding runner_inv_def by (metis List.finite_set finite_Un, blast)
    then obtain ws k1 where w: "kern_waits (map pr_pid ps) k0 ws k1" "k_pending k1 = k_pending k0"
      using kern_waits_exists finite_imageD by blast
    obtain s1 where "runner_inv ps k1 s1" using runner_inv_waits [OF w(1) inv0] by blast
    moreover have "n = card (k_pending k1)" "k_pending k1 \<subseteq> {SIGINT, SIGTERM, SIGQUIT, SIGCHLD}"
      using Suc.hyps(2) Suc.prems(1) sig fin True w(2) by (auto simp: k0_def)
    ultimately obtain rs k2 where "kern_signals (map pr_pid ps) k1 rs k2" using Suc.hyps(1) by blast
    then show ?thesis using signals_child sig True w(1) unfolding k0_def by blast
  next
    case False
    define k1 where "k1 = k\<lparr>k_pending := k_pending k - {sig}, k_log := k_log k @ [TookSignal sig]\<rparr>"
    have "runner_inv ps k1 (forward_signal sig s)"
      using Suc.prems(2) by (simp add: runner_inv_def forward_signal_spec forwarded_def live_pids_def k1_def)
    moreover have "n = card (k_pending k1)" "k_pending k1 \<subseteq> {SIGINT, SIGTERM, SIGQUIT, SIGCHLD}"
      using Suc.hyps(2) Suc.prems(1) sig fin by (auto simp: k1_def)
    ultimately obtain rs k2 where "kern_signals (map pr_pid ps) k1 rs k2" using Suc.hyps(1) by blast
    then show ?thesis using signals_take [OF sig] Suc.prems(1) sig False unfolding k1_def by blast
  qed
qed


lemma kern_waits_pending:
  "kern_waits own k ws k2 \<Longrightarrow> k_pending k \<subseteq> {SIGINT, SIGTERM, SIGQUIT, SIGCHLD} \<Longrightarrow>
     k_pending k2 \<subseteq> {SIGINT, SIGTERM, SIGQUIT, SIGCHLD}"
  by (induction rule: kern_waits.induct) (use kern_env_pending in auto)

lemma kern_signals_pending:
  "kern_signals own k rs k2 \<Longrightarrow> k_pending k2 = {}"
  by (induction rule: kern_signals.induct) auto

lemma kern_pipe_pending:
  "kern_pipe own i k rs k2 \<Longrightarrow> k_pending k \<subseteq> {SIGINT, SIGTERM, SIGQUIT, SIGCHLD} \<Longrightarrow>
     k_pending k2 \<subseteq> {SIGINT, SIGTERM, SIGQUIT, SIGCHLD}"
  by (induction rule: kern_pipe.induct) (use kern_env_pending in auto)

lemma runner_reach_pending: "runner_reach ps k s \<Longrightarrow> k_pending k \<subseteq> {SIGINT, SIGTERM, SIGQUIT, SIGCHLD}"
  by (induction rule: runner_reach.induct)
    (use kern_env_pending kern_signals_pending kern_pipe_pending in \<open>simp_all add: kern_start_def\<close>)

text \<open>With no child alive the pipes only get emptier.\<close>

lemma kern_pipe_quiet:
  assumes "kern_pipe own i k rs k2" "k_alive k = {}"
  shows "k_alive k2 = {} \<and> k_written k2 = k_written k \<and> k_pipe k2 i = [] \<and> (\<forall>j. j \<noteq> i \<longrightarrow> k_pipe k2 j = k_pipe k j)"
  using assms
proof (induction rule: kern_pipe.induct)
  case (pipe_env k k1 rs k2)
  then show ?case by (cases rule: kern_env.cases) auto
qed auto

lemma drain_pipes_inv:
  assumes "kern_pipes (map pr_pid ps) is k rss k2" "runner_inv ps k s" "started_ok ps" "set is \<subseteq> {..<length ps}" "k_alive k = {}"
  shows "\<exists>s2. drain_pipes is rss s = Some (s2, Inr ()) \<and> runner_inv ps k2 s2 \<and> runner_abs s2 = runner_abs s \<and>
    k_written k2 = k_written k \<and> (\<forall>j. k_pipe k2 j = (if j \<in> set is then [] else k_pipe k j))"
  using assms
proof (induction arbitrary: s rule: kern_pipes.induct)
  case (pipes_cons i k rs k1 "is" rss k2)
  have i: "i < length ps" "set is \<subseteq> {..<length ps}" using pipes_cons.prems(3) by auto
  obtain s1 where s1: "read_pipe i rs s = Some (s1, Inr ())" "runner_inv ps k1 s1" "runner_abs s1 = runner_abs s"
    using runner_inv_pipe [OF pipes_cons.hyps(1) pipes_cons.prems(1,2) i(1)] by blast
  note q = kern_pipe_quiet [OF pipes_cons.hyps(1) pipes_cons.prems(4)]
  obtain s2 where "drain_pipes is rss s1 = Some (s2, Inr ())" "runner_inv ps k2 s2" "runner_abs s2 = runner_abs s1"
      "k_written k2 = k_written k1" "\<forall>j. k_pipe k2 j = (if j \<in> set is then [] else k_pipe k1 j)"
    using pipes_cons.IH [OF s1(2) pipes_cons.prems(2) i(2)] q by blast
  then show ?case using s1 q by auto
qed auto

lemma handle_events_reach:
  assumes "kern_events ps sfd k evs k2" "runner_reach ps k s" "started_ok ps" "sfd \<notin> set (map read_fd ps)"
  shows "\<exists>s2. runner_handle_events sfd evs s = Some (s2, Inr ()) \<and> runner_reach ps k2 s2"
  using assms
proof (induction arbitrary: s rule: kern_events.induct)
  case (events_env k k1 evs k2)
  then show ?case using reach_env by blast
next
  case (events_signal k rs k1 evs k2)
  obtain s1 where "runner_read_signal rs s = Some s1"
    using runner_inv_signals [OF events_signal.hyps(1)] runner_reach_inv [OF events_signal.prems(1,2)] by blast
  then show ?case
    using events_signal.IH [OF reach_signal [OF events_signal.prems(1) events_signal.hyps(1)]] events_signal.prems(2,3) by simp
next
  case (events_pipe i k rs k1 evs k2)
  have inv1: "runner_inv ps k s" using runner_reach_inv [OF events_pipe.prems(1,2)] by blast
  obtain s1 where s1: "read_pipe i rs s = Some (s1, Inr ())"
    using runner_inv_pipe [OF events_pipe.hyps(2) inv1 events_pipe.prems(2) events_pipe.hyps(1)] by blast
  have "map read_fd (l_procs s) = map read_fd ps" using inv1 unfolding runner_inv_def by blast
  moreover have "find_idx (read_fd (ps ! i)) (map read_fd ps) = Some i"
    using events_pipe.prems(2) events_pipe.hyps(1) find_idx_nth [of "map read_fd ps" i] by (simp add: started_ok_def)
  moreover have "read_fd (ps ! i) \<noteq> sfd" using events_pipe.prems(3) events_pipe.hyps(1) by auto
  ultimately show ?case
    using s1 events_pipe.IH [OF reach_pipe [OF events_pipe.prems(1) events_pipe.hyps(1,2) s1] events_pipe.prems(2,3)] by simp
qed auto


lemma epoll_loop_reach:
  assumes "kern_epolls ps sfd k rs" "runner_reach ps k s" "started_ok ps" "sfd \<notin> set (map read_fd ps)"
    "runner_epoll_loop sfd rs s = Some (s2, r)"
  shows "r = Inr () \<and> live_pids s2 = [] \<and> (\<exists>k2. runner_reach ps k2 s2)"
  using assms
proof (induction arbitrary: s rule: kern_epolls.induct)
  case (epolls_nil k)
  then show ?case by (auto simp: runner_epoll_loop.simps [of sfd "[]"] no_valid_pid split: if_splits)
next
  case (epolls_ready k evs k1 rs)
  obtain s1 where s1: "runner_handle_events sfd evs s = Some (s1, Inr ())" "runner_reach ps k1 s1"
    using handle_events_reach [OF epolls_ready.hyps(1) epolls_ready.prems(1-3)] by blast
  then show ?case
    using epolls_ready.IH [OF s1(2) epolls_ready.prems(2,3)] epolls_ready.prems
    by (auto simp: runner_epoll_loop.simps [of sfd "_ # _"] no_valid_pid split: if_splits)
next
  case (epolls_interrupted k rs)
  then show ?case by (auto simp: runner_epoll_loop.simps [of sfd "_ # _"] no_valid_pid split: if_splits)
qed

lemma read_pipe_exit: "read_pipe i rs s = Some (s2, r) \<Longrightarrow> l_exit s2 = l_exit s"
proof (induction rs arbitrary: s)
  case Nil
  then show ?case by (simp add: read_pipe.simps [of i "[]"] split: if_splits)
next
  case (Cons x rs)
  show ?case
  proof (cases "read_fd (l_procs s ! i) < 0")
    case True
    then show ?thesis using Cons.prems by (simp add: read_pipe.simps [of i "x # rs"])
  next
    case False
    then show ?thesis
      using Cons.prems
      by (cases x) (auto simp: read_pipe.simps [of i "_ # rs"] dest!: Cons.IH split: if_splits sum.splits)
  qed
qed

lemma drain_pipes_exit: "drain_pipes is rss s = Some (s2, r) \<Longrightarrow> l_exit s2 = l_exit s"
proof (induction "is" arbitrary: rss s)
  case (Cons i "is")
  then obtain rs rss' where rss: "rss = rs # rss'" by (cases rss) auto
  show ?case
  proof (cases "read_pipe i rs s")
    case None
    then show ?thesis using Cons.prems by (simp add: rss)
  next
    case (Some a)
    obtain s1 r1 where a: "a = (s1, r1)" by (cases a)
    have "l_exit s1 = l_exit s" using read_pipe_exit Some a by blast
    then show ?thesis using Cons.prems Cons.IH [of rss' s1] by (cases r1) (simp_all add: rss Some a)
  qed
qed simp

text \<open>The runner starts the copies in order, and each child gets the command, the environment with its two variables, and the
  write end of its own pipe.\<close>

lemma start_loop_parent:
  "(\<And>i. idx \<le> i \<Longrightarrow> i < idx + length tgt \<Longrightarrow> 0 < fork i) \<Longrightarrow>
     start_loop argv env fork dup_ok exec idx done tgt =
       Inr (Started (done @ map2 (\<lambda>i p. p\<lparr>pr_pid := fork i\<rparr>) [idx..<idx + length tgt] tgt))"
proof (induction tgt arbitrary: idx "done")
  case (Cons p tgt)
  have "0 < fork idx" using Cons.prems [of idx] by simp
  moreover have "[idx..<idx + length (p # tgt)] = idx # [Suc idx..<Suc idx + length tgt]"
    by (subst upt_conv_Cons) simp_all
  moreover have "start_loop argv env fork dup_ok exec (Suc idx) (done @ [p\<lparr>pr_pid := fork idx\<rparr>]) tgt =
      Inr (Started ((done @ [p\<lparr>pr_pid := fork idx\<rparr>]) @ map2 (\<lambda>i p. p\<lparr>pr_pid := fork i\<rparr>) [Suc idx..<Suc idx + length tgt] tgt))"
    by (rule Cons.IH) (use Cons.prems in auto)
  ultimately show ?case by (simp add: Let_def)
qed simp

lemma start_loop_child:
  "c < length tgt \<Longrightarrow> (\<And>i. i < c \<Longrightarrow> 0 < fork (idx + i)) \<Longrightarrow> fork (idx + c) = 0 \<Longrightarrow>
     start_loop argv env fork True None idx done tgt =
       Inr (Replaced \<lparr>ex_path = argv ! 0, ex_args = argv, ex_env = env @ [env_var_idx (idx + c)], ex_stdout = write_fd (tgt ! c)\<rparr>)"
proof (induction tgt arbitrary: idx c "done")
  case (Cons p tgt)
  show ?case
  proof (cases c)
    case 0
    then show ?thesis using Cons.prems by simp
  next
    case (Suc c')
    have "0 < fork idx" using Cons.prems(2) [of 0] Suc by simp
    moreover have "0 < fork (Suc idx + i)" if "i < c'" for i using Cons.prems(2) [of "Suc i"] Suc that by simp
    ultimately show ?thesis using Cons.IH [of c' "Suc idx"] Cons.prems Suc by (simp add: Let_def)
  qed
qed simp


lemma start_processes_parent:
  assumes "\<forall>i < length tgt. 0 < fork i"
  shows "start_processes argv envv fork dup_ok exec tgt =
    Inr (Started (map2 (\<lambda>i p. p\<lparr>pr_pid := fork i\<rparr>) [0..<length tgt] tgt))"
  using assms start_loop_parent [of 0 tgt fork] by (simp add: start_processes_def)

lemma start_processes_child:
  assumes "c < length tgt" "\<forall>i < c. 0 < fork i" "fork c = 0"
  shows "start_processes argv envv fork True None tgt =
    Inr (Replaced \<lparr>ex_path = argv ! 0, ex_args = argv,
      ex_env = envv @ [env_var_big (length tgt), env_var_idx c], ex_stdout = write_fd (tgt ! c)\<rparr>)"
  using assms start_loop_child [of c tgt fork 0] by (simp add: start_processes_def)

text \<open>Moving a process leaves its number behind: \<^verbatim>\<open>swap\<close> exchanges the descriptors only.\<close>

lemma process_move_forgets_pid:
  "pr_pid (fst (process_move p)) = 0" "pr_pid (snd (process_move p)) = pr_pid p" "read_fd (fst (process_move p)) = read_fd p"
  by (simp_all add: process_move_def process_swap_def process_none_def)

text \<open>Every descriptor a process owns is closed once, also when it takes over the descriptors of another.\<close>

lemma process_reset_closes:
  "snd (process_reset p) = filter (\<lambda>fd. 0 \<le> fd) [read_fd p, write_fd p]"
  "\<not> 0 \<le> read_fd (fst (process_reset p))" "\<not> 0 \<le> write_fd (fst (process_reset p))"
  by (simp_all add: process_reset_def)

lemma process_assign_closes:
  "snd (process_assign p q) = filter (\<lambda>fd. 0 \<le> fd) [read_fd p, write_fd p] \<and>
   read_fd (fst (fst (process_assign p q))) = read_fd q \<and> write_fd (fst (fst (process_assign p q))) = write_fd q \<and>
   \<not> 0 \<le> read_fd (snd (fst (process_assign p q))) \<and> \<not> 0 \<le> write_fd (snd (fst (process_assign p q)))"
  using process_reset_closes [of p]
  by (cases "process_reset p") (auto simp: process_assign_def process_swap_def)

section \<open>Properties\<close>

text \<open>A run with one copy, number 100: it writes, fails with code 3, and the runner reaps it.\<close>

definition demo_ps :: "process list" where
  "demo_ps = [\<lparr>pr_pid = 100, read_fd = 3, write_fd = 4\<rparr>]"

definition demo_written :: kern where
  "demo_written = (let k = kern_start [100] in k\<lparr>k_pipe := (k_pipe k)(0 := k_pipe k 0 @ ''hi''), k_written := (k_written k)(0 := k_written k 0 @ ''hi'')\<rparr>)"

definition demo_ended :: kern where
  "demo_ended = (let k = demo_written in
     k\<lparr>k_alive := k_alive k - {100}, k_zombies := insert (100, Exited 3) (k_zombies k), k_pending := insert SIGCHLD (k_pending k)\<rparr>)"

definition demo_reaped :: kern where
  "demo_reaped = (let k = demo_ended\<lparr>k_pending := k_pending demo_ended - {SIGCHLD}\<rparr> in
     k\<lparr>k_zombies := k_zombies k - {(100, Exited 3)}, k_log := k_log k @ [TookEnd 100 (Exited 3)]\<rparr>)"

definition demo_reads :: "signal_read list" where
  "demo_reads = [SigInfo SIGCHLD [Reaped 100 (Exited 3), WaitError ECHILD], SigNone]"

definition demo_state :: runner where
  "demo_state = child_ended 100 (Exited 3) (runner_start demo_ps)"

definition demo_drained :: kern where
  "demo_drained = demo_reaped\<lparr>k_pipe := (k_pipe demo_reaped)(0 := [])\<rparr>"

definition demo_calls :: runner_linux_calls where
  "demo_calls =
     \<lparr>lc_sigprocmask = 0, lc_signalfd = 7, lc_pipes = (\<lambda>_. Some (3, 4)), lc_fork = (\<lambda>_. 100), lc_dup_ok = True, lc_exec = None,
      lc_epoll_create = 8, lc_epoll_add = (\<lambda>_. 0),
      lc_epoll = [Ready [\<lparr>ev_fd = 7, ev_signals = demo_reads, ev_pipe = []\<rparr>]],
      lc_drain = [[PipeData ''hi'', PipeError EAGAIN]]\<rparr>"

lemmas demo_simps = demo_ps_def demo_written_def demo_ended_def demo_reaped_def demo_reads_def demo_state_def kern_start_def Let_def

lemma demo_started: "started_ok demo_ps" "map pr_pid demo_ps = [100]"
  by (simp_all add: started_ok_def demo_ps_def)

lemma demo_env: "kern_env [100] (kern_start [100]) demo_written" "kern_env [100] demo_written demo_ended"
proof -
  show "kern_env [100] (kern_start [100]) demo_written"
    unfolding demo_written_def Let_def by (rule child_writes) (simp_all add: kern_start_def)
  show "kern_env [100] demo_written demo_ended"
    unfolding demo_ended_def Let_def by (rule child_ends) (simp add: demo_written_def kern_start_def Let_def)
qed

lemma demo_signals: "kern_signals [100] demo_ended demo_reads demo_reaped"
proof -
  have "kern_waits [100] demo_reaped [WaitError ECHILD] demo_reaped"
    by (rule waits_no_child) (simp_all add: demo_simps)
  then have "kern_waits [100] (demo_ended\<lparr>k_pending := k_pending demo_ended - {SIGCHLD}\<rparr>)
      [Reaped 100 (Exited 3), WaitError ECHILD] demo_reaped"
    by (intro waits_reap) (simp_all add: demo_simps)
  moreover have "kern_signals [100] demo_reaped [SigNone] demo_reaped"
    by (rule signals_none) (simp add: demo_simps)
  moreover have "SIGCHLD \<in> k_pending demo_ended" by (simp add: demo_simps)
  ultimately show ?thesis unfolding demo_reads_def by (intro signals_child)
qed

lemma demo_reach:
  "runner_reach demo_ps demo_ended (runner_start demo_ps)" "runner_reach demo_ps demo_reaped demo_state"
proof -
  have "runner_reach demo_ps (kern_start [100]) (runner_start demo_ps)" using reach_start [of demo_ps] demo_started by simp
  then show r: "runner_reach demo_ps demo_ended (runner_start demo_ps)" using reach_env demo_env demo_started(2) by metis
  have "runner_read_signal demo_reads (runner_start demo_ps) = Some demo_state" by (simp add: demo_reads_def demo_state_def)
  then show "runner_reach demo_ps demo_reaped demo_state" using reach_signal [OF r] demo_signals demo_started(2) by simp
qed


text \<open>C5. However the children, the signals and the runner interleave, the runner has done with the signals and ends it has
  taken exactly what the specification says (which copies are waited for, which signals were sent to which of them, the exit code),
  the exit code is that of the first copy that failed if no signal came before, and the copies it waits for, and sends signals to, are
  those that the kernel still knows: no signal goes to a process number that may have been given away.\<close>

theorem linux_runner_refines:
  assumes "started_ok ps" "runner_reach ps k s"
  shows "runner_abs s = fold spec_step (k_log k) (map pr_pid ps, False, 0, []) \<and>
    l_exit s = log_exit (k_log k) \<and>
    set (live_pids s) = k_alive k \<union> fst ` k_zombies k"
proof -
  have "runner_inv ps k s" using runner_reach_inv [OF assms(2,1)] by blast
  then show ?thesis using runner_exit unfolding runner_inv_def by blast
qed

theorem linux_runner_refines_witness:
  "runner_reach demo_ps demo_reaped demo_state \<and> l_exit demo_state = 3 \<and> live_pids demo_state = []"
  using linux_runner_refines [OF demo_started(1) demo_reach(2)] demo_reach(2) by (simp add: demo_simps)

text \<open>C6. No end of a copy is missed although pending \<^verbatim>\<open>SIGCHLD\<close>s are merged: when all copies have ended and the
  loop still waits for one, the signal descriptor is readable, the kernel has reads to offer, and after any reads that it may give the
  handler has returned and the loop ends.\<close>

theorem linux_runner_ends:
  assumes "started_ok ps" "runner_reach ps k s" "k_alive k = {}" "list_ex validPid (l_procs s)"
  shows "SIGCHLD \<in> k_pending k \<and> (\<exists>rs k2. kern_signals (map pr_pid ps) k rs k2) \<and>
    (\<forall>rs k2. kern_signals (map pr_pid ps) k rs k2 \<longrightarrow>
       (\<exists>s2. runner_read_signal rs s = Some s2 \<and> \<not> list_ex validPid (l_procs s2) \<and> l_exit s2 = log_exit (k_log k2)))"
proof (intro conjI allI impI)
  note inv1 = runner_reach_inv [OF assms(2,1)]
  have "live_pids s \<noteq> []" using assms(4) no_valid_pid by blast
  then have "k_zombies k \<noteq> {}" using inv1 assms(3) unfolding runner_inv_def by force
  then show "SIGCHLD \<in> k_pending k" using inv1 unfolding sigchld_set_def by blast
  show "\<exists>rs k2. kern_signals (map pr_pid ps) k rs k2"
    using kern_signals_exists runner_reach_pending [OF assms(2)] inv1 by blast
  fix rs k2
  assume sg: "kern_signals (map pr_pid ps) k rs k2"
  then obtain s2 where s2: "runner_read_signal rs s = Some s2" "runner_inv ps k2 s2" "sigchld_set k2" "k_pending k2 = {}"
    using runner_inv_signals inv1 by blast
  have "k_alive k2 = {}" "k_zombies k2 = {}"
    using kern_signals_alive [OF sg] assms(3) s2(3,4) by (auto simp: sigchld_set_def)
  then have "live_pids s2 = []" using s2(2) unfolding runner_inv_def by simp
  then show "\<exists>s2. runner_read_signal rs s = Some s2 \<and> \<not> list_ex validPid (l_procs s2) \<and> l_exit s2 = log_exit (k_log k2)"
    using s2 runner_exit no_valid_pid by blast
qed

theorem linux_runner_ends_witness:
  "kern_signals [100] demo_ended demo_reads demo_reaped \<and>
   (\<exists>s2. runner_read_signal demo_reads (runner_start demo_ps) = Some s2 \<and> \<not> list_ex validPid (l_procs s2) \<and> l_exit s2 = 3)"
proof -
  have "k_alive demo_ended = {}" "list_ex validPid (l_procs (runner_start demo_ps))"
    by (simp_all add: demo_simps runner_start_def validPid_def)
  from linux_runner_ends [OF demo_started(1) demo_reach(1) this] demo_signals
  have "\<exists>s2. runner_read_signal demo_reads (runner_start demo_ps) = Some s2 \<and> \<not> list_ex validPid (l_procs s2) \<and>
      l_exit s2 = log_exit (k_log demo_reaped)"
    by (simp add: demo_started(2))
  then show ?thesis using demo_signals by (simp add: demo_simps)
qed

text \<open>C17. Nothing a copy writes is lost: once the loop has ended, the last reads of the pipes succeed, and then for every copy what
  was forwarded is all that it ever wrote, in order; the exit code stays.\<close>

theorem linux_output_complete:
  assumes "started_ok ps" "runner_reach ps k s" "\<not> list_ex validPid (l_procs s)"
    "kern_pipes (map pr_pid ps) [0..<length ps] k rss k2"
  shows "\<exists>s2. drain_pipes [0..<length (l_procs s)] rss s = Some (s2, Inr ()) \<and> l_exit s2 = l_exit s \<and>
    (\<forall>i < length ps. forwarded i s2 = k_written k i)"
proof -
  have inv1: "runner_inv ps k s" using runner_reach_inv [OF assms(2,1)] by blast
  have "k_alive k = {}" using inv1 assms(3) unfolding runner_inv_def no_valid_pid by simp
  then obtain s2 where s2: "drain_pipes [0..<length ps] rss s = Some (s2, Inr ())" "runner_inv ps k2 s2"
      "runner_abs s2 = runner_abs s" "k_written k2 = k_written k"
      "\<forall>j. k_pipe k2 j = (if j \<in> set [0..<length ps] then [] else k_pipe k j)"
    using drain_pipes_inv [OF assms(4) inv1 assms(1)] by fastforce
  have "forwarded i s2 = k_written k i" if "i < length ps" for i
    using s2(2,4,5) that unfolding runner_inv_def by (metis append_Nil2 atLeastLessThan_iff set_upt zero_le)
  then show ?thesis using s2 runner_inv_procs(1) [OF inv1 assms(1)] by (auto simp: runner_abs_def)
qed

theorem linux_output_complete_witness:
  "\<exists>s2. drain_pipes [0] [[PipeData ''hi'', PipeError EAGAIN]] demo_state = Some (s2, Inr ()) \<and> forwarded 0 s2 = ''hi''"
proof -
  have "kern_pipe [100] 0 demo_drained [PipeError EAGAIN] demo_drained"
    by (rule pipe_empty) (simp add: demo_drained_def)
  then have "kern_pipe [100] 0 demo_reaped [PipeData ''hi'', PipeError EAGAIN] demo_drained"
    unfolding demo_drained_def by (intro pipe_data [where rest = "[]"]) (simp_all add: demo_simps)
  then have "kern_pipes (map pr_pid demo_ps) [0..<length demo_ps] demo_reaped [[PipeData ''hi'', PipeError EAGAIN]] demo_drained"
    using pipes_cons pipes_nil demo_started(2) by (simp add: demo_ps_def)
  moreover have "\<not> list_ex validPid (l_procs demo_state)" "length (l_procs demo_state) = 1"
    by (simp_all add: demo_simps runner_start_def child_ended_def kill_all_def validPid_def)
  ultimately show ?thesis
    using linux_output_complete [OF demo_started(1) demo_reach(2)] by (fastforce simp: demo_simps)
qed




end
