(* ===== verification/RunnerMac.thy ===== *)
theory RunnerMac
  imports MultiRunner
begin

text \<open>
  \<^verbatim>\<open>bin/main_macos.cpp\<close>: the runner starts the copies and waits with a kqueue for their ends. What the system calls return is given
  as in the theory of the Linux version. Signals are not relayed and the output of the copies is not piped.
\<close>

section \<open>Definitions\<close>

subsection \<open>start_processes\<close>

text \<open>The variant the function returns: the process numbers, or in a child what \<^verbatim>\<open>execve\<close> returned; a call that succeeds does not
  return.\<close>

datatype mac_started = MacPids "int list" | MacReplaced exec_image | MacReturned int

fun mac_start_loop ::
    "string list \<Rightarrow> string list \<Rightarrow> (nat \<Rightarrow> int) \<Rightarrow> bool \<Rightarrow> nat \<Rightarrow> nat \<Rightarrow> int list \<Rightarrow> mac_started result" where
  "mac_start_loop argv envvars fork exec_ok 0 idx pids = Inr (MacPids pids)"
| "mac_start_loop argv envvars fork exec_ok (Suc left) idx pids =
     (let pid = fork idx in
      throw_if (pid < 0) (RuntimeError ''::fork failed'')
        (if pid = 0
         then Inr (if exec_ok
                   then MacReplaced \<lparr>ex_path = argv ! 0, ex_args = argv, ex_env = envvars @ [env_var_idx idx]\<rparr>
                   else MacReturned (- 1))
         else mac_start_loop argv envvars fork exec_ok left (Suc idx) (pids @ [pid])))"

definition mac_start_processes ::
    "string list \<Rightarrow> string list \<Rightarrow> (nat \<Rightarrow> int) \<Rightarrow> bool \<Rightarrow> nat \<Rightarrow> mac_started result" where
  "mac_start_processes argv envv fork exec_ok threads =
     mac_start_loop argv (envv @ [env_var_big threads]) fork exec_ok threads 0 []"

subsection \<open>main\<close>

record mac_runner =
  m_pids :: "int list"
  m_raised :: bool
  m_exit :: int
  m_kills :: "(int \<times> int) list"

definition mac_start :: "int list \<Rightarrow> mac_runner" where
  "mac_start pids = \<lparr>m_pids = pids, m_raised = False, m_exit = 0, m_kills = []\<rparr>"

text \<open>The end of the body of the loop, for a child that was found among the processes and waited for.\<close>

definition mac_child_ended :: "int \<Rightarrow> wait_status \<Rightarrow> mac_runner \<Rightarrow> mac_runner" where
  "mac_child_ended pid status s =
     (let s = s\<lparr>m_pids := remove1 pid (m_pids s)\<rparr>; code = status_code status in
      if code \<noteq> 0 \<and> \<not> m_raised s
      then s\<lparr>m_exit := code, m_kills := m_kills s @ map (\<lambda>p. (p, SIGTERM)) (m_pids s), m_raised := True\<rparr>
      else s)"

text \<open>An event: whether its filter is \<^verbatim>\<open>EVFILT_PROC\<close>, whether \<^verbatim>\<open>NOTE_EXIT\<close> is among its flags, its process, and what \<^verbatim>\<open>waitpid\<close> gives for the
  process: the value returned and the status.\<close>

record kevent =
  ke_proc :: bool
  ke_note_exit :: bool
  ke_ident :: int
  ke_wait :: "int \<times> wait_status"

definition mac_event :: "kevent \<Rightarrow> mac_runner \<Rightarrow> mac_runner" where
  "mac_event e s =
     (if \<not> ke_proc e \<or> \<not> ke_note_exit e then s
      else if ke_ident e \<notin> set (m_pids s) then s
      else if fst (ke_wait e) \<noteq> ke_ident e then s
      else mac_child_ended (ke_ident e) (snd (ke_wait e)) s)"

fun mac_events :: "kevent list \<Rightarrow> mac_runner \<Rightarrow> mac_runner" where
  "mac_events [] s = s"
| "mac_events (e # es) s = (if m_pids s = [] then s else mac_events es (mac_event e s))"

datatype kevent_result = Events "kevent list" | KeventError int

fun kevent_loop :: "kevent_result list \<Rightarrow> mac_runner \<Rightarrow> (mac_runner \<times> unit result) option" where
  "kevent_loop rs s =
     (if m_pids s = [] then Some (s, Inr ())
      else case rs of
        [] \<Rightarrow> None
      | KeventError errno # rs \<Rightarrow>
          (if errno = EINTR then kevent_loop rs s else Some (s, Inl (RuntimeError ''kevent error n = '')))
      | Events es # rs \<Rightarrow> kevent_loop rs (mac_events es s))"

declare kevent_loop.simps [simp del]

record mac_calls =
  mc_kqueue :: int
  mc_fcntl :: int
  mc_fork :: "nat \<Rightarrow> int"
  mc_exec_ok :: bool
  mc_register :: int
  mc_kevent :: "kevent_result list"

datatype mac_end = MacPrintedVersion | MacBecameChild exec_image | MacMainReturned int | MacMainThrew exn

definition main_macos :: "mac_calls \<Rightarrow> string list \<Rightarrow> string list \<Rightarrow> mac_end option" where
  "main_macos mc argv envv =
     (case runner_args argv of
        Inl e \<Rightarrow> Some (MacMainThrew e)
      | Inr ShowVersion \<Rightarrow> Some MacPrintedVersion
      | Inr (RunCopies threads cmd) \<Rightarrow>
          if mc_kqueue mc < 0 then Some (MacMainThrew (RuntimeError ''kqueue failed''))
          else if mc_fcntl mc < 0 then Some (MacMainThrew (RuntimeError ''fcntl FD_CLOEXEC failed''))
          else case mac_start_processes cmd envv (mc_fork mc) (mc_exec_ok mc) threads of
            Inl e \<Rightarrow> Some (MacMainThrew e)
          | Inr (MacReplaced img) \<Rightarrow> Some (MacBecameChild img)
          | Inr (MacReturned code) \<Rightarrow> Some (MacMainReturned code)
          | Inr (MacPids pids) \<Rightarrow>
              if mc_register mc < 0 then Some (MacMainThrew (RuntimeError ''kevent registration failed''))
              else case kevent_loop (mc_kevent mc) (mac_start pids) of
                None \<Rightarrow> None
              | Some (s, Inl e) \<Rightarrow> Some (MacMainThrew e)
              | Some (s, Inr _) \<Rightarrow> Some (MacMainReturned (m_exit s)))"

section \<open>The supervisor\<close>

interpretation mac: supervisor
  "\<lambda>s. distinct (m_pids s)" m_pids m_raised m_exit m_kills "\<lambda>s p. (p, SIGTERM)" status_code mac_child_ended
  by unfold_locales (auto simp: mac_child_ended_def Let_def)

text \<open>The event that reports the end of a process, when the wait for it succeeds, and the events of a sequence of results.\<close>

definition exit_event :: "int \<times> wait_status \<Rightarrow> kevent" where
  "exit_event e = \<lparr>ke_proc = True, ke_note_exit = True, ke_ident = fst e, ke_wait = e\<rparr>"

fun events_of :: "kevent_result \<Rightarrow> kevent list" where
  "events_of (Events es) = es"
| "events_of (KeventError errno) = []"

text \<open>A call that fails is an interrupted one.\<close>

fun kevent_ok :: "kevent_result \<Rightarrow> bool" where
  "kevent_ok (Events es) = True"
| "kevent_ok (KeventError errno) = (errno = EINTR)"

lemma mac_event_exit: "p \<in> set (m_pids s) \<Longrightarrow> mac_event (exit_event (p, st)) s = mac_child_ended p st s"
  by (simp add: mac_event_def exit_event_def)

lemma mac_child_ended_pids [simp]: "m_pids (mac_child_ended p st s) = remove1 p (m_pids s)"
  by (simp add: mac_child_ended_def Let_def)

lemma mac_events_done: "m_pids s = [] \<Longrightarrow> mac_events es s = s"
  by (cases es) simp_all

lemma mac_events_supervise:
  assumes "distinct (m_pids s)" "distinct (map fst es)" "set (map fst es) \<subseteq> set (m_pids s)"
  shows "mac_events (map exit_event es) s = supervise mac_child_ended es s"
  using assms
proof (induction es arbitrary: s)
  case (Cons e es)
  obtain p st where e: "e = (p, st)" by (cases e)
  have p: "p \<in> set (m_pids s)" using Cons.prems e by simp
  have "set (map fst es) \<subseteq> set (m_pids (mac_child_ended p st s))" using Cons.prems e by auto
  then have "mac_events (map exit_event es) (mac_child_ended p st s) = supervise mac_child_ended es (mac_child_ended p st s)"
    using Cons.prems(1,2) by (intro Cons.IH) auto
  then show ?case using p by (auto simp: e mac_event_exit)
qed simp

lemma mac_events_append: "mac_events (xs @ ys) s = mac_events ys (mac_events xs s)"
  by (induction xs arbitrary: s) (auto simp: mac_events_done)

text \<open>How the events are spread over the calls makes no difference.\<close>

lemma kevent_loop_concat:
  assumes "list_all kevent_ok rs" "m_pids (mac_events (concat (map events_of rs)) s) = []"
  shows "kevent_loop rs s = Some (mac_events (concat (map events_of rs)) s, Inr ())"
  using assms
proof (induction rs arbitrary: s)
  case (Cons r rs)
  show ?case
  proof (cases "m_pids s = []")
    case True
    then show ?thesis by (simp add: kevent_loop.simps [of "r # rs"] mac_events_done)
  next
    case False
    then show ?thesis
      using Cons.prems Cons.IH by (cases r) (simp_all add: kevent_loop.simps [of "_ # rs"] mac_events_append)
  qed
qed (simp add: kevent_loop.simps)


lemma mac_start_parent:
  "(\<And>i. idx \<le> i \<Longrightarrow> i < idx + n \<Longrightarrow> 0 < fork i) \<Longrightarrow>
     mac_start_loop argv env fork exec_ok n idx pids = Inr (MacPids (pids @ map fork [idx..<idx + n]))"
proof (induction n arbitrary: idx pids)
  case (Suc n)
  have "[idx..<idx + Suc n] = idx # [Suc idx..<Suc idx + n]" by (subst upt_conv_Cons) simp_all
  moreover have "0 < fork idx" using Suc.prems [of idx] by simp
  moreover have "mac_start_loop argv env fork exec_ok n (Suc idx) (pids @ [fork idx]) =
      Inr (MacPids ((pids @ [fork idx]) @ map fork [Suc idx..<Suc idx + n]))"
    by (rule Suc.IH) (use Suc.prems in auto)
  ultimately show ?case by (simp add: Let_def)
qed simp

lemma mac_start_child:
  "c < n \<Longrightarrow> (\<And>i. i < c \<Longrightarrow> 0 < fork (idx + i)) \<Longrightarrow> fork (idx + c) = 0 \<Longrightarrow>
     mac_start_loop argv env fork True n idx pids =
       Inr (MacReplaced \<lparr>ex_path = argv ! 0, ex_args = argv, ex_env = env @ [env_var_idx (idx + c)]\<rparr>)"
proof (induction n arbitrary: idx c pids)
  case (Suc n)
  show ?case
  proof (cases c)
    case 0
    then show ?thesis using Suc.prems by simp
  next
    case (Suc c')
    have "0 < fork idx" using Suc.prems(2) [of 0] Suc by simp
    moreover have "0 < fork (Suc idx + i)" if "i < c'" for i using Suc.prems(2) [of "Suc i"] Suc that by simp
    ultimately show ?thesis using Suc.IH [of c' "Suc idx"] Suc.prems Suc by (simp add: Let_def)
  qed
qed simp

section \<open>Properties\<close>

text \<open>C23. On macOS, in whatever order the copies end and however the events are spread over the calls, the runner returns when all
  have been waited for: it has the code of the first one that failed, and has told exactly the copies that were left then to end.\<close>

theorem mac_runner_returns:
  assumes "distinct pids" "mset (map fst ends) = mset pids" "list_all kevent_ok rs"
    "concat (map events_of rs) = map exit_event ends"
  shows "\<exists>s. kevent_loop rs (mac_start pids) = Some (s, Inr ()) \<and>
    m_exit s = (case first_failure status_code ends of None \<Rightarrow> 0 | Some v \<Rightarrow> v) \<and>
    m_kills s = map (\<lambda>p. (p, SIGTERM)) (told_to_end status_code ends pids)"
proof -
  have d: "distinct (map fst ends)" using assms(1,2) mset_eq_imp_distinct_iff by blast
  have sub: "set (map fst ends) \<subseteq> set (m_pids (mac_start pids))"
    using mset_eq_setD [OF assms(2)] by (simp add: mac_start_def)
  have start: "distinct (m_pids (mac_start pids))" "\<not> m_raised (mac_start pids)"
    "mset (map fst ends) = mset (m_pids (mac_start pids))" using assms(1,2) by (simp_all add: mac_start_def)
  note all = mac.supervise_all [OF start]
  have ev: "mac_events (concat (map events_of rs)) (mac_start pids) = supervise mac_child_ended ends (mac_start pids)"
    unfolding assms(4) by (rule mac_events_supervise [OF start(1) d sub])
  have "kevent_loop rs (mac_start pids) = Some (supervise mac_child_ended ends (mac_start pids), Inr ())"
    using kevent_loop_concat [OF assms(3), of "mac_start pids"] all(1) unfolding ev by blast
  then show ?thesis using all(2,3) by (simp add: mac_start_def split: option.split)
qed

theorem mac_runner_returns_witness:
  "\<exists>s. kevent_loop [Events [exit_event (11, Exited 0)], KeventError EINTR, Events [exit_event (10, Signaled 9), exit_event (12, Exited 1)]]
      (mac_start [10, 11, 12]) = Some (s, Inr ()) \<and> m_exit s = 137 \<and> m_kills s = [(12, SIGTERM)]"
  using mac_runner_returns [of "[10, 11, 12]" "[(11, Exited 0), (10, Signaled 9), (12, Exited 1)]"
    "[Events [exit_event (11, Exited 0)], KeventError EINTR, Events [exit_event (10, Signaled 9), exit_event (12, Exited 1)]]"]
  by simp

text \<open>A \<^verbatim>\<open>waitpid\<close> that does not return the process, an interrupted one for instance, loses its end: the event is reported once, and
  with no other for this process the loop does not return.\<close>

lemma mac_event_keeps:
  assumes "p \<in> set (m_pids s)" "ke_ident e = p \<longrightarrow> fst (ke_wait e) \<noteq> p"
  shows "p \<in> set (m_pids (mac_event e s))"
  using assms by (auto simp: mac_event_def)

lemma mac_events_keep:
  "p \<in> set (m_pids s) \<Longrightarrow> \<forall>e \<in> set es. ke_ident e = p \<longrightarrow> fst (ke_wait e) \<noteq> p \<Longrightarrow> p \<in> set (m_pids (mac_events es s))"
  by (induction es arbitrary: s) (auto intro: mac_event_keeps)

lemma mac_interrupted_wait_hangs:
  assumes "p \<in> set (m_pids s)" "list_all kevent_ok rs"
    "\<forall>e \<in> set (concat (map events_of rs)). ke_ident e = p \<longrightarrow> fst (ke_wait e) \<noteq> p"
  shows "kevent_loop rs s = None"
  using assms
proof (induction rs arbitrary: s)
  case (Cons r rs)
  have "m_pids s \<noteq> []" using Cons.prems(1) by auto
  moreover have "p \<in> set (m_pids (mac_events (events_of r) s))"
    using mac_events_keep [OF Cons.prems(1)] Cons.prems(3) by simp
  ultimately show ?case
    using Cons.prems Cons.IH by (cases r) (auto simp: kevent_loop.simps [of "_ # rs"])
next
  case Nil
  then show ?case by (auto simp: kevent_loop.simps)
qed

end
