(* ===== verification/RunnerWindows.thy ===== *)
theory RunnerWindows
  imports MultiRunner
begin

text \<open>
  \<^verbatim>\<open>bin/main_win32.cpp\<close>: command line and environment block for \<^verbatim>\<open>CreateProcess\<close>, the struct \<^verbatim>\<open>Data\<close> that owns the handles, and the loop
  over \<^verbatim>\<open>WaitForMultipleObjects\<close>. A handle is a number, 0 is \<^verbatim>\<open>nullptr\<close>; what the calls return is given as a sequence. Handles closed,
  console events sent and processes terminated are recorded in order.
\<close>

section \<open>Definitions\<close>

subsection \<open>ConsoleHandler, command_line, env_vars\<close>

abbreviation (input) "running_true \<equiv> (- 1 :: dword)"
abbreviation (input) "CTRL_C_EVENT \<equiv> (0 :: dword)"
abbreviation (input) "CTRL_CLOSE_EVENT \<equiv> (2 :: dword)"
abbreviation (input) "CTRL_LOGOFF_EVENT \<equiv> (5 :: dword)"
abbreviation (input) "CTRL_SHUTDOWN_EVENT \<equiv> (6 :: dword)"

text \<open>The first component is \<^verbatim>\<open>app_running\<close> afterwards.\<close>

definition runner_ConsoleHandler :: "dword \<Rightarrow> dword \<Rightarrow> dword \<times> bool" where
  "runner_ConsoleHandler signal app_running =
     (if signal \<in> {CTRL_C_EVENT, CTRL_CLOSE_EVENT, CTRL_LOGOFF_EVENT, CTRL_SHUTDOWN_EVENT}
      then (signal, True) else (app_running, False))"

text \<open>The results of the two functions are the bytes up to, for the first without, the terminator; the flag tells whether \<^verbatim>\<open>malloc\<close>
  succeeds.\<close>

fun command_line :: "bool \<Rightarrow> string list \<Rightarrow> string result" where
  "command_line malloc_ok [] = Inl Undefined"
| "command_line malloc_ok (a # args) =
     throw_if (\<not> malloc_ok) BadAlloc (Inr (a @ concat (map (\<lambda>x. CHR '' '' # x) args)))"

abbreviation "NUL \<equiv> CHR 0x00"

text \<open>The environment is the strings before the null pointer; the loop ends at an empty one too.\<close>

fun env_copy :: "string list \<Rightarrow> string" where
  "env_copy [] = []"
| "env_copy (e # es) = (if 0 < nstl_strlen (Some e) then e @ [NUL] @ env_copy es else [])"

definition env_vars :: "bool \<Rightarrow> string list \<Rightarrow> nat \<Rightarrow> nat \<Rightarrow> string result" where
  "env_vars malloc_ok envv idx threads =
     throw_if (\<not> malloc_ok) BadAlloc
       (Inr (env_copy envv @ env_var_big threads @ [NUL] @ env_var_idx idx @ [NUL] @ [NUL]))"

subsection \<open>struct Data\<close>

record runner_data =
  handle_to_pid :: "nat \<rightharpoonup> dword"
  timer_hndlr :: nat
  d_event :: nat
  d_pids :: "nat list"
  d_tids :: "nat list"
  wait_for :: "nat list"
  d_exit :: int
  d_closed :: "nat list"
  d_sent :: "(dword \<times> dword) list"
  d_terminated :: "(nat \<times> int) list"
  d_set :: "nat list"

definition Data_new :: runner_data where
  "Data_new = \<lparr>handle_to_pid = Map.empty, timer_hndlr = 0, d_event = 0, d_pids = [], d_tids = [], wait_for = [], d_exit = 0,
     d_closed = [], d_sent = [], d_terminated = [], d_set = []\<rparr>"

text \<open>\<^verbatim>\<open>opt_close_handle\<close> on the handles of a vector, in order.\<close>

definition opt_close_handle :: "nat \<Rightarrow> runner_data \<Rightarrow> runner_data" where
  "opt_close_handle h d = (if h \<noteq> 0 then d\<lparr>d_closed := d_closed d @ [h]\<rparr> else d)"

text \<open>\<^verbatim>\<open>emplace\<close> keeps an entry that is there.\<close>

definition Data_push_back :: "nat \<Rightarrow> nat \<Rightarrow> dword \<Rightarrow> runner_data \<Rightarrow> runner_data" where
  "Data_push_back hpid htid pid d =
     d\<lparr>d_pids := d_pids d @ [hpid], d_tids := d_tids d @ [htid],
       handle_to_pid := (if handle_to_pid d hpid = None then (handle_to_pid d)(hpid \<mapsto> pid) else handle_to_pid d),
       wait_for := wait_for d @ [hpid]\<rparr>"

definition Data_delete :: "runner_data \<Rightarrow> runner_data" where
  "Data_delete d =
     (let extra = rev (drop (length (d_pids d)) (wait_for d)); d = fold opt_close_handle extra d;
          d = d\<lparr>wait_for := take (length (d_pids d)) (wait_for d)\<rparr>;
          d = fold opt_close_handle (d_pids d) d; d = fold opt_close_handle (d_tids d) d
      in (opt_close_handle (timer_hndlr d) d)\<lparr>timer_hndlr := 0\<rparr>)"

definition erase_at :: "nat \<Rightarrow> 'a list \<Rightarrow> 'a list" where
  "erase_at i xs = take i xs @ drop (Suc i) xs"

text \<open>\<open>code\<close> is what \<^verbatim>\<open>GetExitCodeProcess\<close> gives, if it succeeds. Iterators beyond the end of their vectors are undefined.\<close>

definition remove_idx :: "nat \<Rightarrow> dword option \<Rightarrow> runner_data \<Rightarrow> (runner_data \<times> dword option) result" where
  "remove_idx idx code d =
     (if length (wait_for d) \<le> idx \<or> length (d_pids d) < idx then Inl Undefined
      else if idx = length (d_pids d) then Inr (d\<lparr>wait_for := erase_at idx (wait_for d)\<rparr>, None)
      else if length (d_tids d) \<le> idx then Inl Undefined
      else
        let h = d_pids d ! idx; current = (case code of Some c \<Rightarrow> c | None \<Rightarrow> 1) in
        Inr (d\<lparr>handle_to_pid := (handle_to_pid d)(h := None), d_closed := d_closed d @ [h, d_tids d ! idx],
               d_pids := erase_at idx (d_pids d), d_tids := erase_at idx (d_tids d), wait_for := erase_at idx (wait_for d)\<rparr>,
             Some current))"

definition sendCloseEvent :: "dword \<Rightarrow> runner_data \<Rightarrow> runner_data" where
  "sendCloseEvent signal d =
     d\<lparr>d_sent := d_sent d @ map (\<lambda>pid. (signal, pid)) (List.map_filter (handle_to_pid d) (d_pids d))\<rparr>"

text \<open>What \<^verbatim>\<open>CreateEvent\<close> returns, and the handle of the timer if \<^verbatim>\<open>CreateTimerQueueTimer\<close> succeeds.\<close>

definition createEvent :: "nat \<Rightarrow> nat option \<Rightarrow> runner_data \<Rightarrow> runner_data \<times> unit result" where
  "createEvent ev timer d =
     (if d_event d \<noteq> 0 then (d, Inl (RuntimeError ''Event already created!''))
      else if timer_hndlr d \<noteq> 0 then (d, Inl (RuntimeError ''Timer already created''))
      else if ev = 0 then (d\<lparr>d_event := ev\<rparr>, Inl (RuntimeError ''CreateEvent failed''))
      else case timer of
        None \<Rightarrow> (d\<lparr>d_event := ev\<rparr>, Inl (RuntimeError ''CreateTimerQueueTimer failed''))
      | Some t \<Rightarrow> (d\<lparr>d_event := ev, timer_hndlr := t, wait_for := wait_for d @ [ev]\<rparr>, Inr ()))"

definition TimerRoutine :: "runner_data \<Rightarrow> runner_data" where
  "TimerRoutine d =
     (let d = d\<lparr>d_terminated := d_terminated d @ map (\<lambda>h. (h, d_exit d)) (d_pids d)\<rparr> in
      if d_event d \<noteq> 0 then d\<lparr>d_set := d_set d @ [d_event d]\<rparr> else d)"

subsection \<open>main\<close>

text \<open>The loop that starts the copies; \<open>created idx\<close> is the process, the thread and the process number, if \<^verbatim>\<open>CreateProcessA\<close>
  succeeds, and \<open>malloc_ok n\<close> tells whether the \<open>n\<close>-th allocation does.\<close>

fun win_start_loop ::
    "(nat \<Rightarrow> (nat \<times> nat \<times> dword) option) \<Rightarrow> (nat \<Rightarrow> bool) \<Rightarrow> string list \<Rightarrow> string list \<Rightarrow> nat \<Rightarrow> nat \<Rightarrow> nat \<Rightarrow> runner_data \<Rightarrow> runner_data result" where
  "win_start_loop created malloc_ok cmd envv threads 0 idx d = Inr d"
| "win_start_loop created malloc_ok cmd envv threads (Suc left) idx d =
     bind_result (command_line (malloc_ok (2 * idx)) cmd) (\<lambda>cmdline.
       bind_result (env_vars (malloc_ok (2 * idx + 1)) envv idx threads) (\<lambda>envvars.
         win_start_loop created malloc_ok cmd envv threads left (Suc idx)
           (case created idx of Some (hp, ht, pid) \<Rightarrow> Data_push_back hp ht pid d | None \<Rightarrow> d)))"

record win_main =
  w_data :: runner_data
  w_send_close :: bool

abbreviation (input) "WAIT_ABANDONED_0 \<equiv> (128 :: nat)"
abbreviation (input) "WAIT_TIMEOUT \<equiv> (258 :: nat)"
abbreviation (input) "WAIT_FAILED \<equiv> (4294967295 :: nat)"

text \<open>The branch for an object that is signalled; the exit code is a \<^verbatim>\<open>DWORD\<close> that is stored in an \<^verbatim>\<open>int\<close>.\<close>

definition win_object :: "nat \<Rightarrow> dword option \<Rightarrow> win_main \<Rightarrow> win_main result" where
  "win_object idx code w =
     bind_result (remove_idx idx code (w_data w)) (\<lambda>(d, current).
       case current of
         None \<Rightarrow> Inr (w\<lparr>w_data := d\<rparr>)
       | Some c \<Rightarrow>
           if c \<noteq> 0 \<and> w_send_close w
           then Inr (w\<lparr>w_data := sendCloseEvent CTRL_CLOSE_EVENT (d\<lparr>d_exit := sint c\<rparr>), w_send_close := False\<rparr>)
           else Inr (w\<lparr>w_data := d\<rparr>))"

text \<open>The branch for a timeout, with the value of \<^verbatim>\<open>app_running\<close> and what the calls of \<^verbatim>\<open>createEvent\<close> give.\<close>

definition win_timeout :: "dword \<Rightarrow> nat \<Rightarrow> nat option \<Rightarrow> win_main \<Rightarrow> win_main \<times> unit result" where
  "win_timeout run_state ev timer w =
     (if run_state \<noteq> running_true \<and> w_send_close w
      then let (d, r) = createEvent ev timer (sendCloseEvent run_state (w_data w)) in
        (w\<lparr>w_data := d, w_send_close := False\<rparr>, r)
      else (w, Inr ()))"

text \<open>What happens next: a wait returns, or the timer fires on its thread.\<close>

record win_wait =
  ww_ret :: nat
  ww_code :: "dword option"
  ww_running :: dword
  ww_event :: nat
  ww_timer :: "nat option"

datatype win_step = Waited win_wait | TimerFired

definition win_waited :: "win_wait \<Rightarrow> win_main \<Rightarrow> win_main \<times> unit result" where
  "win_waited x w =
     (let size = length (wait_for (w_data w)) in
      if ww_ret x < size
      then (case win_object (ww_ret x) (ww_code x) w of Inl e \<Rightarrow> (w, Inl e) | Inr w \<Rightarrow> (w, Inr ()))
      else if ww_ret x = WAIT_TIMEOUT then win_timeout (ww_running x) (ww_event x) (ww_timer x) w
      else if WAIT_ABANDONED_0 \<le> ww_ret x \<and> ww_ret x < WAIT_ABANDONED_0 + size
      then (w, Inl (RuntimeError ''Process abandoned (not expected at all)''))
      else if ww_ret x = WAIT_FAILED then (w, Inl (RuntimeError ''WaitForMultipleObjects FAILED''))
      else (w, Inl (RuntimeError '' return value doesn't make a sense'')))"

fun runner_win_loop :: "win_step list \<Rightarrow> win_main \<Rightarrow> (win_main \<times> unit result) option" where
  "runner_win_loop xs w =
     (if d_pids (w_data w) = [] then Some (w, Inr ())
      else case xs of
        [] \<Rightarrow> None
      | TimerFired # xs \<Rightarrow> runner_win_loop xs (w\<lparr>w_data := TimerRoutine (w_data w)\<rparr>)
      | Waited x # xs \<Rightarrow>
          (case win_waited x w of
             (w, Inl e) \<Rightarrow> Some (w, Inl e)
           | (w, Inr _) \<Rightarrow> runner_win_loop xs w))"

declare runner_win_loop.simps [simp del]

record runner_win_calls =
  wc_handler_ok :: bool
  wc_malloc_ok :: "nat \<Rightarrow> bool"
  wc_created :: "nat \<Rightarrow> (nat \<times> nat \<times> dword) option"
  wc_steps :: "win_step list"

datatype win_end = WinPrintedVersion | WinReturned runner_data int | WinThrew exn

definition main_win32 :: "runner_win_calls \<Rightarrow> string list \<Rightarrow> string list \<Rightarrow> win_end option" where
  "main_win32 wc argv envv =
     (case runner_args argv of
        Inl e \<Rightarrow> Some (WinThrew e)
      | Inr ShowVersion \<Rightarrow> Some WinPrintedVersion
      | Inr (RunCopies threads cmd) \<Rightarrow>
          if \<not> wc_handler_ok wc then Some (WinThrew (RuntimeError ''SetConsoleCtrlHandler failed''))
          else case win_start_loop (wc_created wc) (wc_malloc_ok wc) cmd envv threads threads 0 Data_new of
            Inl e \<Rightarrow> Some (WinThrew e)
          | Inr d \<Rightarrow>
              (case runner_win_loop (wc_steps wc) \<lparr>w_data = d, w_send_close = True\<rparr> of
                 None \<Rightarrow> None
               | Some (w, Inl e) \<Rightarrow> Some (WinThrew e)
               | Some (w, Inr _) \<Rightarrow> Some (WinReturned (Data_delete (w_data w)) (d_exit (w_data w)))))"

section \<open>Command line and environment block\<close>

text \<open>How the environment block is read: strings with a terminator each, up to an empty one.\<close>

fun block_read :: "string \<Rightarrow> string \<Rightarrow> string list" where
  "block_read cur [] = []"
| "block_read cur (c # cs) =
     (if c = NUL then if cur = [] then [] else cur # block_read [] cs else block_read (cur @ [c]) cs)"

lemma block_read_entry:
  "NUL \<notin> set e \<Longrightarrow> cur @ e \<noteq> [] \<Longrightarrow> block_read cur (e @ NUL # rest) = (cur @ e) # block_read [] rest"
  by (induction e arbitrary: cur) auto

lemma env_copy_read:
  "list_all (\<lambda>e. e \<noteq> [] \<and> NUL \<notin> set e) envv \<Longrightarrow> block_read [] (env_copy envv @ rest) = envv @ block_read [] rest"
  by (induction envv) (simp_all add: nstl_strlen_def block_read_entry)

lemma show_nat_no_NUL: "NUL \<notin> set (show_nat n)"
proof
  assume "NUL \<in> set (show_nat n)"
  then have "is_digit NUL" using show_nat_digits [of n] by (simp add: list_all_iff)
  then show False by (simp add: is_digit_def code_of_def)
qed

text \<open>A copy finds the environment of the runner and its two variables.\<close>

lemma env_vars_read:
  assumes "list_all (\<lambda>e. e \<noteq> [] \<and> NUL \<notin> set e) envv"
  shows "\<exists>block. env_vars True envv idx threads = Inr block \<and>
    block_read [] block = envv @ [env_var_big threads, env_var_idx idx]"
proof -
  have "NUL \<notin> set (env_var_big threads)" "NUL \<notin> set (env_var_idx idx)"
    using show_nat_no_NUL by (auto simp: env_var_big_def env_var_idx_def)
  moreover have "env_var_big threads \<noteq> []" "env_var_idx idx \<noteq> []" by (simp_all add: env_var_big_def env_var_idx_def)
  ultimately have "block_read [] (env_var_big threads @ NUL # env_var_idx idx @ NUL # [NUL]) = [env_var_big threads, env_var_idx idx]"
    by (simp add: block_read_entry)
  then show ?thesis using env_copy_read [OF assms] by (simp add: env_vars_def)
qed

text \<open>The arguments are not quoted: different commands have the same command line.\<close>

lemma command_line_ambiguous: "command_line True [''run'', ''a b''] = command_line True [''run'', ''a'', ''b'']"
  by simp

lemma command_line_join:
  "args \<noteq> [] \<Longrightarrow> command_line True args = Inr (join (CHR '' '') args)"
  by (induction "CHR '' ''" args rule: join.induct) auto

section \<open>The supervisor\<close>

definition win_ok :: "win_main \<Rightarrow> bool" where
  "win_ok w =
     (let d = w_data w in
      length (d_tids d) = length (d_pids d) \<and> distinct (d_pids d) \<and> take (length (d_pids d)) (wait_for d) = d_pids d \<and>
      length (wait_for d) \<le> Suc (length (d_pids d)) \<and> dom (handle_to_pid d) = set (d_pids d) \<and>
      0 \<notin> set (d_pids d) \<and> 0 \<notin> set (d_tids d))"

definition win_code :: "dword option \<Rightarrow> int" where
  "win_code c = sint (case c of Some c \<Rightarrow> c | None \<Rightarrow> 1)"

definition win_reap :: "nat \<Rightarrow> dword option \<Rightarrow> win_main \<Rightarrow> win_main" where
  "win_reap h c w =
     (case find_idx h (d_pids (w_data w)) of
        None \<Rightarrow> w
      | Some i \<Rightarrow> (case win_object i c w of Inl e \<Rightarrow> w | Inr w \<Rightarrow> w))"

lemma erase_at_remove1: "find_idx h xs = Some i \<Longrightarrow> erase_at i xs = remove1 h xs"
  by (induction xs arbitrary: i) (auto simp: erase_at_def split: if_splits)

lemma erase_at_take: "i < n \<Longrightarrow> n \<le> length xs \<Longrightarrow> take (n - 1) (erase_at i xs) = erase_at i (take n xs)"
  by (simp add: erase_at_def drop_take min_def, intro impI arg_cong2 [where f = take], linarith, rule refl)

lemma length_erase_at: "i < length xs \<Longrightarrow> length (erase_at i xs) = length xs - 1"
  by (simp add: erase_at_def)

lemma set_erase_at: "set (erase_at i xs) \<subseteq> set xs"
  by (auto simp: erase_at_def dest: in_set_takeD in_set_dropD)

lemma mset_erase_at: "i < length xs \<Longrightarrow> add_mset (xs ! i) (mset (erase_at i xs)) = mset xs"
  using arg_cong [OF id_take_nth_drop [of i xs], of mset] by (simp add: erase_at_def)

lemma map_filter_total: "\<forall>x \<in> set xs. m x \<noteq> None \<Longrightarrow> List.map_filter m xs = map (the \<circ> m) xs"
  by (induction xs) (auto simp: List.map_filter_simps)

lemma win_ok_wait:
  assumes "win_ok w"
  shows "length (d_pids (w_data w)) \<le> length (wait_for (w_data w))"
proof -
  have "length (take (length (d_pids (w_data w))) (wait_for (w_data w))) = length (d_pids (w_data w))"
    using assms unfolding win_ok_def Let_def by metis
  then show ?thesis by simp
qed

text \<open>An object of a process: it is taken from the vectors, and the first failure is reported to the others.\<close>

lemma remove_idx_process:
  assumes "win_ok w" "find_idx h (d_pids (w_data w)) = Some i"
  shows "\<exists>d1. remove_idx i c (w_data w) = Inr (d1, Some (case c of Some c \<Rightarrow> c | None \<Rightarrow> 1)) \<and> win_ok (w\<lparr>w_data := d1\<rparr>) \<and>
    d_pids d1 = remove1 h (d_pids (w_data w)) \<and> d_exit d1 = d_exit (w_data w) \<and> d_sent d1 = d_sent (w_data w) \<and>
    handle_to_pid d1 = (handle_to_pid (w_data w))(h := None)"
proof -
  define d where "d = w_data w"
  have ok: "length (d_tids d) = length (d_pids d)" "distinct (d_pids d)" "take (length (d_pids d)) (wait_for d) = d_pids d"
    "length (wait_for d) \<le> Suc (length (d_pids d))" "dom (handle_to_pid d) = set (d_pids d)" "0 \<notin> set (d_pids d)" "0 \<notin> set (d_tids d)"
    "length (d_pids d) \<le> length (wait_for d)"
    using assms(1) win_ok_wait [OF assms(1)] by (simp_all add: win_ok_def Let_def d_def)
  have i: "i < length (d_pids d)" "d_pids d ! i = h" using assms(2) by (simp_all add: d_def find_idx_Some)
  have er: "erase_at i (d_pids d) = remove1 h (d_pids d)" using erase_at_remove1 assms(2) by (simp add: d_def)
  define d1 where "d1 = d\<lparr>handle_to_pid := (handle_to_pid d)(h := None), d_closed := d_closed d @ [h, d_tids d ! i],
    d_pids := remove1 h (d_pids d), d_tids := erase_at i (d_tids d), wait_for := erase_at i (wait_for d)\<rparr>"
  have len: "length (remove1 h (d_pids d)) = length (d_pids d) - 1"
    using i nth_mem [OF i(1)] by (simp add: length_remove1)
  have "take (length (d_pids d) - 1) (erase_at i (wait_for d)) = remove1 h (d_pids d)"
    using erase_at_take [OF i(1) ok(8)] ok(3) er by simp
  then have "win_ok (w\<lparr>w_data := d1\<rparr>)"
    using ok i len set_erase_at [of i "d_tids d"] by (auto simp: win_ok_def Let_def d1_def length_erase_at)
  moreover have "remove_idx i c d = Inr (d1, Some (case c of Some c \<Rightarrow> c | None \<Rightarrow> 1))"
    using i ok(1,8) by (simp add: remove_idx_def Let_def d1_def er)
  ultimately show ?thesis by (auto simp: d1_def d_def)
qed

lemma win_object_process:
  assumes "win_ok w" "find_idx h (d_pids (w_data w)) = Some i"
  shows "\<exists>w1. win_object i c w = Inr w1 \<and> win_ok w1 \<and>
    d_pids (w_data w1) = remove1 h (d_pids (w_data w)) \<and>
    w_send_close w1 = (w_send_close w \<and> win_code c = 0) \<and>
    d_exit (w_data w1) = (if win_code c \<noteq> 0 \<and> w_send_close w then win_code c else d_exit (w_data w)) \<and>
    d_sent (w_data w1) = d_sent (w_data w) @ (if win_code c \<noteq> 0 \<and> w_send_close w
      then map (\<lambda>h. (CTRL_CLOSE_EVENT, the (handle_to_pid (w_data w) h))) (remove1 h (d_pids (w_data w))) else []) \<and>
    handle_to_pid (w_data w1) = (handle_to_pid (w_data w))(h := None)"
proof -
  define cur where "cur = (case c of Some c \<Rightarrow> c | None \<Rightarrow> (1 :: dword))"
  obtain d1 where d1: "remove_idx i c (w_data w) = Inr (d1, Some cur)" "win_ok (w\<lparr>w_data := d1\<rparr>)"
      "d_pids d1 = remove1 h (d_pids (w_data w))" "d_exit d1 = d_exit (w_data w)" "d_sent d1 = d_sent (w_data w)"
      "handle_to_pid d1 = (handle_to_pid (w_data w))(h := None)"
    using remove_idx_process [OF assms] unfolding cur_def by blast
  have dist: "distinct (d_pids (w_data w))" "dom (handle_to_pid (w_data w)) = set (d_pids (w_data w))"
    using assms(1) by (simp_all add: win_ok_def Let_def)
  then have "\<forall>q \<in> set (d_pids d1). handle_to_pid d1 q \<noteq> None" unfolding d1(3,6) by auto
  then have sent: "List.map_filter (handle_to_pid d1) (d_pids d1) =
      map (\<lambda>h. the (handle_to_pid (w_data w) h)) (remove1 h (d_pids (w_data w)))"
    using dist(1) by (auto simp: map_filter_total d1(3,6))
  have code: "win_code c = sint cur" "sint cur = 0 \<longleftrightarrow> cur = 0" by (simp add: win_code_def cur_def, rule signed_eq_0_iff)
  show ?thesis
  proof (cases "cur \<noteq> 0 \<and> w_send_close w")
    case True
    then show ?thesis using d1 code sent by (auto simp: win_object_def win_ok_def sendCloseEvent_def Let_def)
  next
    case False
    then have "win_object i c w = Inr (w\<lparr>w_data := d1\<rparr>)" using d1 by (auto simp: win_object_def)
    then show ?thesis using False d1 code by auto
  qed
qed

lemma win_reap_process:
  assumes "win_ok w" "h \<in> set (d_pids (w_data w))"
  obtains i w1 where "find_idx h (d_pids (w_data w)) = Some i" "win_object i c w = Inr w1" "win_reap h c w = w1"
proof -
  obtain i where i: "find_idx h (d_pids (w_data w)) = Some i" using assms(2) by (cases "find_idx h (d_pids (w_data w))") auto
  obtain w1 where "win_object i c w = Inr w1" using win_object_process [OF assms(1) i] by blast
  then show ?thesis using that i by (simp add: win_reap_def)
qed

interpretation win: supervisor
  win_ok "\<lambda>w. d_pids (w_data w)" "\<lambda>w. \<not> w_send_close w" "\<lambda>w. d_exit (w_data w)" "\<lambda>w. d_sent (w_data w)"
  "\<lambda>w h. (CTRL_CLOSE_EVENT, the (handle_to_pid (w_data w) h))" win_code win_reap
proof unfold_locales
  fix w p c
  assume ok: "win_ok w" and p: "p \<in> set (d_pids (w_data w))"
  obtain i w1 where i: "find_idx p (d_pids (w_data w)) = Some i" "win_object i c w = Inr w1" "win_reap p c w = w1"
    using win_reap_process [OF ok p] .
  note o = win_object_process [OF ok i(1), of c, unfolded i(2)]
  show "win_ok (win_reap p c w)" "d_pids (w_data (win_reap p c w)) = remove1 p (d_pids (w_data w))"
    "(\<not> w_send_close (win_reap p c w)) \<longleftrightarrow> \<not> w_send_close w \<or> win_code c \<noteq> 0"
    "d_exit (w_data (win_reap p c w)) = (if win_code c \<noteq> 0 \<and> \<not> \<not> w_send_close w then win_code c else d_exit (w_data w))"
    "d_sent (w_data (win_reap p c w)) = d_sent (w_data w) @ (if win_code c \<noteq> 0 \<and> \<not> \<not> w_send_close w
      then map (\<lambda>h. (CTRL_CLOSE_EVENT, the (handle_to_pid (w_data w) h))) (remove1 p (d_pids (w_data w))) else [])"
    using o unfolding i(3) by auto
  fix q
  assume "q \<in> set (remove1 p (d_pids (w_data w)))"
  moreover have "distinct (d_pids (w_data w))" using ok by (simp add: win_ok_def Let_def)
  ultimately show "(CTRL_CLOSE_EVENT, the (handle_to_pid (w_data (win_reap p c w)) q)) =
      (CTRL_CLOSE_EVENT, the (handle_to_pid (w_data w) q))"
    using o unfolding i(3) by auto
qed (simp add: win_ok_def Let_def)

text \<open>The waits of a loop in which the processes end in this order, each reported at the place where its handle stands then.\<close>

definition win_ended :: "nat \<Rightarrow> dword option \<Rightarrow> win_step" where
  "win_ended i c = Waited \<lparr>ww_ret = i, ww_code = c, ww_running = running_true, ww_event = 0, ww_timer = None\<rparr>"

fun win_waits :: "(nat \<times> dword option) list \<Rightarrow> nat list \<Rightarrow> win_step list" where
  "win_waits [] hs = []"
| "win_waits ((h, c) # es) hs =
     (case find_idx h hs of None \<Rightarrow> win_waits es hs | Some i \<Rightarrow> win_ended i c # win_waits es (remove1 h hs))"

lemma win_loop_ended:
  assumes "win_ok w" "h \<in> set (d_pids (w_data w))"
  shows "\<exists>i. find_idx h (d_pids (w_data w)) = Some i \<and>
    runner_win_loop (win_ended i c # xs) w = runner_win_loop xs (win_reap h c w)"
proof -
  obtain i w1 where i: "find_idx h (d_pids (w_data w)) = Some i" "win_object i c w = Inr w1" "win_reap h c w = w1"
    using win_reap_process [OF assms] .
  have "i < length (wait_for (w_data w))" using i(1) win_ok_wait [OF assms(1)] by (simp add: find_idx_Some)
  moreover have "d_pids (w_data w) \<noteq> []" using assms(2) by auto
  ultimately have "runner_win_loop (win_ended i c # xs) w = runner_win_loop xs (win_reap h c w)"
    using i by (simp add: runner_win_loop.simps [of "_ # xs"] win_ended_def win_waited_def)
  then show ?thesis using i(1) by blast
qed

lemma win_loop_supervise:
  assumes "win_ok w" "distinct (map fst es)" "set (map fst es) \<subseteq> set (d_pids (w_data w))"
  shows "runner_win_loop (win_waits es (d_pids (w_data w)) @ xs) w = runner_win_loop xs (supervise win_reap es w)"
  using assms
proof (induction es arbitrary: w)
  case (Cons e es)
  obtain h c where e: "e = (h, c)" by (cases e)
  have h: "h \<in> set (d_pids (w_data w))" using Cons.prems e by simp
  note live = win.reap_live [OF Cons.prems(1) h, of c] and ok = win.reap_ok [OF Cons.prems(1) h, of c]
  obtain i where i: "find_idx h (d_pids (w_data w)) = Some i"
      "runner_win_loop (win_ended i c # win_waits es (d_pids (w_data (win_reap h c w))) @ xs) w =
       runner_win_loop (win_waits es (d_pids (w_data (win_reap h c w))) @ xs) (win_reap h c w)"
    using win_loop_ended [OF Cons.prems(1) h] by blast
  have "set (map fst es) \<subseteq> set (d_pids (w_data (win_reap h c w)))"
    using Cons.prems(2,3) e win.live_distinct [OF Cons.prems(1)] by (auto simp: live)
  then show ?case using Cons.IH [OF ok] Cons.prems(2) i by (simp add: e live)
qed simp

section \<open>Handles\<close>

definition win_owned :: "runner_data \<Rightarrow> nat multiset" where
  "win_owned d = mset (d_closed d) + mset (d_pids d) + mset (d_tids d)"

lemma win_owned_updates [simp]:
  "win_owned (d\<lparr>d_exit := x\<rparr>) = win_owned d" "win_owned (sendCloseEvent sig d) = win_owned d"
  "win_owned (TimerRoutine d) = win_owned d" "win_owned (fst (createEvent ev t d)) = win_owned d"
  "win_owned (d\<lparr>wait_for := ws\<rparr>) = win_owned d"
  by (simp_all add: win_owned_def sendCloseEvent_def TimerRoutine_def createEvent_def Let_def split: option.split)

lemma createEvent_owned: "createEvent ev t d = (d1, r) \<Longrightarrow> win_owned d1 = win_owned d"
  by (metis fst_conv win_owned_updates(4))

lemma remove_idx_owned: "remove_idx i c d = Inr (d1, r) \<Longrightarrow> win_owned d1 = win_owned d"
  by (auto simp: remove_idx_def Let_def split: if_splits)
    (auto simp: win_owned_def dest!: mset_erase_at [symmetric] simp flip: mset_erase_at [of i "d_pids d"] mset_erase_at [of i "d_tids d"])

lemma win_object_owned: "win_object i c w = Inr w1 \<Longrightarrow> win_owned (w_data w1) = win_owned (w_data w)"
  by (auto simp: win_object_def bind_result_Inr dest!: remove_idx_owned split: option.splits if_splits)

lemma win_waited_owned: "win_owned (w_data (fst (win_waited x w))) = win_owned (w_data w)"
proof -
  have "win_owned (w_data (fst (win_timeout r ev t w))) = win_owned (w_data w)" for r ev t
    by (auto simp: win_timeout_def dest!: createEvent_owned split: prod.split)
  then show ?thesis by (auto simp: win_waited_def Let_def dest: win_object_owned split: sum.splits)
qed

lemma win_loop_owned: "runner_win_loop xs w = Some (w1, r) \<Longrightarrow> win_owned (w_data w1) = win_owned (w_data w)"
proof (induction xs arbitrary: w)
  case Nil
  then show ?case by (simp add: runner_win_loop.simps [of "[]"] split: if_splits)
next
  case (Cons x xs)
  show ?case
  proof (cases "d_pids (w_data w) = []")
    case True
    then show ?thesis using Cons.prems by (simp add: runner_win_loop.simps [of "x # xs"])
  next
    case False
    show ?thesis
    proof (cases x)
      case (Waited y)
      obtain w2 r2 where w2: "win_waited y w = (w2, r2)" by (cases "win_waited y w")
      have "win_owned (w_data w2) = win_owned (w_data w)" using win_waited_owned [of y w] w2 by simp
      then show ?thesis
        using Cons.prems Cons.IH [of w2] False w2 by (cases r2) (auto simp: runner_win_loop.simps [of "_ # xs"] Waited)
    next
      case TimerFired
      then show ?thesis
        using Cons.prems Cons.IH [of "w\<lparr>w_data := TimerRoutine (w_data w)\<rparr>"] False by (simp add: runner_win_loop.simps [of "_ # xs"])
    qed
  qed
qed

lemma close_all: "d_closed (fold opt_close_handle hs d) = d_closed d @ filter (\<lambda>h. h \<noteq> 0) hs"
  by (induction hs arbitrary: d) (simp_all add: opt_close_handle_def)

lemma close_keeps: "d_pids (fold opt_close_handle hs d) = d_pids d" "d_tids (fold opt_close_handle hs d) = d_tids d"
  "timer_hndlr (fold opt_close_handle hs d) = timer_hndlr d" "wait_for (fold opt_close_handle hs d) = wait_for d"
  by (induction hs arbitrary: d) (simp_all add: opt_close_handle_def)


lemma Data_delete_owned:
  assumes "0 \<notin> set (d_pids d)" "0 \<notin> set (d_tids d)"
  shows "mset (d_closed (Data_delete d)) =
    win_owned d + mset (filter (\<lambda>h. h \<noteq> 0) (drop (length (d_pids d)) (wait_for d) @ [timer_hndlr d]))"
proof -
  have nz: "filter ((<) 0) (d_pids d) = d_pids d" "filter ((<) 0) (d_tids d) = d_tids d"
    using assms by (auto simp: filter_id_conv) (metis gr0I)+
  show ?thesis
    by (simp add: Data_delete_def Let_def close_all close_keeps nz win_owned_def opt_close_handle_def rev_filter [symmetric] ac_simps)
qed

text \<open>No wait reads beyond a vector, and the state stays well formed.\<close>

lemma remove_idx_event:
  assumes "win_ok w" "length (d_pids (w_data w)) < length (wait_for (w_data w))"
  shows "remove_idx (length (d_pids (w_data w))) c (w_data w) =
    Inr ((w_data w)\<lparr>wait_for := d_pids (w_data w)\<rparr>, None)"
proof -
  have ok: "take (length (d_pids (w_data w))) (wait_for (w_data w)) = d_pids (w_data w)"
    "length (wait_for (w_data w)) \<le> Suc (length (d_pids (w_data w)))" using assms(1) by (simp_all add: win_ok_def Let_def)
  then have "erase_at (length (d_pids (w_data w))) (wait_for (w_data w)) = d_pids (w_data w)"
    by (simp add: erase_at_def)
  then show ?thesis using assms(2) by (simp add: remove_idx_def)
qed

lemma win_object_ok:
  assumes "win_ok w" "i < length (wait_for (w_data w))"
  shows "\<exists>w1. win_object i c w = Inr w1 \<and> win_ok w1"
proof (cases "i < length (d_pids (w_data w))")
  case True
  have "distinct (d_pids (w_data w))" using assms(1) by (simp add: win_ok_def Let_def)
  then have "find_idx (d_pids (w_data w) ! i) (d_pids (w_data w)) = Some i" using find_idx_nth True by blast
  then show ?thesis using win_object_process [OF assms(1)] by blast
next
  case False
  have "length (wait_for (w_data w)) \<le> Suc (length (d_pids (w_data w)))" using assms(1) by (simp add: win_ok_def Let_def)
  then have i: "i = length (d_pids (w_data w))" using assms(2) False by simp
  have "win_object i c w = Inr (w\<lparr>w_data := (w_data w)\<lparr>wait_for := d_pids (w_data w)\<rparr>\<rparr>)"
    using remove_idx_event [OF assms(1), of c] assms(2) i by (simp add: win_object_def)
  then show ?thesis using assms(1) by (simp add: win_ok_def Let_def)
qed


text \<open>The event exists only after the close event has been sent.\<close>

definition runner_win_inv :: "win_main \<Rightarrow> bool" where
  "runner_win_inv w =
     (win_ok w \<and> (w_send_close w \<longrightarrow>
        length (wait_for (w_data w)) = length (d_pids (w_data w)) \<and> d_event (w_data w) = 0 \<and> timer_hndlr (w_data w) = 0))"

lemma remove_idx_keeps: "remove_idx i c d = Inr (d1, r) \<Longrightarrow> d_event d1 = d_event d \<and> timer_hndlr d1 = timer_hndlr d"
  by (auto simp: remove_idx_def Let_def split: if_splits)

lemma win_object_event: "win_object i c w = Inr w1 \<Longrightarrow> w_send_close w1 \<Longrightarrow>
  w_send_close w \<and> d_event (w_data w1) = d_event (w_data w) \<and> timer_hndlr (w_data w1) = timer_hndlr (w_data w)"
  by (auto simp: win_object_def bind_result_Inr dest!: remove_idx_keeps split: option.splits if_splits)

lemma win_object_inv:
  assumes "runner_win_inv w" "i < length (wait_for (w_data w))"
  shows "\<exists>w1. win_object i c w = Inr w1 \<and> runner_win_inv w1"
proof -
  obtain w1 where w1: "win_object i c w = Inr w1" "win_ok w1" using win_object_ok assms unfolding runner_win_inv_def by blast
  have "length (wait_for (w_data w1)) = length (d_pids (w_data w1))" if "w_send_close w1"
  proof -
    have i: "i < length (d_pids (w_data w))" and w: "win_ok w" "length (wait_for (w_data w)) = length (d_pids (w_data w))"
      using win_object_event [OF w1(1) that] assms unfolding runner_win_inv_def by auto
    then have "w_data w1 = fst (projr (remove_idx i c (w_data w)))"
      using w1(1) that by (auto simp: win_object_def bind_result_Inr split: option.splits if_splits)
    moreover have "length (d_tids (w_data w)) = length (d_pids (w_data w))" using w(1) by (simp add: win_ok_def Let_def)
    ultimately show ?thesis using i w(2) by (simp add: remove_idx_def Let_def length_erase_at)
  qed
  then show ?thesis using w1 win_object_event [OF w1(1)] assms(1) unfolding runner_win_inv_def by auto
qed

lemma win_timeout_inv:
  assumes "runner_win_inv w"
  shows "snd (win_timeout r ev t w) \<noteq> Inl Undefined \<and>
    (snd (win_timeout r ev t w) = Inr () \<longrightarrow> runner_win_inv (fst (win_timeout r ev t w)))"
  using assms
  by (auto simp: win_timeout_def createEvent_def sendCloseEvent_def runner_win_inv_def win_ok_def Let_def split: option.splits)

lemma win_waited_inv:
  assumes "runner_win_inv w"
  shows "snd (win_waited x w) \<noteq> Inl Undefined \<and> (snd (win_waited x w) = Inr () \<longrightarrow> runner_win_inv (fst (win_waited x w)))"
proof (cases "ww_ret x < length (wait_for (w_data w))")
  case True
  then show ?thesis using win_object_inv [OF assms True, of "ww_code x"] by (auto simp: win_waited_def Let_def)
next
  case False
  then show ?thesis using win_timeout_inv [OF assms] by (auto simp: win_waited_def Let_def)
qed

lemma win_loop_inv:
  "runner_win_loop xs w = Some (w1, r) \<Longrightarrow> runner_win_inv w \<Longrightarrow> r \<noteq> Inl Undefined \<and> (r = Inr () \<longrightarrow> runner_win_inv w1 \<and> d_pids (w_data w1) = [])"
proof (induction xs arbitrary: w)
  case Nil
  then show ?case by (auto simp: runner_win_loop.simps [of "[]"] split: if_splits)
next
  case (Cons x xs)
  show ?case
  proof (cases "d_pids (w_data w) = []")
    case True
    then show ?thesis using Cons.prems by (auto simp: runner_win_loop.simps [of "x # xs"])
  next
    case False
    show ?thesis
    proof (cases x)
      case (Waited y)
      obtain w2 r2 where w2: "win_waited y w = (w2, r2)" by (cases "win_waited y w")
      note wi = win_waited_inv [OF Cons.prems(2), of y, unfolded w2]
      then show ?thesis
        using Cons.prems(1) Cons.IH [of w2] False w2 by (cases r2) (auto simp: runner_win_loop.simps [of "_ # xs"] Waited)
    next
      case TimerFired
      have "runner_win_inv (w\<lparr>w_data := TimerRoutine (w_data w)\<rparr>)"
        using Cons.prems(2) by (simp add: runner_win_inv_def win_ok_def TimerRoutine_def Let_def)
      moreover have "runner_win_loop xs (w\<lparr>w_data := TimerRoutine (w_data w)\<rparr>) = Some (w1, r)"
        using Cons.prems(1) False TimerFired by (simp add: runner_win_loop.simps [of "_ # xs"])
      ultimately show ?thesis using Cons.IH by blast
    qed
  qed
qed


text \<open>The start loop leaves the state well formed, when the handles that the system gives are different.\<close>

definition created_ok :: "(nat \<Rightarrow> (nat \<times> nat \<times> dword) option) \<Rightarrow> bool" where
  "created_ok created =
     (\<forall>i hp ht pid. created i = Some (hp, ht, pid) \<longrightarrow> hp \<noteq> 0 \<and> ht \<noteq> 0 \<and>
        (\<forall>j hp' ht' pid'. created j = Some (hp', ht', pid') \<longrightarrow> i \<noteq> j \<longrightarrow> hp \<noteq> hp'))"

lemma push_back_inv:
  assumes "runner_win_inv \<lparr>w_data = d, w_send_close = True\<rparr>" "hp \<notin> set (d_pids d)" "hp \<noteq> 0" "ht \<noteq> 0"
  shows "runner_win_inv \<lparr>w_data = Data_push_back hp ht pid d, w_send_close = True\<rparr>"
proof -
  have "handle_to_pid d hp = None" using assms(1,2) by (auto simp: runner_win_inv_def win_ok_def Let_def dom_def)
  then show ?thesis using assms by (auto simp: runner_win_inv_def win_ok_def Let_def Data_push_back_def)
qed

lemma win_start_inv:
  assumes "win_start_loop created malloc_ok cmd envv threads n idx d = Inr d1" "created_ok created"
    "runner_win_inv \<lparr>w_data = d, w_send_close = True\<rparr>" "\<forall>h \<in> set (d_pids d). \<exists>i < idx. \<exists>ht pid. created i = Some (h, ht, pid)"
  shows "runner_win_inv \<lparr>w_data = d1, w_send_close = True\<rparr>"
  using assms
proof (induction n arbitrary: idx d)
  case (Suc n)
  define d2 where "d2 = (case created idx of Some (hp, ht, pid) \<Rightarrow> Data_push_back hp ht pid d | None \<Rightarrow> d)"
  have rec: "win_start_loop created malloc_ok cmd envv threads n (Suc idx) d2 = Inr d1"
    using Suc.prems(1) by (auto simp: bind_result_Inr d2_def)
  have "runner_win_inv \<lparr>w_data = d2, w_send_close = True\<rparr> \<and>
      (\<forall>h \<in> set (d_pids d2). \<exists>i < Suc idx. \<exists>ht pid. created i = Some (h, ht, pid))"
  proof (cases "created idx")
    case None
    then show ?thesis using Suc.prems(3,4) by (simp add: d2_def) (meson less_SucI)
  next
    case (Some x)
    obtain hp ht pid where x: "created idx = Some (hp, ht, pid)" using Some by (cases x) auto
    have "hp \<noteq> 0" "ht \<noteq> 0" using Suc.prems(2) x unfolding created_ok_def by blast+
    moreover have "hp \<notin> set (d_pids d)" using Suc.prems(2,4) x unfolding created_ok_def by (metis less_irrefl)
    moreover have "d_pids d2 = d_pids d @ [hp]" by (simp add: d2_def x Data_push_back_def)
    moreover have "\<exists>i < Suc idx. \<exists>ht pid. created i = Some (h, ht, pid)" if "h \<in> set (d_pids d @ [hp])" for h
    proof (cases "h = hp")
      case True
      then show ?thesis using x by blast
    next
      case False
      then show ?thesis using Suc.prems(4) that less_SucI by (metis Un_iff empty_iff empty_set list.set(2) insert_iff set_append)
    qed
    ultimately show ?thesis using push_back_inv [OF Suc.prems(3)] x by (simp add: d2_def)
  qed
  then show ?case using Suc.IH [OF rec Suc.prems(2)] by blast
qed simp

section \<open>Properties\<close>

text \<open>C22. On Windows, in whatever order the copies end, the loop takes each end from the place the handle then has in the three
  vectors, and when all have ended it returns with the code of the first one that failed; exactly the copies that were left then have
  been sent the close event, once.\<close>

theorem win_runner_returns:
  assumes "runner_win_inv w" "w_send_close w" "mset (map fst ends) = mset (d_pids (w_data w))"
  shows "\<exists>w1. runner_win_loop (win_waits ends (d_pids (w_data w))) w = Some (w1, Inr ()) \<and>
    d_exit (w_data w1) = (case first_failure win_code ends of None \<Rightarrow> d_exit (w_data w) | Some v \<Rightarrow> v) \<and>
    d_sent (w_data w1) = d_sent (w_data w) @
      map (\<lambda>h. (CTRL_CLOSE_EVENT, the (handle_to_pid (w_data w) h))) (told_to_end win_code ends (d_pids (w_data w)))"
proof -
  have ok: "win_ok w" and send: "\<not> \<not> w_send_close w" using assms(1,2) by (simp_all add: runner_win_inv_def)
  have d: "distinct (map fst ends)" using win.live_distinct [OF ok] assms(3) mset_eq_imp_distinct_iff by blast
  have sub: "set (map fst ends) \<subseteq> set (d_pids (w_data w))" using mset_eq_setD [OF assms(3)] by simp
  note all = win.supervise_all [OF ok send assms(3)]
  have "runner_win_loop (win_waits ends (d_pids (w_data w))) w = Some (supervise win_reap ends w, Inr ())"
    using win_loop_supervise [OF ok d sub, of "[]"] all(1) by (simp add: runner_win_loop.simps [of "[]"])
  then show ?thesis using all(2,3) by blast
qed

text \<open>Two copies: the process handles 10 and 20, the thread handles 11 and 21.\<close>

definition win_demo :: win_main where
  "win_demo = \<lparr>w_data = Data_push_back 20 21 200 (Data_push_back 10 11 100 Data_new), w_send_close = True\<rparr>"

lemma win_demo_inv: "runner_win_inv win_demo" "w_send_close win_demo" "d_pids (w_data win_demo) = [10, 20]"
proof -
  have "runner_win_inv \<lparr>w_data = Data_new, w_send_close = True\<rparr>" by (simp add: runner_win_inv_def win_ok_def Let_def Data_new_def)
  then show "runner_win_inv win_demo"
    unfolding win_demo_def by (intro push_back_inv) (simp_all add: Data_push_back_def Data_new_def)
  show "w_send_close win_demo" "d_pids (w_data win_demo) = [10, 20]"
    by (simp_all add: win_demo_def Data_push_back_def Data_new_def)
qed

theorem win_runner_returns_witness:
  "\<exists>w1. runner_win_loop (win_waits [(20, Some 7), (10, Some 0)] [10, 20]) win_demo = Some (w1, Inr ()) \<and>
    d_exit (w_data w1) = 7 \<and> d_sent (w_data w1) = [(2, 100)]"
  using win_runner_returns [OF win_demo_inv(1,2), of "[(20, Some 7), (10, Some 0)]"]
  by (simp add: win_demo_inv(3) win_code_def) (simp add: win_demo_def Data_push_back_def Data_new_def)

text \<open>C21. Whatever the waits return and whenever the timer fires, the loop never reads beyond one of its vectors, and when it has
  returned and the data is destroyed every process handle and every thread handle has been closed exactly once, and besides them only the
  timer and the event that the loop still waited for.\<close>

theorem win_handles_closed:
  assumes "runner_win_inv w" "runner_win_loop xs w = Some (w1, r)"
  shows "r \<noteq> Inl Undefined \<and>
    (r = Inr () \<longrightarrow> mset (d_closed (Data_delete (w_data w1))) =
       mset (d_closed (w_data w)) + mset (d_pids (w_data w)) + mset (d_tids (w_data w)) +
       mset (filter (\<lambda>h. h \<noteq> 0) (wait_for (w_data w1) @ [timer_hndlr (w_data w1)])))"
proof (intro conjI impI)
  note inv1 = win_loop_inv [OF assms(2,1)]
  then show "r \<noteq> Inl Undefined" by blast
  assume "r = Inr ()"
  with inv1 have ok: "win_ok w1" "d_pids (w_data w1) = []" by (auto simp: runner_win_inv_def)
  then have "0 \<notin> set (d_pids (w_data w1))" "0 \<notin> set (d_tids (w_data w1))" by (simp_all add: win_ok_def Let_def)
  from Data_delete_owned [OF this] win_loop_owned [OF assms(2)] ok(2)
  show "mset (d_closed (Data_delete (w_data w1))) =
       mset (d_closed (w_data w)) + mset (d_pids (w_data w)) + mset (d_tids (w_data w)) +
       mset (filter (\<lambda>h. h \<noteq> 0) (wait_for (w_data w1) @ [timer_hndlr (w_data w1)]))"
    by (simp add: win_owned_def)
qed

definition win_demo_steps :: "win_step list" where
  "win_demo_steps =
     [Waited \<lparr>ww_ret = 258, ww_code = None, ww_running = 0, ww_event = 50, ww_timer = Some 60\<rparr>, TimerFired,
      Waited \<lparr>ww_ret = 2, ww_code = None, ww_running = 0, ww_event = 0, ww_timer = None\<rparr>,
      Waited \<lparr>ww_ret = 1, ww_code = Some 0, ww_running = 0, ww_event = 0, ww_timer = None\<rparr>,
      Waited \<lparr>ww_ret = 0, ww_code = Some 0, ww_running = 0, ww_event = 0, ww_timer = None\<rparr>]"

lemma win_demo_run:
  "\<exists>w1. runner_win_loop win_demo_steps win_demo = Some (w1, Inr ()) \<and> wait_for (w_data w1) = [] \<and> timer_hndlr (w_data w1) = 60 \<and>
     d_event (w_data w1) = 50 \<and> d_closed (Data_delete (w_data w1)) = [20, 21, 10, 11, 60]"
  by (simp add: win_demo_steps_def win_demo_def Data_push_back_def Data_new_def runner_win_loop.simps win_waited_def win_timeout_def
      sendCloseEvent_def createEvent_def win_object_def remove_idx_def erase_at_def TimerRoutine_def Data_delete_def opt_close_handle_def Let_def)

theorem win_handles_closed_witness:
  "\<exists>w1. runner_win_loop win_demo_steps win_demo = Some (w1, Inr ()) \<and>
     mset (d_closed (Data_delete (w_data w1))) = {#10, 20, 11, 21, 60#}"
proof -
  obtain w1 where w1: "runner_win_loop win_demo_steps win_demo = Some (w1, Inr ())" "wait_for (w_data w1) = []" "timer_hndlr (w_data w1) = 60"
    using win_demo_run by blast
  have "mset (d_closed (Data_delete (w_data w1))) = {#10, 20, 11, 21, 60#}"
    using win_handles_closed [OF win_demo_inv(1) w1(1)] w1(2,3)
    by (simp add: win_demo_def Data_push_back_def Data_new_def)
  then show ?thesis using w1(1) by blast
qed

text \<open>The event itself is not closed once the loop has taken it from the handles it waits for: it is lost.\<close>

lemma win_event_leaks:
  "\<exists>w1. runner_win_loop win_demo_steps win_demo = Some (w1, Inr ()) \<and> d_event (w_data w1) \<notin> set (d_closed (Data_delete (w_data w1)))"
  using win_demo_run by force

end
