(* ===== verification/TriggerSetup.thy ===== *)
theory TriggerSetup
  imports FileTrigger
begin

text \<open>
  Construction, worker and destruction of the three file triggers as sequences of system calls, every error path included: which
  descriptors are opened and closed, and how the worker's loop ends. The interleaving with writers of the file is the subject of
  theory \<^verbatim>\<open>FileTrigger\<close>. What the calls return is given; \<open>None\<close> is a loop that has not ended when the results end.
\<close>

section \<open>Definitions\<close>

subsection \<open>Reading to the end\<close>

text \<open>\<^verbatim>\<open>_read_data\<close> on the results of its reads: the spans handed to the callback, and what it returns or throws.\<close>

fun read_data :: "bool \<Rightarrow> read_result list \<Rightarrow> string list \<Rightarrow> (string list \<times> bool result) option" where
  "read_data exec [] spans = None"
| "read_data exec (ReadError e # rs) spans =
     (if e = EAGAIN \<or> e = EWOULDBLOCK then Some (spans, Inr True)
      else if e = EINTR then read_data exec rs spans
      else Some (spans, Inl (NstlException ''Failed over reading handler'')))"
| "read_data exec (ReadBytes bs # rs) spans =
     (if bs = [] then Some (spans, Inr False)
      else read_data exec rs (if exec then spans @ [bs] else spans))"

definition set_close_on_exec :: "int \<Rightarrow> unit result" where
  "set_close_on_exec ret = throw_if (ret < 0) (NstlException ''fcntl F_SETFD failed with FD_CLOEXEC: '') (Inr ())"

subsection \<open>Descriptors\<close>

text \<open>The members that own a descriptor. \<open>td_event\<close> is the inotify instance on Linux and the kqueue on macOS. A member closes its
  descriptor if it is valid.\<close>

record trigger_fds =
  td_hndl :: int
  td_event :: int
  td_exit_read :: int
  td_exit_write :: int

definition fds_of :: "trigger_fds \<Rightarrow> int list" where
  "fds_of t = filter FileIntHandle_valid [td_hndl t, td_event t, td_exit_read t, td_exit_write t]"

definition close_members :: "trigger_fds \<Rightarrow> int multiset \<Rightarrow> int multiset" where
  "close_members t opened = opened - mset (fds_of t)"

definition opened_fd :: "int \<Rightarrow> int multiset \<Rightarrow> int multiset" where
  "opened_fd fd opened = (if 0 \<le> fd then add_mset fd opened else opened)"

text \<open>A constructor that throws: the members made so far are destroyed.\<close>

definition ctor_fails :: "trigger_fds \<Rightarrow> string list \<Rightarrow> exn \<Rightarrow> int multiset \<Rightarrow> int multiset \<times> string list \<times> trigger_fds result" where
  "ctor_fails t spans e opened = (close_members t opened, spans, Inl e)"

subsection \<open>file_trigger_linux.cpp\<close>

record linux_trigger_calls =
  lt_inotify :: int
  lt_add_watch :: int
  lt_reads :: "read_result list"
  lt_pipe :: "(int \<times> int) option"

definition linux_ctor ::
    "linux_trigger_calls \<Rightarrow> int \<Rightarrow> bool \<Rightarrow> int multiset \<Rightarrow> (int multiset \<times> string list \<times> trigger_fds result) option" where
  "linux_ctor c hndl sow opened =
     (let opened = opened_fd (lt_inotify c) opened;
          t = \<lparr>td_hndl = hndl, td_event = lt_inotify c, td_exit_read = - 1, td_exit_write = - 1\<rparr> in
      if \<not> FileIntHandle_valid (td_event t) then Some (ctor_fails t [] (NstlException ''inotify_init1 failed'') opened)
      else if lt_add_watch c < 0 then Some (ctor_fails t [] (NstlException ''inotify_add_watch failed'') opened)
      else case read_data sow (lt_reads c) [] of
        None \<Rightarrow> None
      | Some (spans, Inl e) \<Rightarrow> Some (ctor_fails t spans e opened)
      | Some (spans, Inr _) \<Rightarrow>
          (case lt_pipe c of
             None \<Rightarrow> Some (ctor_fails t spans (NstlException ''Exit pipe cannot be created'') opened)
           | Some (r, w) \<Rightarrow>
               Some (opened_fd w (opened_fd r opened), spans, Inr (t\<lparr>td_exit_read := r, td_exit_write := w\<rparr>))))"

text \<open>An event of the wait: its descriptor, and the reads of the file that follow it. What \<^verbatim>\<open>epoll_wait\<close> gives is a batch of events or
  an error.\<close>

datatype trigger_wait = WaitEvents "(int \<times> bool \<times> read_result list) list" | WaitFailed errno

text \<open>The loop over a batch; the result tells whether the exit was requested. What \<^verbatim>\<open>_drain_inotify\<close> reads is dropped by the code; the
  second component of an event is not used here.\<close>

fun linux_events :: "trigger_fds \<Rightarrow> (int \<times> bool \<times> read_result list) list \<Rightarrow> bool \<Rightarrow> string list \<Rightarrow> (string list \<times> bool result) option" where
  "linux_events t [] requested spans = Some (spans, Inr requested)"
| "linux_events t ((fd, v, reads) # evs) requested spans =
     (if fd = td_event t
      then (case read_data True reads spans of
              None \<Rightarrow> None
            | Some (spans, Inl e) \<Rightarrow> Some (spans, Inl e)
            | Some (spans, Inr _) \<Rightarrow> linux_events t evs requested spans)
      else if fd = td_exit_read t then linux_events t evs True spans
      else linux_events t evs requested spans)"

fun linux_worker_loop :: "trigger_fds \<Rightarrow> trigger_wait list \<Rightarrow> string list \<Rightarrow> (string list \<times> unit result) option" where
  "linux_worker_loop t [] spans = None"
| "linux_worker_loop t (WaitFailed e # ws) spans =
     (if e = EINTR then linux_worker_loop t ws spans else Some (spans, Inl (NstlException ''epoll_wait error n = '')))"
| "linux_worker_loop t (WaitEvents evs # ws) spans =
     (case linux_events t evs False spans of
        None \<Rightarrow> None
      | Some (spans, Inl e) \<Rightarrow> Some (spans, Inl e)
      | Some (spans, Inr requested) \<Rightarrow> if requested then Some (spans, Inr ()) else linux_worker_loop t ws spans)"

text \<open>The two registrations with epoll, then the loop; \<^verbatim>\<open>_worker\<close> logs an exception and ends: the second component is the message
  logged, if any.\<close>

definition linux_worker_impl :: "int \<Rightarrow> int \<Rightarrow> trigger_fds \<Rightarrow> trigger_wait list \<Rightarrow> string list \<Rightarrow> (string list \<times> unit result) option" where
  "linux_worker_impl ctl_target ctl_exit t ws spans =
     (if ctl_target < 0 then Some (spans, Inl (NstlException ''epoll_ctl failed (target)''))
      else if ctl_exit < 0 then Some (spans, Inl (NstlException ''epoll_ctl failed (exit)''))
      else linux_worker_loop t ws spans)"

definition trigger_worker :: "(string list \<times> unit result) option \<Rightarrow> (string list \<times> exn option) option" where
  "trigger_worker r = map_option (\<lambda>(spans, x). (spans, case x of Inl e \<Rightarrow> Some e | Inr _ \<Rightarrow> None)) r"

definition trigger_delete :: "trigger_fds \<Rightarrow> int multiset \<Rightarrow> int multiset" where
  "trigger_delete t opened = close_members t opened"

text \<open>The factories: \<open>fd\<close> is what \<^verbatim>\<open>open\<close> returned, or the handle that is passed in and owned from then on.\<close>

definition factory_fails :: "int \<Rightarrow> exn \<Rightarrow> int multiset \<Rightarrow> int multiset \<times> string list \<times> trigger_fds result" where
  "factory_fails fd e opened = (if FileIntHandle_valid fd then opened - {#fd#} else opened, [], Inl e)"

definition make_trigger ::
    "(int \<Rightarrow> int multiset \<Rightarrow> (int multiset \<times> string list \<times> trigger_fds result) option) \<Rightarrow> unit result \<Rightarrow> int \<Rightarrow> int multiset \<Rightarrow>
     (int multiset \<times> string list \<times> trigger_fds result) option" where
  "make_trigger ctor checks fd opened =
     (case checks of Inl e \<Rightarrow> Some (factory_fails fd e opened) | Inr _ \<Rightarrow> ctor fd opened)"

definition linux_factory_path ::
    "linux_trigger_calls \<Rightarrow> int \<Rightarrow> bool \<Rightarrow> bool \<Rightarrow> nat \<Rightarrow> int multiset \<Rightarrow> (int multiset \<times> string list \<times> trigger_fds result) option" where
  "linux_factory_path c fd cb sow buffer_size opened =
     make_trigger (\<lambda>fd. linux_ctor c fd sow) (factory_path fd cb buffer_size) fd (opened_fd fd opened)"

definition linux_factory_handle ::
    "linux_trigger_calls \<Rightarrow> int \<Rightarrow> bool \<Rightarrow> bool \<Rightarrow> nat \<Rightarrow> bool result \<Rightarrow> int multiset \<Rightarrow> (int multiset \<times> string list \<times> trigger_fds result) option" where
  "linux_factory_handle c fd cb sow buffer_size nonblock opened =
     make_trigger (\<lambda>fd. linux_ctor c fd sow) (factory_handle fd cb buffer_size nonblock) fd opened"

subsection \<open>file_trigger_apple.cpp\<close>

record apple_trigger_calls =
  at_kqueue :: int
  at_kq_cloexec :: int
  at_reads :: "read_result list"
  at_pipe :: "(int \<times> int) option"
  at_read_nonblock :: "bool result"
  at_write_nonblock :: "bool result"
  at_read_cloexec :: int
  at_write_cloexec :: int

text \<open>The settings of the two ends of the pipe, in order.\<close>

definition apple_pipe_setup :: "apple_trigger_calls \<Rightarrow> unit result" where
  "apple_pipe_setup c =
     bind_result (at_read_nonblock c) (\<lambda>_. bind_result (at_write_nonblock c) (\<lambda>_.
       bind_result (set_close_on_exec (at_read_cloexec c)) (\<lambda>_. set_close_on_exec (at_write_cloexec c))))"

definition apple_ctor ::
    "apple_trigger_calls \<Rightarrow> int \<Rightarrow> bool \<Rightarrow> int multiset \<Rightarrow> (int multiset \<times> string list \<times> trigger_fds result) option" where
  "apple_ctor c hndl sow opened =
     (let opened = opened_fd (at_kqueue c) opened;
          t = \<lparr>td_hndl = hndl, td_event = at_kqueue c, td_exit_read = - 1, td_exit_write = - 1\<rparr> in
      if \<not> FileIntHandle_valid (td_event t) then Some (ctor_fails t [] (NstlException ''kqueue failed'') opened)
      else case set_close_on_exec (at_kq_cloexec c) of
        Inl e \<Rightarrow> Some (ctor_fails t [] e opened)
      | Inr _ \<Rightarrow>
          (case read_data sow (at_reads c) [] of
             None \<Rightarrow> None
           | Some (spans, Inl e) \<Rightarrow> Some (ctor_fails t spans e opened)
           | Some (spans, Inr _) \<Rightarrow>
               (case at_pipe c of
                  None \<Rightarrow> Some (ctor_fails t spans (NstlException ''Exit pipe cannot be created'') opened)
                | Some (r, w) \<Rightarrow>
                    let opened = opened_fd w (opened_fd r opened); t = t\<lparr>td_exit_read := r, td_exit_write := w\<rparr> in
                    (case apple_pipe_setup c of
                       Inl e \<Rightarrow> Some (ctor_fails t spans e opened)
                     | Inr _ \<Rightarrow> Some (opened, spans, Inr t)))))"

text \<open>An event has the descriptor, and whether its filter is \<^verbatim>\<open>EVFILT_VNODE\<close>.\<close>

fun apple_events :: "trigger_fds \<Rightarrow> (int \<times> bool \<times> read_result list) list \<Rightarrow> bool \<Rightarrow> string list \<Rightarrow> (string list \<times> bool result) option" where
  "apple_events t [] requested spans = Some (spans, Inr requested)"
| "apple_events t ((ident, vnode, reads) # evs) requested spans =
     (if ident = td_hndl t \<and> vnode
      then (case read_data True reads spans of
              None \<Rightarrow> None
            | Some (spans, Inl e) \<Rightarrow> Some (spans, Inl e)
            | Some (spans, Inr _) \<Rightarrow> apple_events t evs requested spans)
      else if ident = td_exit_read t then apple_events t evs True spans
      else apple_events t evs requested spans)"

fun apple_worker_loop :: "trigger_fds \<Rightarrow> trigger_wait list \<Rightarrow> string list \<Rightarrow> (string list \<times> unit result) option" where
  "apple_worker_loop t [] spans = None"
| "apple_worker_loop t (WaitFailed e # ws) spans =
     (if e = EINTR then apple_worker_loop t ws spans else Some (spans, Inl (NstlException ''kevent wait error n = '')))"
| "apple_worker_loop t (WaitEvents evs # ws) spans =
     (case apple_events t evs False spans of
        None \<Rightarrow> None
      | Some (spans, Inl e) \<Rightarrow> Some (spans, Inl e)
      | Some (spans, Inr requested) \<Rightarrow> if requested then Some (spans, Inr ()) else apple_worker_loop t ws spans)"

definition apple_worker_impl :: "int \<Rightarrow> trigger_fds \<Rightarrow> trigger_wait list \<Rightarrow> string list \<Rightarrow> (string list \<times> unit result) option" where
  "apple_worker_impl registered t ws spans =
     (if registered < 0 then Some (spans, Inl (NstlException ''kevent failed to register watches''))
      else apple_worker_loop t ws spans)"

text \<open>\<open>stop\<close>: whether it runs the first time, what \<^verbatim>\<open>write\<close> returns; the result is the flag \<^verbatim>\<open>_running\<close> and whether the worker was joined.\<close>

definition apple_stop :: "bool \<Rightarrow> int \<Rightarrow> bool \<times> bool result" where
  "apple_stop running written =
     (if running
      then (False, throw_if (written < 0 \<or> written \<noteq> 1) (NstlException ''Failed to write file'') (Inr True))
      else (False, Inr False))"

definition apple_factory_path ::
    "apple_trigger_calls \<Rightarrow> int \<Rightarrow> bool \<Rightarrow> bool \<Rightarrow> nat \<Rightarrow> int multiset \<Rightarrow> (int multiset \<times> string list \<times> trigger_fds result) option" where
  "apple_factory_path c fd cb sow buffer_size opened =
     make_trigger (\<lambda>fd. apple_ctor c fd sow) (factory_path fd cb buffer_size) fd (opened_fd fd opened)"

definition apple_factory_handle ::
    "apple_trigger_calls \<Rightarrow> int \<Rightarrow> bool \<Rightarrow> bool \<Rightarrow> nat \<Rightarrow> bool result \<Rightarrow> int multiset \<Rightarrow> (int multiset \<times> string list \<times> trigger_fds result) option" where
  "apple_factory_handle c fd cb sow buffer_size nonblock opened =
     make_trigger (\<lambda>fd. apple_ctor c fd sow) (factory_handle fd cb buffer_size nonblock) fd opened"

subsection \<open>file_trigger_win32.cpp\<close>

definition win_handle_closed :: "u64 \<Rightarrow> u64 multiset \<Rightarrow> u64 multiset" where
  "win_handle_closed h opened = (if valid_handle WindowsHandle h then opened - {#h#} else opened)"

text \<open>The constructor takes the handle of the file over; a trigger is its file, its exit event and the boundary.\<close>

definition win_trigger_ctor :: "u64 \<Rightarrow> u64 \<Rightarrow> u64 \<Rightarrow> u64 multiset \<Rightarrow> u64 multiset \<times> (u64 \<times> u64 \<times> u64) result" where
  "win_trigger_ctor hndl exit_event boundary opened =
     (if \<not> valid_handle WindowsHandle exit_event
      then (win_handle_closed hndl opened, Inl (NstlException ''exit event cannot be created''))
      else (add_mset exit_event opened, Inr (hndl, exit_event, boundary)))"

text \<open>What both factories do after the test of the handle.\<close>

definition win_make_trigger ::
    "u64 \<Rightarrow> bool \<Rightarrow> nat \<Rightarrow> u64 option \<Rightarrow> u64 \<Rightarrow> u64 multiset \<Rightarrow> u64 multiset \<times> (u64 \<times> u64 \<times> u64) result" where
  "win_make_trigger handler cb buffer_size size_ex exit_event opened =
     (case throw_if (\<not> cb) (NstlException ''invalid callback'')
             (throw_if (buffer_size = 0) (NstlException ''Buffer must not be empty'') (query_file_size size_ex)) of
        Inl e \<Rightarrow> (win_handle_closed handler opened, Inl e)
      | Inr boundary \<Rightarrow> win_trigger_ctor handler exit_event boundary opened)"

definition win_factory_path ::
    "u64 \<Rightarrow> bool \<Rightarrow> nat \<Rightarrow> u64 option \<Rightarrow> u64 \<Rightarrow> u64 multiset \<Rightarrow> u64 multiset \<times> (u64 \<times> u64 \<times> u64) result" where
  "win_factory_path created cb buffer_size size_ex exit_event opened =
     (if \<not> valid_handle WindowsHandle created then (opened, Inl (NstlException '' cannot be opened to read''))
      else win_make_trigger created cb buffer_size size_ex exit_event (add_mset created opened))"

definition win_factory_handle ::
    "u64 \<Rightarrow> bool \<Rightarrow> nat \<Rightarrow> u64 option \<Rightarrow> u64 \<Rightarrow> u64 multiset \<Rightarrow> u64 multiset \<times> (u64 \<times> u64 \<times> u64) result" where
  "win_factory_handle hndl cb buffer_size size_ex exit_event opened =
     (if \<not> valid_handle WindowsHandle hndl then (opened, Inl (NstlException ''Invalid handler set''))
      else win_make_trigger hndl cb buffer_size size_ex exit_event opened)"

text \<open>The worker: its event is created, then the turns run until one returns or throws.\<close>

fun win_worker_loop :: "win_calls list \<Rightarrow> win_trigger \<Rightarrow> (win_trigger \<times> unit result) option" where
  "win_worker_loop [] s = None"
| "win_worker_loop (c # cs) s =
     (case win_turn c s of
        (s', WAgain) \<Rightarrow> win_worker_loop cs s'
      | (s', WReturn) \<Rightarrow> Some (s', Inr ())
      | (s', WThrow e) \<Rightarrow> Some (s', Inl e))"

definition win_worker_impl :: "u64 \<Rightarrow> win_calls list \<Rightarrow> win_trigger \<Rightarrow> (win_trigger \<times> unit result) option" where
  "win_worker_impl file_event cs s =
     (if \<not> valid_handle WindowsHandle file_event then Some (s, Inl (NstlException ''File event cannot be created''))
      else win_worker_loop cs s)"

text \<open>\<^verbatim>\<open>stop\<close>: the flag, whether the exit event is set, and whether the worker is joined.\<close>

definition win_trigger_stop :: "bool \<Rightarrow> bool \<Rightarrow> bool \<times> bool \<times> bool" where
  "win_trigger_stop running joinable = (if running then (False, True, joinable) else (False, False, False))"

section \<open>Theorems\<close>

subsection \<open>The loop of reads\<close>

text \<open>The loop is the iteration of the turn that theory \<^verbatim>\<open>FileTrigger\<close> interleaves with the writers.\<close>

lemma read_data_iterates:
  "read_data exec (r # rs) (ft_spans s) =
     (case read_data_turn exec r s of
        (s', Some res) \<Rightarrow> Some (ft_spans s', res)
      | (s', None) \<Rightarrow> read_data exec rs (ft_spans s'))"
  by (cases r) (auto simp: read_data_turn_def Let_def)

lemma read_data_ends:
  assumes "read_data exec rs spans = Some (spans', r)"
  shows "\<exists>rs1 rs2. rs = rs1 @ rs2 \<and> concat spans' = concat spans @
     (if exec then concat (map (\<lambda>x. case x of ReadBytes bs \<Rightarrow> bs | ReadError _ \<Rightarrow> []) rs1) else [])"
  using assms
proof (induction exec rs spans rule: read_data.induct)
  case (2 exec e rs spans)
  show ?case
  proof (cases "e = EINTR")
    case True
    then obtain rs1 rs2 where "rs = rs1 @ rs2"
      "concat spans' = concat spans @ (if exec then concat (map (\<lambda>x. case x of ReadBytes bs \<Rightarrow> bs | ReadError _ \<Rightarrow> []) rs1) else [])"
      using 2 by auto
    then show ?thesis by (intro exI [of _ "ReadError e # rs1"] exI [of _ rs2]) simp
  next
    case False
    then have "spans' = spans" using 2(2) by (auto split: if_splits)
    then show ?thesis by (intro exI [of _ "[]"] exI [of _ "ReadError e # rs"]) simp
  qed
next
  case (3 exec bs rs spans)
  show ?case
  proof (cases "bs = []")
    case True
    then show ?thesis using 3(2) by (intro exI [of _ "[]"] exI [of _ "ReadBytes bs # rs"]) simp
  next
    case False
    then obtain rs1 rs2 where "rs = rs1 @ rs2"
      "concat spans' = concat (if exec then spans @ [bs] else spans) @
         (if exec then concat (map (\<lambda>x. case x of ReadBytes bs \<Rightarrow> bs | ReadError _ \<Rightarrow> []) rs1) else [])"
      using 3 by auto
    then show ?thesis by (intro exI [of _ "ReadBytes bs # rs1"] exI [of _ rs2]) simp
  qed
qed simp

text \<open>A result that ends the loop.\<close>

fun read_ends :: "read_result \<Rightarrow> bool" where
  "read_ends (ReadBytes bs) \<longleftrightarrow> bs = []"
| "read_ends (ReadError e) \<longleftrightarrow> e \<noteq> EINTR"

lemma read_data_returns: "list_ex read_ends rs \<Longrightarrow> \<exists>spans' r. read_data exec rs spans = Some (spans', r)"
  by (induction exec rs spans rule: read_data.induct) auto

subsection \<open>The workers\<close>

text \<open>An inotify event of the Linux worker corresponds to a vnode event of the descriptor on macOS.\<close>

definition to_kevent :: "trigger_fds \<Rightarrow> int \<times> bool \<times> read_result list \<Rightarrow> int \<times> bool \<times> read_result list" where
  "to_kevent t ev =
     (case ev of (fd, v, reads) \<Rightarrow> if fd = td_event t then (td_hndl t, True, reads) else (fd, False, reads))"

lemma events_agree: "linux_events t evs requested spans = apple_events t (map (to_kevent t) evs) requested spans"
proof (induction t evs requested spans rule: linux_events.induct)
  case (2 t fd v reads evs requested spans)
  then show ?case by (cases "fd = td_event t") (auto simp: to_kevent_def split: option.split sum.split)
qed simp

lemma worker_platforms_agree:
  assumes "\<forall>w \<in> set ws. w \<noteq> WaitFailed EAGAIN \<and> w \<noteq> WaitFailed EWOULDBLOCK \<and> w \<noteq> WaitFailed OtherErrno"
  shows "linux_worker_loop t ws spans =
    apple_worker_loop t
      (map (\<lambda>w. case w of WaitEvents evs \<Rightarrow> WaitEvents (map (to_kevent t) evs) | WaitFailed e \<Rightarrow> WaitFailed e) ws) spans"
  using assms
proof (induction t ws spans rule: linux_worker_loop.induct)
  case (2 t e ws spans)
  then have "e = EINTR" by (cases e) auto
  then show ?case using 2 by simp
next
  case (3 t evs ws spans)
  then show ?case by (simp add: events_agree split: option.split prod.split sum.split)
qed simp

text \<open>A batch with the exit is handled to its end, data included, before the worker ends.\<close>

lemma linux_events_exit:
  assumes "linux_events t evs requested spans = Some (spans', Inr r)"
  shows "r \<longleftrightarrow> requested \<or> td_exit_read t \<in> fst ` set (filter (\<lambda>ev. fst ev \<noteq> td_event t) evs)"
  using assms
  by (induction t evs requested spans rule: linux_events.induct) (auto split: if_splits option.splits prod.splits sum.splits)

lemma linux_worker_exit:
  assumes "linux_events t evs False spans = Some (spans', Inr r)"
    and "td_exit_read t \<in> fst ` set evs" and "td_exit_read t \<noteq> td_event t"
  shows "linux_worker_loop t (WaitEvents evs # ws) spans = Some (spans', Inr ())"
proof -
  have "td_exit_read t \<in> fst ` set (filter (\<lambda>ev. fst ev \<noteq> td_event t) evs)" using assms(2,3) by auto
  then have "r" using linux_events_exit [OF assms(1)] by blast
  then show ?thesis using assms(1) by simp
qed

subsection \<open>Descriptors\<close>

text \<open>The contract of a constructor under calls that give no descriptor 0: it owns the descriptor it is given, and when it throws
  it has closed it with all others it opened; when it does not, the members own what is open. A factory that keeps it either throws
  with everything closed that it opened or was given, or makes a trigger whose destruction closes all that.\<close>

definition factory_balanced :: "int \<Rightarrow> int multiset \<Rightarrow> (int multiset \<times> string list \<times> trigger_fds result) option \<Rightarrow> bool" where
  "factory_balanced fd opened made =
     (case made of
        None \<Rightarrow> False
      | Some (o', spans, Inl e) \<Rightarrow> o' = opened
      | Some (o', spans, Inr t) \<Rightarrow>
          td_hndl t = fd \<and> length (fds_of t) = 4 \<and> o' = opened + mset (fds_of t) \<and> trigger_delete t o' = opened)"

locale trigger_maker =
  fixes ctor :: "'c \<Rightarrow> int \<Rightarrow> bool \<Rightarrow> int multiset \<Rightarrow> (int multiset \<times> string list \<times> trigger_fds result) option"
    and calls_ok :: "'c \<Rightarrow> bool"
  assumes ctor_returns: "calls_ok c \<Longrightarrow> \<exists>o' spans r. ctor c fd sow opened = Some (o', spans, r)"
    and ctor_throws: "\<lbrakk>calls_ok c; 0 < fd; ctor c fd sow (add_mset fd opened) = Some (o', spans, Inl e)\<rbrakk> \<Longrightarrow> o' = opened"
    and ctor_makes: "\<lbrakk>calls_ok c; 0 < fd; ctor c fd sow (add_mset fd opened) = Some (o', spans, Inr t)\<rbrakk> \<Longrightarrow>
      td_hndl t = fd \<and> length (fds_of t) = 4 \<and> o' = opened + mset (fds_of t)"
begin

lemma make_balanced:
  assumes ok: "calls_ok c" and fd: "checks = Inr () \<Longrightarrow> 0 < fd" and "fd \<noteq> 0"
  shows "factory_balanced fd opened (make_trigger (\<lambda>fd. ctor c fd sow) checks fd (opened_fd fd opened))"
proof (cases checks)
  case (Inl e)
  then show ?thesis using \<open>fd \<noteq> 0\<close>
    by (auto simp: factory_balanced_def make_trigger_def factory_fails_def opened_fd_def FileIntHandle_valid_def)
next
  case (Inr u)
  then have pos: "0 < fd" using fd by simp
  obtain o' spans r where made: "ctor c fd sow (add_mset fd opened) = Some (o', spans, r)" using ctor_returns [OF ok] by blast
  then show ?thesis using Inr pos ctor_throws [OF ok pos, of sow opened o' spans] ctor_makes [OF ok pos, of sow opened o' spans]
    by (cases r) (simp_all add: factory_balanced_def make_trigger_def opened_fd_def trigger_delete_def close_members_def)
qed

end

definition pipe_ok :: "(int \<times> int) option \<Rightarrow> bool" where
  "pipe_ok p = (case p of None \<Rightarrow> True | Some (r, w) \<Rightarrow> 0 < r \<and> 0 < w)"

definition linux_trigger_calls_ok :: "linux_trigger_calls \<Rightarrow> bool" where
  "linux_trigger_calls_ok c \<longleftrightarrow> lt_inotify c \<noteq> 0 \<and> pipe_ok (lt_pipe c) \<and> list_ex read_ends (lt_reads c)"

definition apple_trigger_calls_ok :: "apple_trigger_calls \<Rightarrow> bool" where
  "apple_trigger_calls_ok c \<longleftrightarrow> at_kqueue c \<noteq> 0 \<and> pipe_ok (at_pipe c) \<and> list_ex read_ends (at_reads c)"

lemmas trigger_fd_simps =
  ctor_fails_def close_members_def fds_of_def opened_fd_def FileIntHandle_valid_def pipe_ok_def Let_def

interpretation linux_maker: trigger_maker linux_ctor linux_trigger_calls_ok
proof
  fix c fd sow opened
  assume "linux_trigger_calls_ok c"
  then obtain spans r where "read_data sow (lt_reads c) [] = Some (spans, r)"
    using read_data_returns unfolding linux_trigger_calls_ok_def by blast
  then show "\<exists>o' spans r. linux_ctor c fd sow opened = Some (o', spans, r)"
    by (auto simp: linux_ctor_def ctor_fails_def Let_def split: option.split sum.split)
next
  fix c fd sow opened o' spans e
  assume "linux_trigger_calls_ok c" "0 < fd" "linux_ctor c fd sow (add_mset fd opened) = Some (o', spans, Inl e)"
  then show "o' = opened"
    by (auto simp: linux_ctor_def linux_trigger_calls_ok_def trigger_fd_simps split: if_splits option.splits prod.splits sum.splits)
next
  fix c fd sow opened o' spans t
  assume "linux_trigger_calls_ok c" "0 < fd" "linux_ctor c fd sow (add_mset fd opened) = Some (o', spans, Inr t)"
  then show "td_hndl t = fd \<and> length (fds_of t) = 4 \<and> o' = opened + mset (fds_of t)"
    by (auto simp: linux_ctor_def linux_trigger_calls_ok_def trigger_fd_simps split: if_splits option.splits prod.splits sum.splits)
qed

interpretation apple_maker: trigger_maker apple_ctor apple_trigger_calls_ok
proof
  fix c fd sow opened
  assume "apple_trigger_calls_ok c"
  then obtain spans r where "read_data sow (at_reads c) [] = Some (spans, r)"
    using read_data_returns unfolding apple_trigger_calls_ok_def by blast
  then show "\<exists>o' spans r. apple_ctor c fd sow opened = Some (o', spans, r)"
    by (auto simp: apple_ctor_def ctor_fails_def Let_def split: option.split sum.split)
next
  fix c fd sow opened o' spans e
  assume "apple_trigger_calls_ok c" "0 < fd" "apple_ctor c fd sow (add_mset fd opened) = Some (o', spans, Inl e)"
  then show "o' = opened"
    by (auto simp: apple_ctor_def apple_trigger_calls_ok_def trigger_fd_simps split: if_splits option.splits prod.splits sum.splits)
next
  fix c fd sow opened o' spans t
  assume "apple_trigger_calls_ok c" "0 < fd" "apple_ctor c fd sow (add_mset fd opened) = Some (o', spans, Inr t)"
  then show "td_hndl t = fd \<and> length (fds_of t) = 4 \<and> o' = opened + mset (fds_of t)"
    by (auto simp: apple_ctor_def apple_trigger_calls_ok_def trigger_fd_simps split: if_splits option.splits prod.splits sum.splits)
qed

lemma factory_path_valid: "factory_path fd cb n = Inr () \<Longrightarrow> 0 < fd"
  by (auto simp: factory_path_def throw_if_def FileIntHandle_valid_def split: if_splits)

lemma factory_handle_valid: "factory_handle fd cb n nb = Inr () \<Longrightarrow> 0 < fd"
  by (auto simp: factory_handle_def throw_if_def FileIntHandle_valid_def split: if_splits)

text \<open>C24 (\<^verbatim>\<open>file_trigger::factory\<close> and the constructors on Linux and macOS): when the calls give no descriptor 0 and the reads
  come to an end, each factory returns or throws. If it throws, whichever call failed, every descriptor it opened is closed, and so is
  the one it was given; if it returns, the trigger owns four descriptors, the file's and three new ones, and destroying it closes
  exactly these.\<close>

theorem trigger_factories_balanced:
  assumes "linux_trigger_calls_ok cl" and "apple_trigger_calls_ok ca" and "fd \<noteq> 0"
  shows "factory_balanced fd opened (linux_factory_path cl fd cb sow n opened) \<and>
    factory_balanced fd opened (linux_factory_handle cl fd cb sow n nonblock (opened_fd fd opened)) \<and>
    factory_balanced fd opened (apple_factory_path ca fd cb sow n opened) \<and>
    factory_balanced fd opened (apple_factory_handle ca fd cb sow n nonblock (opened_fd fd opened))"
  unfolding linux_factory_path_def linux_factory_handle_def apple_factory_path_def apple_factory_handle_def
  by (intro conjI linux_maker.make_balanced [OF assms(1)] apple_maker.make_balanced [OF assms(2)] assms(3))
    (erule factory_path_valid factory_handle_valid)+

theorem trigger_factories_balanced_witness:
  "let cl = \<lparr>lt_inotify = 5, lt_add_watch = 1, lt_reads = [ReadBytes ''ab'', ReadError EINTR, ReadBytes []], lt_pipe = Some (6, 7)\<rparr>;
       ca = \<lparr>at_kqueue = 5, at_kq_cloexec = 0, at_reads = [ReadError EAGAIN], at_pipe = Some (6, 7), at_read_nonblock = Inr True,
         at_write_nonblock = Inr True, at_read_cloexec = 0, at_write_cloexec = - 1\<rparr>
   in factory_balanced 4 {#1, 2#} (linux_factory_path cl 4 True True 16 {#1, 2#}) \<and>
      linux_factory_path cl 4 True True 16 {#1, 2#} =
        Some ({#7, 6, 5, 4, 1, 2#}, [''ab''], Inr \<lparr>td_hndl = 4, td_event = 5, td_exit_read = 6, td_exit_write = 7\<rparr>) \<and>
      factory_balanced 4 {#1, 2#} (apple_factory_path ca 4 True True 16 {#1, 2#}) \<and>
      map_option fst (apple_factory_path ca 4 True True 16 {#1, 2#}) = Some {#1, 2#}"
proof -
  let ?cl = "\<lparr>lt_inotify = 5, lt_add_watch = 1, lt_reads = [ReadBytes ''ab'', ReadError EINTR, ReadBytes []], lt_pipe = Some (6, 7)\<rparr>"
  let ?ca = "\<lparr>at_kqueue = 5, at_kq_cloexec = 0, at_reads = [ReadError EAGAIN], at_pipe = Some (6, 7), at_read_nonblock = Inr True,
    at_write_nonblock = Inr True, at_read_cloexec = 0, at_write_cloexec = - 1\<rparr>"
  have "linux_trigger_calls_ok ?cl" "apple_trigger_calls_ok ?ca"
    by (simp_all add: linux_trigger_calls_ok_def apple_trigger_calls_ok_def pipe_ok_def)
  note b = trigger_factories_balanced [OF this, of 4 "{#1, 2#}" True True 16 "Inr True"]
  have l: "linux_factory_path ?cl 4 True True 16 {#1, 2#} =
      Some ({#7, 6, 5, 4, 1, 2#}, [''ab''], Inr \<lparr>td_hndl = 4, td_event = 5, td_exit_read = 6, td_exit_write = 7\<rparr>)"
    by (simp add: linux_factory_path_def make_trigger_def factory_path_def throw_if_def linux_ctor_def trigger_fd_simps)
  have a: "map_option fst (apple_factory_path ?ca 4 True True 16 {#1, 2#}) = Some {#1, 2#}"
    by (simp add: apple_factory_path_def make_trigger_def factory_path_def throw_if_def apple_ctor_def apple_pipe_setup_def
        set_close_on_exec_def trigger_fd_simps)
  show ?thesis unfolding Let_def using b l a by simp
qed

lemma win_make_trigger_balanced:
  assumes "valid_handle WindowsHandle h" and "win_make_trigger h cb n size_ex ev (add_mset h opened) = (o', r)"
  shows "case r of Inl _ \<Rightarrow> o' = opened
    | Inr (file, ev', boundary) \<Rightarrow> file = h \<and> o' = opened + {#h, ev'#} \<and> size_ex = Some boundary \<and> cb \<and> 0 < n"
  using assms
  by (auto simp: win_make_trigger_def win_trigger_ctor_def win_handle_closed_def query_file_size_def throw_if_def
      split: if_splits option.splits sum.splits)

theorem win_factories_balanced:
  assumes "win_factory_path h cb n size_ex ev opened = (o', r) \<or>
    win_factory_handle h cb n size_ex ev (if valid_handle WindowsHandle h then add_mset h opened else opened) = (o', r)"
  shows "case r of Inl _ \<Rightarrow> o' = opened
    | Inr (file, ev', boundary) \<Rightarrow> file = h \<and> o' = opened + {#h, ev'#} \<and> size_ex = Some boundary \<and> cb \<and> 0 < n"
proof (cases "valid_handle WindowsHandle h")
  case True
  then have "win_make_trigger h cb n size_ex ev (add_mset h opened) = (o', r)"
    using assms by (auto simp: win_factory_path_def win_factory_handle_def)
  then show ?thesis by (rule win_make_trigger_balanced [OF True])
qed (use assms in \<open>auto simp: win_factory_path_def win_factory_handle_def\<close>)

text \<open>\<^verbatim>\<open>stop\<close> acts once: after it the flag is down, and a second call neither writes nor joins.\<close>

lemma apple_stop_once: "fst (apple_stop running w) = False \<and> apple_stop (fst (apple_stop running w)) w' = (False, Inr False)"
  by (simp add: apple_stop_def)

text \<open>The results of the calls are such as the file gives them at each turn; then the worker stays within the reachable states that
  theory \<^verbatim>\<open>FileTrigger\<close> is about.\<close>

fun win_calls_ok :: "win_calls list \<Rightarrow> win_trigger \<Rightarrow> bool" where
  "win_calls_ok [] s \<longleftrightarrow> True"
| "win_calls_ok (c # cs) s \<longleftrightarrow>
     (case wc_result c of Inl _ \<Rightarrow> True | Inr bs \<Rightarrow> win_may_read s bs) \<and> win_calls_ok cs (fst (win_turn c s))"

lemma win_worker_reach:
  assumes "win_worker_loop cs s = Some (s', r)" and "wt_reach s" and "win_calls_ok cs s"
  shows "wt_reach s'"
  using assms
proof (induction cs s rule: win_worker_loop.induct)
  case (2 c cs s)
  have reach: "wt_reach (fst (win_turn c s))" using 2(3,4) by (intro wt_reach.Turn) auto
  obtain s1 n where turn: "win_turn c s = (s1, n)" by fastforce
  show ?case
  proof (cases n)
    case WAgain
    then show ?thesis using 2 turn reach by simp
  qed (use 2(2) turn reach in auto)
qed simp

end
