(* ===== verification/TriggerRefine.thy ===== *)
theory TriggerRefine
  imports TriggerSetup
begin

text \<open>
  The two models of the file triggers fit together: a run of the system that theory \<^verbatim>\<open>FileTrigger\<close> describes, with writers of the file and
  a call of \<open>stop\<close> between any two steps, determines what the waits and the reads of the worker return; on these results the loops
  of theory \<^verbatim>\<open>TriggerSetup\<close> hand the same spans to the callback and end in the same way.
\<close>

section \<open>Runs with the results of the calls\<close>

text \<open>What others do while the worker runs: append to the file, or call \<open>stop\<close>.\<close>

inductive others :: "file_trigger \<Rightarrow> file_trigger \<Rightarrow> bool" where
  Idle: "others s s"
| Append: "others s s' \<Longrightarrow> others s (file_append bs s')"
| Stop: "others s s' \<Longrightarrow> others s (fst (ft_stop written s'))"

text \<open>The reads of the file after an event, until \<^verbatim>\<open>_read_data\<close> returns or throws.\<close>

inductive reads_run :: "file_trigger \<Rightarrow> read_result list \<Rightarrow> file_trigger \<Rightarrow> bool" where
  Last: "\<lbrakk>others s s1; ft_pc s1 = Reading fs x; may_read s1 r; ft_pc (worker_read r s1) \<noteq> Reading fs x\<rbrakk> \<Longrightarrow>
    reads_run s [r] (worker_read r s1)"
| More: "\<lbrakk>others s s1; ft_pc s1 = Reading fs x; may_read s1 r; ft_pc (worker_read r s1) = Reading fs x;
    reads_run (worker_read r s1) rs s'\<rbrakk> \<Longrightarrow> reads_run s (r # rs) s'"

text \<open>The event that stands for a descriptor that is ready, with the reads that follow it.\<close>

definition target_event :: "ft_platform \<Rightarrow> trigger_fds \<Rightarrow> read_result list \<Rightarrow> int \<times> bool \<times> read_result list" where
  "target_event pf t rs = (if pf = Linux then (td_event t, False, rs) else (td_hndl t, True, rs))"

definition stop_event :: "trigger_fds \<Rightarrow> int \<times> bool \<times> read_result list" where
  "stop_event t = (td_exit_read t, False, [])"

inductive batch_run ::
    "ft_platform \<Rightarrow> trigger_fds \<Rightarrow> file_trigger \<Rightarrow> (int \<times> bool \<times> read_result list) list \<Rightarrow> file_trigger \<Rightarrow> bool"
  for pf t where
  Done: "\<lbrakk>others s s1; ft_pc s1 = Handling [] x\<rbrakk> \<Longrightarrow> batch_run pf t s [] s1"
| Target: "\<lbrakk>others s s1; ft_pc s1 = Handling (TargetEvent # fs) x; reads_run (worker_handle pf s1) rs s2; ft_pc s2 = Handling fs x;
    batch_run pf t s2 evs s'\<rbrakk> \<Longrightarrow> batch_run pf t s (target_event pf t rs # evs) s'"
| Throws: "\<lbrakk>others s s1; ft_pc s1 = Handling (TargetEvent # fs) x; reads_run (worker_handle pf s1) rs s2; ft_pc s2 = Failed\<rbrakk> \<Longrightarrow>
    batch_run pf t s (target_event pf t rs # evs) s2"
| Exit: "\<lbrakk>others s s1; ft_pc s1 = Handling (ExitPipe # fs) x; batch_run pf t (worker_handle pf s1) evs s'\<rbrakk> \<Longrightarrow>
    batch_run pf t s (stop_event t # evs) s'"

inductive worker_run :: "ft_platform \<Rightarrow> trigger_fds \<Rightarrow> file_trigger \<Rightarrow> trigger_wait list \<Rightarrow> file_trigger \<Rightarrow> bool" for pf t where
  Interrupted: "\<lbrakk>others s s1; ft_pc s1 = Waiting; worker_run pf t s1 ws s'\<rbrakk> \<Longrightarrow> worker_run pf t s (WaitFailed EINTR # ws) s'"
| Ends: "\<lbrakk>others s s1; ft_pc s1 = Waiting; fs \<noteq> []; distinct fs; set fs = ready_fds s1; batch_run pf t (worker_wake pf fs s1) evs s2;
    ft_pc s2 = Handling [] True\<rbrakk> \<Longrightarrow> worker_run pf t s (WaitEvents evs # ws) (worker_handle pf s2)"
| Fails: "\<lbrakk>others s s1; ft_pc s1 = Waiting; fs \<noteq> []; distinct fs; set fs = ready_fds s1; batch_run pf t (worker_wake pf fs s1) evs s2;
    ft_pc s2 = Failed\<rbrakk> \<Longrightarrow> worker_run pf t s (WaitEvents evs # ws) s2"
| Again: "\<lbrakk>others s s1; ft_pc s1 = Waiting; fs \<noteq> []; distinct fs; set fs = ready_fds s1; batch_run pf t (worker_wake pf fs s1) evs s2;
    ft_pc s2 = Handling [] False; worker_run pf t (worker_handle pf s2) ws s'\<rbrakk> \<Longrightarrow> worker_run pf t s (WaitEvents evs # ws) s'"

text \<open>The loop of a platform.\<close>

definition worker_loop_of ::
    "ft_platform \<Rightarrow> trigger_fds \<Rightarrow> trigger_wait list \<Rightarrow> string list \<Rightarrow> (string list \<times> unit result) option" where
  "worker_loop_of pf = (if pf = Linux then linux_worker_loop else apple_worker_loop)"

definition trigger_events ::
    "ft_platform \<Rightarrow> trigger_fds \<Rightarrow> (int \<times> bool \<times> read_result list) list \<Rightarrow> bool \<Rightarrow> string list \<Rightarrow> (string list \<times> bool result) option" where
  "trigger_events pf = (if pf = Linux then linux_events else apple_events)"

section \<open>Theorems\<close>

lemma others_same:
  assumes "others s s'"
  shows "ft_spans s' = ft_spans s" "ft_pc s' = ft_pc s"
  using assms by (induction rule: others.induct) (auto simp: file_append_def ft_stop_def)

lemma others_reach:
  assumes "others s s'" "ft_reach pf s k"
  shows "ft_reach pf s' k"
  using assms by (induction rule: others.induct) (auto intro: ft_reach.intros)

text \<open>A read of the worker is a turn of the loop.\<close>

lemma worker_read_turn:
  assumes "ft_pc s = Reading fs x"
  shows "read_data True (r # rs) (ft_spans s) =
    (if ft_pc (worker_read r s) = Reading fs x then read_data True rs (ft_spans (worker_read r s))
     else Some (ft_spans (worker_read r s),
       if ft_pc (worker_read r s) = Failed then Inl (NstlException ''Failed over reading handler'')
       else Inr (\<exists>e. r = ReadError e)))"
    and "ft_pc (worker_read r s) \<in> {Reading fs x, Failed, Handling fs x}"
  using assms by (cases r; auto simp: worker_read_def read_data_turn_def Let_def)+

lemma reads_run_result:
  assumes "reads_run s rs s'" "ft_pc s = Reading fs x"
  shows "(ft_pc s' = Handling fs x \<and> (\<exists>b. read_data True rs (ft_spans s) = Some (ft_spans s', Inr b))) \<or>
    (ft_pc s' = Failed \<and> (\<exists>e. read_data True rs (ft_spans s) = Some (ft_spans s', Inl e)))"
  using assms
proof (induction rule: reads_run.induct)
  case (Last s s1 fs' x' r)
  then have pc: "ft_pc s1 = Reading fs x" "fs' = fs" "x' = x" using others_same(2) by auto
  then show ?case
    using Last(4) worker_read_turn [OF pc(1), of r] others_same(1) [OF Last(1)] by auto
next
  case (More s s1 fs' x' r rs s')
  then have pc: "ft_pc s1 = Reading fs x" "fs' = fs" "x' = x" using others_same(2) by auto
  then show ?case
    using More(4,6) worker_read_turn(1) [OF pc(1), of r rs] others_same(1) [OF More(1)] by simp
qed

lemma reads_run_reach:
  assumes "reads_run s rs s'" "ft_reach pf s k"
  shows "ft_reach pf s' k"
  using assms by (induction rule: reads_run.induct) (blast intro: others_reach ft_reach.Read)+

lemma worker_handle_pcs:
  "ft_pc s = Handling (TargetEvent # fs) x \<Longrightarrow> ft_pc (worker_handle pf s) = Reading fs x"
  "ft_pc s = Handling (ExitPipe # fs) x \<Longrightarrow> ft_pc (worker_handle pf s) = Handling fs True"
  "ft_pc s = Handling [] x \<Longrightarrow> ft_pc (worker_handle pf s) = (if x then Ended else Waiting)"
  "ft_spans (worker_handle pf s) = ft_spans s"
  by (auto simp: worker_handle_def drain_inotify_def split: ft_pc.splits list.splits ft_fd.splits)

lemma batch_run_reach:
  assumes "batch_run pf t s evs s'" "ft_reach pf s k"
  shows "ft_reach pf s' k"
  using assms
  by (induction rule: batch_run.induct) (blast intro: others_reach reads_run_reach ft_reach.Handle)+

lemma trigger_events_simps:
  assumes "td_exit_read t \<noteq> td_event t"
  shows "trigger_events pf t [] x spans = Some (spans, Inr x)"
    and "trigger_events pf t (target_event pf t rs # evs) x spans =
      (case read_data True rs spans of
         None \<Rightarrow> None
       | Some (spans, Inl e) \<Rightarrow> Some (spans, Inl e)
       | Some (spans, Inr _) \<Rightarrow> trigger_events pf t evs x spans)"
    and "trigger_events pf t (stop_event t # evs) x spans = trigger_events pf t evs True spans"
  using assms by (simp_all add: trigger_events_def target_event_def stop_event_def split: option.split sum.split)

lemma batch_run_result:
  assumes "batch_run pf t s evs s'" "ft_pc s = Handling fs x" "td_exit_read t \<noteq> td_event t"
  shows "(\<exists>y. ft_pc s' = Handling [] y \<and> trigger_events pf t evs x (ft_spans s) = Some (ft_spans s', Inr y)) \<or>
    (ft_pc s' = Failed \<and> (\<exists>e. trigger_events pf t evs x (ft_spans s) = Some (ft_spans s', Inl e)))"
  using assms
proof (induction arbitrary: fs x rule: batch_run.induct)
  case (Done s s1 y)
  then show ?case using others_same [OF Done(1)] trigger_events_simps(1) [OF Done(4)] by auto
next
  case (Target s s1 fs' x' rs s2 evs s')
  note o = others_same [OF Target(1)] and h = worker_handle_pcs(1) [OF Target(2), of pf]
  obtain b where "read_data True rs (ft_spans s) = Some (ft_spans s2, Inr b)"
    using reads_run_result [OF Target(3) h] Target(4) o(1) worker_handle_pcs(4) [of pf s1] by auto
  then show ?case
    using Target.IH [OF Target(4,8)] o(2) Target(2,7) trigger_events_simps(2) [OF Target(8), of pf rs evs x "ft_spans s"] by auto
next
  case (Throws s s1 fs' x' rs s2 evs)
  note o = others_same [OF Throws(1)] and h = worker_handle_pcs(1) [OF Throws(2), of pf]
  obtain e where "read_data True rs (ft_spans s) = Some (ft_spans s2, Inl e)"
    using reads_run_result [OF Throws(3) h] Throws(4) o(1) worker_handle_pcs(4) [of pf s1] by auto
  then show ?case using Throws(4) trigger_events_simps(2) [OF Throws(6), of pf rs evs x "ft_spans s"] by auto
next
  case (Exit s s1 fs' x' evs s')
  note o = others_same [OF Exit(1)]
  show ?case
    using Exit.IH [OF worker_handle_pcs(2) [OF Exit(2), of pf] Exit(6)] o(1) worker_handle_pcs(4) [of pf s1]
      trigger_events_simps(3) [OF Exit(6), of pf evs x "ft_spans s"]
    by simp
qed

lemma worker_loop_of_simps:
  "worker_loop_of pf t (WaitFailed EINTR # ws) spans = worker_loop_of pf t ws spans"
  "worker_loop_of pf t (WaitEvents evs # ws) spans =
     (case trigger_events pf t evs False spans of
        None \<Rightarrow> None
      | Some (spans, Inl e) \<Rightarrow> Some (spans, Inl e)
      | Some (spans, Inr requested) \<Rightarrow> if requested then Some (spans, Inr ()) else worker_loop_of pf t ws spans)"
  by (simp_all add: worker_loop_of_def trigger_events_def split: option.split sum.split)

lemma worker_wake_pc: "ft_pc (worker_wake pf fs s) = Handling fs False" "ft_spans (worker_wake pf fs s) = ft_spans s"
  by (simp_all add: worker_wake_def)

lemma worker_run_result:
  assumes "worker_run pf t s ws s'" "td_exit_read t \<noteq> td_event t"
  shows "(ft_pc s' = Ended \<and> worker_loop_of pf t ws (ft_spans s) = Some (ft_spans s', Inr ())) \<or>
    (ft_pc s' = Failed \<and> (\<exists>e. worker_loop_of pf t ws (ft_spans s) = Some (ft_spans s', Inl e)))"
  using assms(1)
proof (induction rule: worker_run.induct)
  case (Interrupted s s1 ws s')
  then show ?case using others_same(1) [OF Interrupted(1)] by (simp add: worker_loop_of_simps)
next
  case (Ends s s1 fs evs s2 ws)
  show ?case
    using batch_run_result [OF Ends(6) worker_wake_pc(1) assms(2)] Ends(7) others_same(1) [OF Ends(1)]
      worker_handle_pcs(3) [OF Ends(7), of pf] worker_handle_pcs(4) [of pf s2] worker_wake_pc(2) [of pf fs s1]
    by (auto simp: worker_loop_of_simps)
next
  case (Fails s s1 fs evs s2 ws)
  show ?case
    using batch_run_result [OF Fails(6) worker_wake_pc(1) assms(2)] Fails(7) others_same(1) [OF Fails(1)]
      worker_wake_pc(2) [of pf fs s1]
    by (auto simp: worker_loop_of_simps)
next
  case (Again s s1 fs evs s2 ws s')
  show ?case
    using batch_run_result [OF Again(6) worker_wake_pc(1) assms(2)] Again(7,9) others_same(1) [OF Again(1)]
      worker_handle_pcs(4) [of pf s2] worker_wake_pc(2) [of pf fs s1]
    by (auto simp: worker_loop_of_simps)
qed

lemma worker_run_reach:
  assumes "worker_run pf t s ws s'" "ft_reach pf s k"
  shows "ft_reach pf s' k"
  using assms
  by (induction rule: worker_run.induct) (blast intro: others_reach batch_run_reach ft_reach.Wake ft_reach.Handle)+

text \<open>C25 (\<^verbatim>\<open>_worker_impl\<close> on Linux and macOS): in every run of the system, whatever the writers do and whenever \<open>stop\<close> is called, the
  worker's loop returns on the results that the run gives its waits and reads; it returns without an exception exactly when the
  run comes to its end by the exit pipe, and the spans it has handed to the callback are those of the run: together the bytes of the file
  from where the constructor started, up to the position, each once and in order.\<close>

theorem worker_run_refines:
  assumes "ft_reach pf s k" and "worker_run pf t s ws s'" and "td_exit_read t \<noteq> td_event t"
  shows "\<exists>r. worker_loop_of pf t ws (ft_spans s) = Some (ft_spans s', r) \<and> (r = Inr () \<longleftrightarrow> ft_pc s' = Ended) \<and>
    concat (ft_spans s') = drop k (take (ft_pos s') (ft_content s'))"
proof -
  have "concat (ft_spans s') = drop k (take (ft_pos s') (ft_content s'))"
    using ft_reach_delivered [OF worker_run_reach [OF assms(2,1)]] by (simp add: delivered_ok_def)
  then show ?thesis using worker_run_result [OF assms(2,3)] by auto
qed

lemmas trigger_eval = ft_new_def ctor_turn_def read_data_turn_def worker_start_def file_append_def ft_stop_def worker_wake_def worker_handle_def
  drain_inotify_def worker_read_def may_read_def ready_fds_def Let_def

lemma demo_start:
  "ft_reach Linux (worker_start (ctor_turn (ReadBytes []) (ctor_turn (ReadBytes ''ab'') (ft_new Linux ''ab'' 0 4 True)))) 0"
proof -
  let ?n = "ft_new Linux ''ab'' 0 4 True"
  have 1: "ft_reach Linux ?n 0" by (rule ft_reach.New) simp_all
  have 2: "ft_reach Linux (ctor_turn (ReadBytes ''ab'') ?n) 0"
    using ft_reach.Ctor [OF 1, of "ReadBytes ''ab''"] by (simp add: trigger_eval)
  have 3: "ft_reach Linux (ctor_turn (ReadBytes []) (ctor_turn (ReadBytes ''ab'') ?n)) 0"
    using ft_reach.Ctor [OF 2, of "ReadBytes []"] by (simp add: trigger_eval)
  show ?thesis using ft_reach.Start [OF 3] by (simp add: trigger_eval)
qed

theorem worker_run_refines_witness:
  "let s = worker_start (ctor_turn (ReadBytes []) (ctor_turn (ReadBytes ''ab'') (ft_new Linux ''ab'' 0 4 True)));
       t = \<lparr>td_hndl = 4, td_event = 5, td_exit_read = 6, td_exit_write = 7\<rparr>;
       ws = [WaitFailed EINTR, WaitEvents [(5, False, [ReadError EINTR, ReadBytes ''c'', ReadBytes []]), (6, False, [])]]
   in \<exists>s'. worker_run Linux t s ws s' \<and> ft_pc s' = Ended \<and> ft_content s' = ''abc'' \<and>
     worker_loop_of Linux t ws (ft_spans s) = Some (ft_spans s', Inr ()) \<and> concat (ft_spans s') = ''abc''"
proof -
  let ?n = "ft_new Linux ''ab'' 0 4 True"
  let ?s = "worker_start (ctor_turn (ReadBytes []) (ctor_turn (ReadBytes ''ab'') ?n))"
  let ?t = "\<lparr>td_hndl = 4, td_event = 5, td_exit_read = 6, td_exit_write = 7\<rparr>"
  let ?rs = "[ReadError EINTR, ReadBytes ''c'', ReadBytes []]"
  let ?o = "fst (ft_stop True (file_append ''c'' ?s))"
  let ?w = "worker_wake Linux [TargetEvent, ExitPipe] ?o"
  let ?r = "worker_handle Linux ?w"
  let ?r1 = "worker_read (ReadError EINTR) ?r"
  let ?r2 = "worker_read (ReadBytes ''c'') ?r1"
  let ?r3 = "worker_read (ReadBytes []) ?r2"
  let ?h = "worker_handle Linux ?r3"
  have "reads_run ?r2 [ReadBytes []] ?r3"
    by (rule reads_run.Last [OF others.Idle, where fs = "[ExitPipe]" and x = False]) (simp_all add: trigger_eval)
  then have "reads_run ?r1 [ReadBytes ''c'', ReadBytes []] ?r3"
    by (rule reads_run.More [OF others.Idle, where fs = "[ExitPipe]" and x = False, rotated -1]) (simp_all add: trigger_eval)
  then have reads: "reads_run ?r ?rs ?r3"
    by (rule reads_run.More [OF others.Idle, where fs = "[ExitPipe]" and x = False, rotated -1]) (simp_all add: trigger_eval)
  have "batch_run Linux ?t ?h [] ?h" by (rule batch_run.Done [OF others.Idle, where x = True]) (simp add: trigger_eval)
  then have "batch_run Linux ?t ?r3 [stop_event ?t] ?h"
    by (rule batch_run.Exit [OF others.Idle, where fs = "[]" and x = False, rotated -1]) (simp add: trigger_eval)
  then have batch: "batch_run Linux ?t ?w [target_event Linux ?t ?rs, stop_event ?t] ?h"
    by (rule batch_run.Target [OF others.Idle _ reads, where x = False, rotated -1]) (simp_all add: trigger_eval)
  have "worker_run Linux ?t ?s [WaitEvents [target_event Linux ?t ?rs, stop_event ?t]] (worker_handle Linux ?h)"
    by (rule worker_run.Ends [OF others.Stop [OF others.Append [OF others.Idle]] _ _ _ _ batch]) (auto simp: trigger_eval)
  then have run: "worker_run Linux ?t ?s [WaitFailed EINTR, WaitEvents [target_event Linux ?t ?rs, stop_event ?t]] (worker_handle Linux ?h)"
    by (rule worker_run.Interrupted [OF others.Idle, rotated -1]) (simp add: trigger_eval)
  have fin: "ft_pc (worker_handle Linux ?h) = Ended" "ft_content (worker_handle Linux ?h) = ''abc''" "ft_pos (worker_handle Linux ?h) = 3"
    by (simp_all add: trigger_eval)
  show ?thesis
    using worker_run_refines [OF demo_start run] fin run unfolding Let_def by (auto simp: target_event_def stop_event_def)
qed

end
