(* ===== verification/Backtrace.thy ===== *)
theory Backtrace
  imports StringTools Charconv
begin

text \<open>
  Printing of exceptions and stack traces: \<^verbatim>\<open>nstl/exception.cpp\<close>, \<^verbatim>\<open>backtrace_linux.cpp\<close>, \<^verbatim>\<open>backtrace_win32.cpp\<close> and
  \<^verbatim>\<open>backtrace_common.cpp\<close>. The base that a stream writes numbers in is part of its state here: the traces change it. What libbacktrace
  and dbghelp find is given.
\<close>

section \<open>Definitions\<close>

subsection \<open>Streams with a number base\<close>

record numstream =
  ns_text :: string
  ns_hex :: bool

definition ns_put :: "string \<Rightarrow> numstream \<Rightarrow> numstream" where
  "ns_put t s = s\<lparr>ns_text := ns_text s @ t\<rparr>"

definition ns_to_hex :: "numstream \<Rightarrow> numstream" where
  "ns_to_hex s = s\<lparr>ns_hex := True\<rparr>"

definition hex_char :: "nat \<Rightarrow> char" where
  "hex_char d = (if d < 10 then char_of (48 + d) else char_of (87 + d))"

fun show_hex :: "nat \<Rightarrow> string" where
  "show_hex n = (if n < 16 then [hex_char n] else show_hex (n div 16) @ [hex_char (n mod 16)])"

declare show_hex.simps [simp del]

text \<open>\<^verbatim>\<open>operator<<\<close> for an \<^verbatim>\<open>int\<close>, which is written as unsigned in hexadecimal, and for an unsigned number.\<close>

definition int_text :: "bool \<Rightarrow> int \<Rightarrow> string" where
  "int_text hex i = (if hex then show_hex (nat (i mod 2 ^ 32)) else show_int i)"

definition ns_put_int :: "int \<Rightarrow> numstream \<Rightarrow> numstream" where
  "ns_put_int i s = ns_put (int_text (ns_hex s) i) s"

definition ns_put_nat :: "nat \<Rightarrow> numstream \<Rightarrow> numstream" where
  "ns_put_nat n s = ns_put (if ns_hex s then show_hex n else show_nat n) s"

subsection \<open>exception.cpp\<close>

text \<open>An exception with its message and place, and what is nested in it: it need not be a \<^verbatim>\<open>std::nested_exception\<close>, and if it is one it may
  hold no exception, one that is no \<^verbatim>\<open>std::exception\<close>, or one that is.\<close>

datatype 'e nesting = NotNested | NestedNull | NestedOther | Nested 'e

datatype nested_exn = NestedExn (ne_what: string) (ne_file: cstring) (ne_line: int) (ne_nested: "nested_exn nesting")

definition exn_file :: "nested_exn \<Rightarrow> string" where
  "exn_file e = (case ne_file e of Some f \<Rightarrow> f | None \<Rightarrow> [])"

definition exn_line :: "nested_exn \<Rightarrow> int" where
  "exn_line e = ne_line e"

definition exn_new :: "string \<Rightarrow> cstring \<Rightarrow> int \<Rightarrow> nested_exn" where
  "exn_new val file line = NestedExn val file line NotNested"

text \<open>The message that \<^verbatim>\<open>NSTL2_THROW_EXCEPTION_IMPL\<close> makes, and the nested throw, which has the exception that is being handled
  inside: none, one that is no \<^verbatim>\<open>std::exception\<close> or one that is.\<close>

definition exn_message :: "string \<Rightarrow> int \<Rightarrow> string \<Rightarrow> string" where
  "exn_message file line detail = safe_basename_view file @ '':'' @ show_int line @ '' - '' @ detail"

definition throw_exn :: "string \<Rightarrow> int \<Rightarrow> string \<Rightarrow> nested_exn" where
  "throw_exn file line detail = exn_new (exn_message file line detail) (Some (safe_basename_view file)) line"

definition throw_nested :: "string \<Rightarrow> int \<Rightarrow> string \<Rightarrow> nested_exn option option \<Rightarrow> nested_exn" where
  "throw_nested file line detail current =
     NestedExn (exn_message file line detail) (Some (safe_basename_view file)) line
       (case current of None \<Rightarrow> NestedNull | Some None \<Rightarrow> NestedOther | Some (Some e) \<Rightarrow> Nested e)"

text \<open>\<^verbatim>\<open>macros.hpp\<close>: the same message in an exception of any type, which is made from its text.\<close>

definition nstl_throw_exception :: "(string \<Rightarrow> 'e) \<Rightarrow> string \<Rightarrow> int \<Rightarrow> string \<Rightarrow> 'e + 'a" where
  "nstl_throw_exception error file line detail = Inl (error (safe_basename_view file @ '':'' @ show_int line @ '' - '' @ detail))"

definition nstl_throw_exception_if :: "bool \<Rightarrow> (string \<Rightarrow> 'e) \<Rightarrow> string \<Rightarrow> int \<Rightarrow> string \<Rightarrow> 'e + unit" where
  "nstl_throw_exception_if cond error file line detail = (if cond then nstl_throw_exception error file line detail else Inr ())"

text \<open>How the printing ends: it returns, an exception that is no \<^verbatim>\<open>std::exception\<close> passes through it, or \<^verbatim>\<open>rethrow_nested\<close> calls
  \<^verbatim>\<open>std::terminate\<close> because there is nothing to throw.\<close>

datatype print_end = Printed | Escaped | Terminated

fun print_exception :: "numstream \<Rightarrow> nested_exn \<Rightarrow> nat \<Rightarrow> numstream \<times> print_end" where
  "print_exception os (NestedExn what file line nested) level =
     (let os = ns_put what (ns_put ''exception: '' (fold (\<lambda>_. ns_put '' '') [0..<level] os)) in
      case nested of
        NotNested \<Rightarrow> (os, Printed)
      | NestedNull \<Rightarrow> (os, Terminated)
      | NestedOther \<Rightarrow> (os, Escaped)
      | Nested e \<Rightarrow> print_exception (ns_put [char_of (10 :: nat)] os) e (level + 1))"

subsection \<open>backtrace_linux.cpp\<close>

text \<open>The information on one program counter: file, line and function, the texts may be null.\<close>

record pc_info =
  pi_pc :: nat
  pi_file :: cstring
  pi_line :: int
  pi_function :: cstring

definition cstring_view :: "cstring \<Rightarrow> string" where
  "cstring_view c = (case c of Some t \<Rightarrow> t | None \<Rightarrow> [])"

abbreviation "newline \<equiv> [char_of (10 :: nat) :: char]"

definition pc_cb :: "pc_info \<Rightarrow> numstream \<Rightarrow> numstream" where
  "pc_cb i oss =
     (let fn_view = safe_basename_view (cstring_view (pi_file i)); func_view = cstring_view (pi_function i);
          oss = (if fn_view \<noteq> [] then ns_put_int (pi_line i) (ns_put '':'' (ns_put fn_view oss)) else oss);
          oss = ns_put '')'' (ns_put_nat (pi_pc i) (ns_to_hex (ns_put ''('' oss)));
          oss = (if func_view \<noteq> [] then ns_put func_view (ns_put '' - '' oss) else oss)
      in ns_put newline oss)"

text \<open>\<open>infos\<close> is what \<^verbatim>\<open>backtrace_pcinfo\<close> calls the callback with, for one frame: more than one entry when functions are inlined.\<close>

definition frame_cb :: "pc_info list \<Rightarrow> numstream \<Rightarrow> numstream" where
  "frame_cb infos oss = fold pc_cb infos oss"

definition bt_header :: "string \<Rightarrow> string \<Rightarrow> int \<Rightarrow> numstream \<Rightarrow> numstream" where
  "bt_header func file line os =
     (let os = ns_put ''Backtrace'' os;
          os = (if func \<noteq> [] then
                  let os = ns_put '' from '' os;
                      os = (if file \<noteq> [] then ns_put_int line (ns_put '':'' (ns_put file os)) else os)
                  in ns_put func (ns_put '' -> '' os)
                else os)
      in ns_put ('':'' @ newline) os)"

text \<open>The state of libbacktrace, which is made once; a failed attempt is repeated by the next call. \<open>created\<close> is what
  \<^verbatim>\<open>backtrace_create_state\<close> returns.\<close>

definition backtrace_init :: "'b option \<Rightarrow> 'b option \<Rightarrow> 'b option" where
  "backtrace_init created bt_state = (case bt_state of None \<Rightarrow> created | Some s \<Rightarrow> Some s)"

text \<open>The callback for errors writes to \<^verbatim>\<open>std::cerr\<close>.\<close>

definition bt_error_cb :: "cstring \<Rightarrow> int \<Rightarrow> numstream \<Rightarrow> numstream" where
  "bt_error_cb msg errnum cerr =
     ns_put newline (ns_put (cstring_view msg) (ns_put ''): '' (ns_put_int errnum (ns_put ''BT error ('' cerr))))"

text \<open>\<open>None\<close> is a state that was not made; the frames are those that \<^verbatim>\<open>backtrace_simple\<close> reports.\<close>

definition pr_backtrace :: "pc_info list list option \<Rightarrow> string \<Rightarrow> string \<Rightarrow> int \<Rightarrow> numstream \<Rightarrow> numstream" where
  "pr_backtrace frames func file line os =
     (let os = bt_header func file line os in
      case frames of None \<Rightarrow> os | Some fs \<Rightarrow> fold frame_cb fs os)"

subsection \<open>backtrace_win32.cpp\<close>

text \<open>A frame: the address, the name of the symbol if \<^verbatim>\<open>SymFromAddr\<close> finds one, and file and line if \<^verbatim>\<open>SymGetLineFromAddr64\<close> does.\<close>

record sym_frame =
  sf_pc :: nat
  sf_name :: cstring
  sf_place :: "(string \<times> nat) option"

definition win_frame :: "sym_frame \<Rightarrow> numstream \<Rightarrow> numstream" where
  "win_frame f os =
     (let name_view = (case sf_name f of Some n \<Rightarrow> n | None \<Rightarrow> ''??'') in
      case sf_place f of
        Some (file, line) \<Rightarrow>
          ns_put newline (ns_put name_view (ns_put '' - '' (ns_put_nat line (ns_put '':'' (ns_put (safe_basename_view file) os)))))
      | None \<Rightarrow> ns_put newline (ns_put name_view (ns_put '' - '' (ns_put_nat (sf_pc f) (ns_to_hex os)))))"

definition win_pr_backtrace :: "sym_frame list \<Rightarrow> string \<Rightarrow> string \<Rightarrow> int \<Rightarrow> numstream \<Rightarrow> numstream" where
  "win_pr_backtrace frames func file line os = fold win_frame frames (bt_header func file line os)"

subsection \<open>backtrace_common.cpp\<close>

definition common_pr_backtrace :: "string \<Rightarrow> string \<Rightarrow> int \<Rightarrow> numstream \<Rightarrow> numstream" where
  "common_pr_backtrace func file line os =
     (if func \<noteq> [] then
        let os = ns_put ''Backtrace '' os;
            os = (if file \<noteq> [] then ns_put_int line (ns_put '':'' (ns_put file os)) else os)
        in ns_put func (ns_put '' -> '' os)
      else os)"

section \<open>Exceptions\<close>

lemma ns_put_put [simp]: "ns_put b (ns_put a s) = ns_put (a @ b) s"
  by (simp add: ns_put_def)

lemma ns_put_simps [simp]: "ns_hex (ns_put t s) = ns_hex s" "ns_text (ns_put t s) = ns_text s @ t"
  by (simp_all add: ns_put_def)

text \<open>The messages of an exception and of those nested in it, outermost first.\<close>

fun exn_chain :: "nested_exn \<Rightarrow> string list" where
  "exn_chain (NestedExn what file line nested) = what # (case nested of Nested e \<Rightarrow> exn_chain e | _ \<Rightarrow> [])"

fun exn_end :: "nested_exn \<Rightarrow> print_end" where
  "exn_end (NestedExn what file line nested) =
     (case nested of Nested e \<Rightarrow> exn_end e | NotNested \<Rightarrow> Printed | NestedNull \<Rightarrow> Terminated | NestedOther \<Rightarrow> Escaped)"

definition chain_line :: "nat \<Rightarrow> string \<Rightarrow> string" where
  "chain_line level what = replicate level (CHR '' '') @ ''exception: '' @ what"

lemma indent_text: "ns_text (fold (\<lambda>_. ns_put '' '') [0..<n] os) = ns_text os @ replicate n (CHR '' '')"
  by (induction n) (simp_all add: replicate_append_same)

fun chain_text :: "nat \<Rightarrow> string list \<Rightarrow> string" where
  "chain_text level [] = []"
| "chain_text level (w # ws) = chain_line level w @ (if ws = [] then [] else newline @ chain_text (Suc level) ws)"

lemma exn_chain_not_Nil [simp]: "exn_chain e \<noteq> []"
  by (cases e) simp

text \<open>\<^verbatim>\<open>operator<<\<close> writes one line for each exception of the chain, indented by its depth; it returns if and only if the innermost one has
  nothing nested in it.\<close>

theorem print_exception_text:
  "ns_text (fst (print_exception os e level)) = ns_text os @ chain_text level (exn_chain e) \<and>
     snd (print_exception os e level) = exn_end e"
proof (induction e arbitrary: os level)
  case (NestedExn what place number nested)
  then show ?case by (cases nested) (simp_all add: Let_def indent_text chain_line_def)
qed

text \<open>A chain of nested throws is printed from the outermost to the first one. The macro used outside of a handler makes an exception that
  ends the process when it is printed.\<close>

lemma throw_nested_chain:
  "exn_chain (throw_nested file line detail (Some (Some e))) = exn_message file line detail # exn_chain e"
  "exn_end (throw_nested file line detail (Some (Some e))) = exn_end e"
  "exn_end (throw_exn file line detail) = Printed"
  by (simp_all add: throw_nested_def throw_exn_def exn_new_def)

text \<open>The two families of macros make the same text, which has the base name of the file alone.\<close>

lemma nstl_throw_exception_text:
  "nstl_throw_exception error file line detail = Inl (error (ne_what (throw_exn file line detail)))"
  "nstl_throw_exception_if cond error file line detail = Inr () \<longleftrightarrow> \<not> cond"
  "path_sep \<notin> set file \<Longrightarrow> throw_exn (dir @ path_sep # file) line detail = NestedExn (file @ '':'' @ show_int line @ '' - '' @ detail) (Some file) line NotNested"
  by (simp_all add: nstl_throw_exception_def nstl_throw_exception_if_def throw_exn_def exn_new_def exn_message_def safe_basename_view_append)

lemma throw_nested_outside_handler: "snd (print_exception os (throw_nested file line detail None) level) = Terminated"
  by (simp add: throw_nested_def Let_def)

section \<open>Stack traces\<close>

lemma show_hex_digits: "n < 16 \<Longrightarrow> show_hex n = [hex_char n]"
  by (subst show_hex.simps) simp

definition pc_line :: "bool \<Rightarrow> pc_info \<Rightarrow> string" where
  "pc_line hex i =
     (let fn = safe_basename_view (cstring_view (pi_file i)); f = cstring_view (pi_function i) in
      (if fn = [] then [] else fn @ '':'' @ int_text hex (pi_line i)) @ ''('' @ show_hex (pi_pc i) @ '')'' @
      (if f = [] then [] else '' - '' @ f) @ newline)"

lemma pc_cb_text: "ns_text (pc_cb i s) = ns_text s @ pc_line (ns_hex s) i" "ns_hex (pc_cb i s)"
  by (simp_all add: pc_cb_def pc_line_def Let_def ns_put_int_def ns_put_nat_def ns_to_hex_def ns_put_def)

lemma pc_cbs_text:
  "ns_text (fold pc_cb is s) = ns_text s @ (case is of [] \<Rightarrow> [] | i # is \<Rightarrow> pc_line (ns_hex s) i @ concat (map (pc_line True) is))"
proof (induction "is" arbitrary: s)
  case (Cons i "is")
  then show ?case using pc_cb_text [of i s] by (cases "is") simp_all
qed simp

lemma frames_flat: "fold frame_cb fs s = fold pc_cb (concat fs) s"
  by (induction fs arbitrary: s) (simp_all add: frame_cb_def)

text \<open>On Linux the trace is one line for each entry that was found. The address is written in hexadecimal and the base of the stream is
  not set back: the line number of the first entry is in the base the stream had, that of every other entry is in hexadecimal.\<close>

theorem pr_backtrace_text:
  "ns_text (pr_backtrace (Some fs) func file line os) = ns_text (bt_header func file line os) @
     (case concat fs of [] \<Rightarrow> [] | i # is \<Rightarrow> pc_line (ns_hex os) i @ concat (map (pc_line True) is))"
proof -
  have "ns_hex (bt_header func file line os) = ns_hex os" by (simp add: bt_header_def Let_def ns_put_int_def)
  then show ?thesis by (simp add: pr_backtrace_def frames_flat pc_cbs_text del: concat_eq_Nil_conv Nil_eq_concat_conv split: list.split)
qed

lemma second_line_in_hex:
  "pc_line True \<lparr>pi_pc = 0, pi_file = Some ''a.cpp'', pi_line = 26, pi_function = None\<rparr> = ''a.cpp:1a(0)'' @ newline \<and>
   pc_line False \<lparr>pi_pc = 0, pi_file = Some ''a.cpp'', pi_line = 26, pi_function = None\<rparr> = ''a.cpp:26(0)'' @ newline"
  by code_simp

text \<open>On Windows it is the frames with a place that follow one without.\<close>

lemma win_frame_hex: "ns_hex (win_frame f s) \<longleftrightarrow> ns_hex s \<or> sf_place f = None"
  by (cases "sf_place f") (simp_all add: win_frame_def Let_def ns_put_nat_def ns_to_hex_def ns_put_def split: prod.split)

end
