(* ===== verification/Support.thy ===== *)
theory Support
  imports StringTools
begin

text \<open>
  The small pieces: \<^verbatim>\<open>nstl/memory.hpp\<close> (observing pointers), \<^verbatim>\<open>ro_buffer.hpp\<close> (a stream buffer over memory that is only read),
  \<^verbatim>\<open>scope_exit.hpp\<close>, \<^verbatim>\<open>unlock_guard.hpp\<close>, \<^verbatim>\<open>global_init.cpp\<close> and the rest of \<^verbatim>\<open>secure_string.hpp\<close>.
\<close>

section \<open>Definitions\<close>

subsection \<open>memory.hpp\<close>

text \<open>A pointer is an address, 0 is \<^verbatim>\<open>nullptr\<close>; \<^verbatim>\<open>std::less\<close> orders the addresses. An observer does not own its object: no operation frees
  anything. The constructors from owning pointers take what their \<^verbatim>\<open>get\<close> returns.\<close>

datatype observer_ptr = Observer nat

definition obs_default :: observer_ptr where
  "obs_default = Observer 0"

definition obs_new :: "nat \<Rightarrow> observer_ptr" where
  "obs_new p = Observer p"

primrec obs_get :: "observer_ptr \<Rightarrow> nat" where
  "obs_get (Observer p) = p"

definition obs_convert :: "observer_ptr \<Rightarrow> observer_ptr" where
  "obs_convert other = Observer (obs_get other)"

definition make_observer :: "nat \<Rightarrow> observer_ptr" where
  "make_observer p = obs_new p"

definition obs_bool :: "observer_ptr \<Rightarrow> bool" where
  "obs_bool o1 = (obs_get o1 \<noteq> 0)"

text \<open>\<^verbatim>\<open>operator*\<close> in a store of objects: no object, and a null pointer, is undefined.\<close>

definition obs_deref :: "(nat \<rightharpoonup> 'a) \<Rightarrow> observer_ptr \<Rightarrow> 'a result" where
  "obs_deref store o1 =
     (if obs_get o1 = 0 then Inl Undefined else case store (obs_get o1) of None \<Rightarrow> Inl Undefined | Some x \<Rightarrow> Inr x)"

definition obs_release :: "observer_ptr \<Rightarrow> observer_ptr \<times> nat" where
  "obs_release o1 = (Observer 0, obs_get o1)"

definition obs_reset :: "nat \<Rightarrow> observer_ptr \<Rightarrow> observer_ptr" where
  "obs_reset p o1 = Observer p"

definition obs_swap :: "observer_ptr \<Rightarrow> observer_ptr \<Rightarrow> observer_ptr \<times> observer_ptr" where
  "obs_swap a b = (b, a)"

definition obs_eq :: "observer_ptr \<Rightarrow> observer_ptr \<Rightarrow> bool" where
  "obs_eq a b = (obs_get a = obs_get b)"

definition obs_neq :: "observer_ptr \<Rightarrow> observer_ptr \<Rightarrow> bool" where
  "obs_neq a b = (obs_get a \<noteq> obs_get b)"

definition obs_eq_null :: "observer_ptr \<Rightarrow> bool" where
  "obs_eq_null p = (\<not> obs_bool p)"

definition obs_neq_null :: "observer_ptr \<Rightarrow> bool" where
  "obs_neq_null p = obs_bool p"

definition obs_less :: "observer_ptr \<Rightarrow> observer_ptr \<Rightarrow> bool" where
  "obs_less a b = (obs_get a < obs_get b)"

definition obs_greater :: "observer_ptr \<Rightarrow> observer_ptr \<Rightarrow> bool" where
  "obs_greater a b = obs_less b a"

definition obs_less_eq :: "observer_ptr \<Rightarrow> observer_ptr \<Rightarrow> bool" where
  "obs_less_eq a b = (\<not> obs_less b a)"

definition obs_greater_eq :: "observer_ptr \<Rightarrow> observer_ptr \<Rightarrow> bool" where
  "obs_greater_eq a b = (\<not> obs_less a b)"

definition obs_hash :: "(nat \<Rightarrow> u64) \<Rightarrow> observer_ptr \<Rightarrow> u64" where
  "obs_hash ptr_hash p = ptr_hash (obs_get p)"

text \<open>The comparisons of the source make the observers a linear order.\<close>

instantiation observer_ptr :: linorder
begin

definition less_observer_ptr where
  "a < b = obs_less a b"

definition less_eq_observer_ptr where
  "a \<le> b = obs_less_eq a b"

instance
proof
  fix a b c :: observer_ptr
  show "a < b \<longleftrightarrow> a \<le> b \<and> \<not> b \<le> a" "a \<le> a" "a \<le> b \<or> b \<le> a"
    by (auto simp: less_observer_ptr_def less_eq_observer_ptr_def obs_less_eq_def obs_less_def)
  show "a \<le> b \<Longrightarrow> b \<le> c \<Longrightarrow> a \<le> c"
    by (auto simp: less_eq_observer_ptr_def obs_less_eq_def obs_less_def)
  show "a \<le> b \<Longrightarrow> b \<le> a \<Longrightarrow> a = b"
    by (cases a; cases b) (auto simp: less_eq_observer_ptr_def obs_less_eq_def obs_less_def)
qed

end

subsection \<open>ro_buffer.hpp\<close>

text \<open>The get area: the characters between \<^verbatim>\<open>eback\<close> and \<^verbatim>\<open>egptr\<close>, and \<^verbatim>\<open>gptr\<close> as an index. The put area is empty.\<close>

record ro_buffer =
  rb_area :: string
  rb_gptr :: nat

text \<open>The memory from the pointer on, or \<open>None\<close> when it is null; a size beyond it is undefined.\<close>

definition ro_buffer_new :: "string option \<Rightarrow> nat \<Rightarrow> ro_buffer result" where
  "ro_buffer_new ptr sz =
     throw_if (ptr = None \<and> 0 < sz) (NstlException ''nullptr with non-null size ('')
       (case ptr of
          None \<Rightarrow> Inr \<lparr>rb_area = [], rb_gptr = 0\<rparr>
        | Some mem \<Rightarrow> throw_if (length mem < sz) Undefined (Inr \<lparr>rb_area = take sz mem, rb_gptr = 0\<rparr>))"

text \<open>The constructor from a view, which has its own size.\<close>

definition ro_buffer_view :: "string \<Rightarrow> ro_buffer result" where
  "ro_buffer_view strview = ro_buffer_new (Some strview) (length strview)"

definition readBytes :: "ro_buffer \<Rightarrow> nat" where
  "readBytes b = rb_gptr b"

definition ro_content :: "ro_buffer \<Rightarrow> string" where
  "ro_content b = rb_area b"

definition ro_swap :: "ro_buffer \<Rightarrow> ro_buffer \<Rightarrow> ro_buffer \<times> ro_buffer" where
  "ro_swap a b = (b, a)"

text \<open>The virtual functions; \<open>None\<close> is \<^verbatim>\<open>traits_type::eof()\<close>.\<close>

definition ro_overflow :: "char \<Rightarrow> ro_buffer \<Rightarrow> char option \<times> ro_buffer" where
  "ro_overflow c b = (None, b)"

definition ro_sync :: "ro_buffer \<Rightarrow> int \<times> ro_buffer" where
  "ro_sync b = (- 1, b)"

definition ro_underflow :: "ro_buffer \<Rightarrow> char option \<times> ro_buffer" where
  "ro_underflow b = (None, b)"

definition ro_pbackfail :: "char \<Rightarrow> ro_buffer \<Rightarrow> char option \<times> ro_buffer" where
  "ro_pbackfail c b = (None, b)"

text \<open>The functions of \<^verbatim>\<open>std::basic_streambuf\<close> that a stream calls: they work on the areas and call the virtual functions at their
  ends.\<close>

definition ro_sgetc :: "ro_buffer \<Rightarrow> char option \<times> ro_buffer" where
  "ro_sgetc b = (if rb_gptr b < length (rb_area b) then (Some (rb_area b ! rb_gptr b), b) else ro_underflow b)"

definition ro_sbumpc :: "ro_buffer \<Rightarrow> char option \<times> ro_buffer" where
  "ro_sbumpc b =
     (if rb_gptr b < length (rb_area b) then (Some (rb_area b ! rb_gptr b), b\<lparr>rb_gptr := Suc (rb_gptr b)\<rparr>) else ro_underflow b)"

definition ro_sputc :: "char \<Rightarrow> ro_buffer \<Rightarrow> char option \<times> ro_buffer" where
  "ro_sputc c b = ro_overflow c b"

definition ro_sputbackc :: "char \<Rightarrow> ro_buffer \<Rightarrow> char option \<times> ro_buffer" where
  "ro_sputbackc c b =
     (if 0 < rb_gptr b \<and> rb_area b ! (rb_gptr b - 1) = c then (Some c, b\<lparr>rb_gptr := rb_gptr b - 1\<rparr>) else ro_pbackfail c b)"

datatype ro_op = Sgetc | Sbumpc | Sputc char | Sputbackc char | Sync

fun ro_step :: "ro_op \<Rightarrow> ro_buffer \<Rightarrow> ro_buffer" where
  "ro_step Sgetc b = snd (ro_sgetc b)"
| "ro_step Sbumpc b = snd (ro_sbumpc b)"
| "ro_step (Sputc c) b = snd (ro_sputc c b)"
| "ro_step (Sputbackc c) b = snd (ro_sputbackc c b)"
| "ro_step Sync b = snd (ro_sync b)"

fun ro_read :: "nat \<Rightarrow> ro_buffer \<Rightarrow> string \<times> ro_buffer" where
  "ro_read 0 b = ([], b)"
| "ro_read (Suc n) b =
     (case ro_sbumpc b of (None, b) \<Rightarrow> ([], b) | (Some c, b) \<Rightarrow> (case ro_read n b of (cs, b) \<Rightarrow> (c # cs, b)))"

subsection \<open>scope_exit.hpp\<close>

text \<open>The function that a guard holds acts on a state; the destructor runs it if there is one.\<close>

type_synonym 's scope_guard = "('s \<Rightarrow> 's) option"

definition on_scope_exit :: "('s \<Rightarrow> 's) \<Rightarrow> 's scope_guard" where
  "on_scope_exit f = Some f"

definition scope_reset :: "'s scope_guard \<Rightarrow> 's scope_guard" where
  "scope_reset g = None"

definition scope_swap :: "'s scope_guard \<Rightarrow> ('s \<Rightarrow> 's) option \<Rightarrow> 's scope_guard \<times> ('s \<Rightarrow> 's) option" where
  "scope_swap g f = (f, g)"

definition scope_empty :: "'s scope_guard \<Rightarrow> bool" where
  "scope_empty g = (g = None)"

definition scope_delete :: "'s scope_guard \<Rightarrow> 's \<Rightarrow> 's" where
  "scope_delete g s = (case g of Some f \<Rightarrow> f s | None \<Rightarrow> s)"

subsection \<open>unlock_guard.hpp\<close>

text \<open>The mutexes that the thread holds. Unlocking one that is not held and locking one that is held are undefined for
  \<^verbatim>\<open>std::mutex\<close>; a lock is taken when its other holders have left.\<close>

fun unlock_all :: "nat list \<Rightarrow> nat set \<Rightarrow> nat set result" where
  "unlock_all [] held = Inr held"
| "unlock_all (m # ms) held = throw_if (m \<notin> held) Undefined (unlock_all ms (held - {m}))"

fun lock_all :: "nat list \<Rightarrow> nat set \<Rightarrow> nat set result" where
  "lock_all [] held = Inr held"
| "lock_all (m # ms) held = throw_if (m \<in> held) Undefined (lock_all ms (insert m held))"

definition unlock_guard_new :: "nat list \<Rightarrow> nat set \<Rightarrow> nat set result" where
  "unlock_guard_new locks held = unlock_all locks held"

definition unlock_guard_defer :: "nat list \<Rightarrow> nat set \<Rightarrow> nat set result" where
  "unlock_guard_defer locks held = Inr held"

definition unlock_guard_delete :: "nat list \<Rightarrow> nat set \<Rightarrow> nat set result" where
  "unlock_guard_delete locks held = lock_all locks held"

subsection \<open>secure_string.hpp\<close>

definition nstl_wcslen :: "nat list option \<Rightarrow> nat" where
  "nstl_wcslen text = (case text of Some t \<Rightarrow> length t | None \<Rightarrow> 0)"

text \<open>The memory behind a pointer, if it is not null.\<close>

definition secure_zero :: "u8 list option \<Rightarrow> nat \<Rightarrow> u8 list option result" where
  "secure_zero ptr sz =
     (case ptr of
        None \<Rightarrow> Inr None
      | Some mem \<Rightarrow>
          if sz = 0 then Inr (Some mem)
          else throw_if (length mem < sz) Undefined (Inr (Some (replicate sz 0 @ drop sz mem))))"

subsection \<open>global_init.cpp\<close>

text \<open>The two variables of the file, the signals that are blocked, the signal descriptors that are open, and how often the libraries
  have been set up: libbacktrace, libcurl and Winsock.\<close>

record global_state =
  gi_done :: bool
  gi_sfd :: int
  gi_blocked :: "int set"
  gi_open :: "int list"
  gi_backtrace :: nat
  gi_curl :: nat
  gi_wsa :: nat

datatype gi_platform = GiLinux | GiMac | GiWin

text \<open>What \<^verbatim>\<open>sigprocmask\<close>, \<^verbatim>\<open>signalfd\<close>, \<^verbatim>\<open>curl_global_init\<close> and \<^verbatim>\<open>WSAStartup\<close> return.\<close>

record gi_calls =
  gc_sigprocmask :: int
  gc_signalfd :: int
  gc_curl :: nat
  gc_wsa :: int

definition openSignalFile :: "gi_platform \<Rightarrow> gi_calls \<Rightarrow> bool \<Rightarrow> global_state \<Rightarrow> global_state \<times> int result" where
  "openSignalFile pf gc signal_init g =
     (if pf \<noteq> GiLinux \<or> \<not> signal_init then (g, Inr (- 1))
      else if gc_sigprocmask gc < 0 then (g, Inl (NstlException ''sigprocmask failed''))
      else
        let g = g\<lparr>gi_blocked := gi_blocked g \<union> {SIGINT, SIGTERM, SIGQUIT}\<rparr> in
        if gc_signalfd gc < 0 then (g, Inl (NstlException ''signalfd failed''))
        else (g\<lparr>gi_open := gi_open g @ [gc_signalfd gc]\<rparr>, Inr (gc_signalfd gc)))"

definition getSignalFile :: "global_state \<Rightarrow> int" where
  "getSignalFile g = gi_sfd g"

definition global_init_new :: "gi_platform \<Rightarrow> gi_calls \<Rightarrow> bool \<Rightarrow> bool \<Rightarrow> global_state \<Rightarrow> global_state \<times> unit result" where
  "global_init_new pf gc signal_init curl_init g =
     (if gi_done g then (g, Inl (NstlException ''global_init did run once''))
      else
        case openSignalFile pf gc signal_init (g\<lparr>gi_done := True\<rparr>) of
          (g, Inl e) \<Rightarrow> (g, Inl e)
        | (g, Inr sfd) \<Rightarrow>
            let g = g\<lparr>gi_sfd := sfd, gi_backtrace := Suc (gi_backtrace g)\<rparr> in
            if curl_init
            then if gc_curl gc \<noteq> 0 then (g, Inl (NstlException ''curl_global_init failed: ''))
                 else (g\<lparr>gi_curl := Suc (gi_curl g)\<rparr>, Inr ())
            else if pf = GiWin
            then if gc_wsa gc \<noteq> 0 then (g, Inl (NstlException ''TCP/IP init failed''))
                 else (g\<lparr>gi_wsa := Suc (gi_wsa g)\<rparr>, Inr ())
            else (g, Inr ()))"

definition global_init_delete :: "gi_platform \<Rightarrow> bool \<Rightarrow> global_state \<Rightarrow> global_state" where
  "global_init_delete pf curl_init g =
     (let g = (if curl_init then g\<lparr>gi_curl := gi_curl g - 1\<rparr> else if pf = GiWin then g\<lparr>gi_wsa := gi_wsa g - 1\<rparr> else g) in
      if pf = GiLinux
      then if 0 \<le> gi_sfd g then g\<lparr>gi_open := remove1 (gi_sfd g) (gi_open g), gi_sfd := - 1\<rparr> else g\<lparr>gi_sfd := - 1\<rparr>
      else g)"

definition global_start :: global_state where
  "global_start = \<lparr>gi_done = False, gi_sfd = - 1, gi_blocked = {}, gi_open = [], gi_backtrace = 0, gi_curl = 0, gi_wsa = 0\<rparr>"

section \<open>Theorems\<close>

lemmas observer_defs =
  less_observer_ptr_def less_eq_observer_ptr_def obs_eq_def obs_neq_def obs_eq_null_def obs_neq_null_def obs_bool_def obs_less_def
  obs_greater_def obs_less_eq_def obs_greater_eq_def

lemma obs_get_inject: "obs_get a = obs_get b \<longleftrightarrow> a = b"
  by (cases a; cases b) simp

text \<open>The other comparisons are those of the order, the default observer is its least element, and equal observers have equal
  hashes.\<close>

lemma observer_order:
  "obs_eq a b \<longleftrightarrow> a = b" "obs_neq a b \<longleftrightarrow> a \<noteq> b" "obs_greater a b \<longleftrightarrow> b < a" "obs_greater_eq a b \<longleftrightarrow> b \<le> a"
  "obs_eq_null a \<longleftrightarrow> a = obs_default" "obs_neq_null a \<longleftrightarrow> obs_default < a" "obs_default \<le> a"
  "obs_eq a b \<Longrightarrow> obs_hash h a = obs_hash h b"
  using obs_get_inject [of a b] obs_get_inject [of a obs_default]
  by (auto simp: observer_defs obs_default_def obs_hash_def)

lemma observer_pointer:
  "obs_get (make_observer p) = p" "obs_release (make_observer p) = (obs_default, p)" "obs_get (obs_reset p a) = p"
  "obs_convert a = a" "obs_deref store obs_default = Inl Undefined"
  by (cases a; simp add: make_observer_def obs_new_def obs_release_def obs_default_def obs_reset_def obs_convert_def obs_deref_def)+

text \<open>Nothing a stream does changes the characters, and the position stays within them.\<close>

definition ro_ok :: "ro_buffer \<Rightarrow> bool" where
  "ro_ok b = (rb_gptr b \<le> length (rb_area b))"

lemma ro_step_keeps:
  "ro_ok b \<Longrightarrow> ro_ok (ro_step op b) \<and> ro_content (ro_step op b) = ro_content b"
  by (cases op) (auto simp: ro_ok_def ro_content_def ro_sgetc_def ro_sbumpc_def ro_sputc_def ro_sputbackc_def ro_sync_def
      ro_underflow_def ro_overflow_def ro_pbackfail_def)

theorem ro_run_keeps:
  "ro_ok b \<Longrightarrow> ro_ok (fold ro_step ops b) \<and> ro_content (fold ro_step ops b) = ro_content b \<and>
     readBytes (fold ro_step ops b) \<le> length (ro_content b)"
proof (induction ops arbitrary: b)
  case Nil
  then show ?case by (simp add: ro_ok_def ro_content_def readBytes_def)
next
  case (Cons op ops)
  have "ro_ok (ro_step op b)" "ro_content (ro_step op b) = ro_content b" using ro_step_keeps [OF Cons.prems] by blast+
  with Cons.IH [of "ro_step op b"] show ?case by simp
qed

text \<open>Reading gives the characters in order, then the end of the file.\<close>

theorem ro_read_content:
  "ro_ok b \<Longrightarrow> ro_read n b = (take n (drop (rb_gptr b) (rb_area b)), b\<lparr>rb_gptr := min (rb_gptr b + n) (length (rb_area b))\<rparr>)"
proof (induction n arbitrary: b)
  case (Suc n)
  show ?case
  proof (cases "rb_gptr b < length (rb_area b)")
    case True
    then have "ro_ok (b\<lparr>rb_gptr := Suc (rb_gptr b)\<rparr>)" by (simp add: ro_ok_def)
    then show ?thesis
      using Suc.IH [of "b\<lparr>rb_gptr := Suc (rb_gptr b)\<rparr>"] True
      by (simp add: ro_sbumpc_def Cons_nth_drop_Suc [symmetric])
  next
    case False
    then show ?thesis using Suc.prems by (simp add: ro_sbumpc_def ro_underflow_def ro_ok_def)
  qed
qed (simp add: ro_ok_def)

text \<open>A scope with an unlock guard on different mutexes that the thread holds ends with the same mutexes held, and with none of them
  held in between.\<close>

lemma unlock_all_eq: "distinct ms \<Longrightarrow> set ms \<subseteq> held \<Longrightarrow> unlock_all ms held = Inr (held - set ms)"
proof (induction ms arbitrary: held)
  case (Cons m ms)
  then have "unlock_all ms (held - {m}) = Inr (held - {m} - set ms)" by (intro Cons.IH) auto
  moreover have "held - {m} - set ms = held - set (m # ms)" by auto
  ultimately show ?case using Cons.prems by simp
qed simp

lemma lock_all_eq: "distinct ms \<Longrightarrow> set ms \<inter> held = {} \<Longrightarrow> lock_all ms held = Inr (held \<union> set ms)"
  by (induction ms arbitrary: held) (auto simp: throw_if_def)

theorem unlock_guard_restores:
  assumes "distinct locks" "set locks \<subseteq> held"
  shows "unlock_guard_new locks held = Inr (held - set locks)"
    and "bind_result (unlock_guard_new locks held) (unlock_guard_delete locks) = Inr held"
  using assms unlock_all_eq [OF assms] lock_all_eq [of locks "held - set locks"]
  by (auto simp: unlock_guard_new_def unlock_guard_delete_def Un_absorb2)

text \<open>The deferred guard does not unlock: with a mutex that is held its destructor locks it again.\<close>

lemma unlock_guard_defer_relocks:
  "m \<in> held \<Longrightarrow> bind_result (unlock_guard_defer [m] held) (unlock_guard_delete [m]) = Inl Undefined"
  by (simp add: unlock_guard_defer_def unlock_guard_delete_def)

text \<open>The set-up runs once: after a first attempt, successful or not, each further one throws and changes nothing.\<close>

lemma global_init_once:
  "gi_done (fst (global_init_new pf gc si ci g))" "gi_done g \<Longrightarrow> global_init_new pf gc si ci g = (g, Inl (NstlException ''global_init did run once''))"
  by (auto simp: global_init_new_def openSignalFile_def Let_def split: if_splits)

text \<open>A successful set-up and its end leave no descriptor open and the libraries as they were; the signals stay blocked.\<close>

theorem global_init_balanced:
  assumes "global_init_new pf gc si ci global_start = (g, Inr ())"
  shows "gi_open (global_init_delete pf ci g) = [] \<and> getSignalFile (global_init_delete pf ci g) = - 1 \<and>
    gi_curl (global_init_delete pf ci g) = 0 \<and> gi_wsa (global_init_delete pf ci g) = 0 \<and>
    (0 \<le> getSignalFile g \<longleftrightarrow> pf = GiLinux \<and> si) \<and>
    gi_blocked (global_init_delete pf ci g) = (if pf = GiLinux \<and> si then {SIGINT, SIGTERM, SIGQUIT} else {})"
  using assms
  by (auto simp: global_init_new_def openSignalFile_def global_init_delete_def global_start_def getSignalFile_def Let_def split: if_splits)

text \<open>When libcurl cannot be set up the constructor throws, and no destructor closes the signal descriptor.\<close>

lemma global_init_leaks:
  "\<exists>g e. global_init_new GiLinux \<lparr>gc_sigprocmask = 0, gc_signalfd = 5, gc_curl = 2, gc_wsa = 0\<rparr> True True global_start = (g, Inl e) \<and>
     gi_open g = [5] \<and> gi_done g"
  by (simp add: global_init_new_def openSignalFile_def global_start_def Let_def)

end
