(* ===== verification/Numeric.thy ===== *)
theory Numeric
  imports NstlPrelude Complex_Main
begin

text \<open>
  Numbers and times: comparing and rounding of floating-point values (\<^verbatim>\<open>nstl/math.hpp\<close>, \<^verbatim>\<open>math.cpp\<close>), conversions between local
  and system time with the C library (\<^verbatim>\<open>c_timezone.hpp\<close>, \<^verbatim>\<open>c_timezone.cpp\<close>) and base64 (\<^verbatim>\<open>base64.hpp\<close>). A finite floating-point value is
  the rational number it stands for.
\<close>

section \<open>Definitions\<close>

subsection \<open>math.hpp and math.cpp\<close>

datatype fp = FpNan | FpInf bool | FpFinite rat

datatype fp_class = FP_INFINITE | FP_NAN | FP_ZERO | FP_SUBNORMAL | FP_NORMAL

text \<open>\<open>tiny\<close> is the least normal number of the type; the flag of an infinity is its sign bit.\<close>

fun fpclassify :: "rat \<Rightarrow> fp \<Rightarrow> fp_class" where
  "fpclassify tiny FpNan = FP_NAN"
| "fpclassify tiny (FpInf neg) = FP_INFINITE"
| "fpclassify tiny (FpFinite q) = (if q = 0 then FP_ZERO else if \<bar>q\<bar> < tiny then FP_SUBNORMAL else FP_NORMAL)"

fun signbit :: "fp \<Rightarrow> bool" where
  "signbit (FpInf neg) = neg"
| "signbit (FpFinite q) = (q < 0)"
| "signbit FpNan = False"

text \<open>The difference is rounded to the common type; \<open>rnd\<close> is this rounding, which may overflow.\<close>

fun fp_minus :: "(rat \<Rightarrow> fp) \<Rightarrow> fp \<Rightarrow> fp \<Rightarrow> fp" where
  "fp_minus rnd (FpFinite a) (FpFinite b) = rnd (a - b)"
| "fp_minus rnd _ _ = FpNan"

fun fabs_less :: "fp \<Rightarrow> fp \<Rightarrow> bool" where
  "fabs_less (FpFinite q) (FpFinite eps) = (\<bar>q\<bar> < eps)"
| "fabs_less (FpFinite q) (FpInf neg) = (\<not> neg)"
| "fabs_less _ _ = False"

text \<open>The literal is a \<^verbatim>\<open>double\<close>, \<open>rnd64\<close> is the rounding to it, and is cast to the common type.\<close>

definition default_eps :: "(rat \<Rightarrow> fp) \<Rightarrow> (rat \<Rightarrow> fp) \<Rightarrow> fp" where
  "default_eps rnd64 rnd = (case rnd64 (1 / 10 ^ 8) of FpFinite q \<Rightarrow> rnd q | v \<Rightarrow> v)"

definition float_eq :: "bool \<Rightarrow> (rat \<Rightarrow> fp) \<Rightarrow> rat \<Rightarrow> rat \<Rightarrow> fp \<Rightarrow> fp \<Rightarrow> fp \<Rightarrow> bool" where
  "float_eq nan_eq rnd ltiny rtiny left right eps =
     (let lcl = fpclassify ltiny left in
      if lcl \<noteq> fpclassify rtiny right then False
      else case lcl of
        FP_INFINITE \<Rightarrow> signbit left = signbit right
      | FP_NAN \<Rightarrow> nan_eq
      | FP_ZERO \<Rightarrow> True
      | _ \<Rightarrow> fabs_less (fp_minus rnd left right) eps)"

definition float_eq_default :: "bool \<Rightarrow> (rat \<Rightarrow> fp) \<Rightarrow> (rat \<Rightarrow> fp) \<Rightarrow> rat \<Rightarrow> rat \<Rightarrow> fp \<Rightarrow> fp \<Rightarrow> bool" where
  "float_eq_default nan_eq rnd64 rnd ltiny rtiny left right =
     float_eq nan_eq rnd ltiny rtiny left right (default_eps rnd64 rnd)"

text \<open>\<^verbatim>\<open>std::llround\<close>: half-way cases away from zero. Outside of \<^verbatim>\<open>long long\<close>, and for a value that is not finite, it raises \<^verbatim>\<open>FE_INVALID\<close>
  and its result is unspecified.\<close>

definition round_away :: "rat \<Rightarrow> int" where
  "round_away q = (if 0 \<le> q then \<lfloor>q + 1 / 2\<rfloor> else - \<lfloor>1 / 2 - q\<rfloor>)"

fun llround_valid :: "fp \<Rightarrow> bool" where
  "llround_valid (FpFinite q) = (- (2 ^ 63) \<le> round_away q \<and> round_away q < 2 ^ 63)"
| "llround_valid _ = False"

fun llround :: "(fp \<Rightarrow> int) \<Rightarrow> fp \<Rightarrow> int" where
  "llround unspec (FpFinite q) = (if llround_valid (FpFinite q) then round_away q else unspec (FpFinite q))"
| "llround unspec v = unspec v"

fun isfinite :: "fp \<Rightarrow> bool" where
  "isfinite (FpFinite q) = True"
| "isfinite _ = False"

text \<open>\<open>errexcept\<close> tells whether \<^verbatim>\<open>math_errhandling\<close> has \<^verbatim>\<open>MATH_ERREXCEPT\<close>.\<close>

definition safe_llround :: "bool \<Rightarrow> (fp \<Rightarrow> int) \<Rightarrow> fp \<Rightarrow> int result" where
  "safe_llround errexcept unspec val =
     (if errexcept
      then throw_if (\<not> llround_valid val) (RuntimeError '' cannot be converted to integer'') (Inr (llround unspec val))
      else if isfinite val then Inr (llround unspec val)
      else Inl (RuntimeError '' cannot be converted to integer''))"

text \<open>The target type is its signedness and its largest value.\<close>

definition round_val_func ::
    "bool \<Rightarrow> (fp \<Rightarrow> int) \<Rightarrow> bool \<Rightarrow> int \<Rightarrow> (fp \<Rightarrow> fp) \<Rightarrow> fp \<Rightarrow> int result" where
  "round_val_func errexcept unspec is_unsigned tmax func value =
     (if is_unsigned
      then bind_result (safe_llround errexcept unspec (func value)) (\<lambda>v.
        throw_if (v < 0) (InvalidArgument ''target is unsigned: value cannot be negative'')
          (throw_if (tmax < v) (OutOfRange ''resolve value is greater than the result'') (Inr v)))
      else bind_result (safe_llround errexcept unspec (func value)) (\<lambda>v.
        throw_if (v < - tmax - 1) (OutOfRange ''resolve value is less than the result's min'')
          (throw_if (tmax < v) (OutOfRange ''resolve value is greater than the result's max'') (Inr v))))"

fun fp_floor :: "fp \<Rightarrow> fp" where
  "fp_floor (FpFinite q) = FpFinite (of_int \<lfloor>q\<rfloor>)"
| "fp_floor v = v"

fun fp_ceil :: "fp \<Rightarrow> fp" where
  "fp_ceil (FpFinite q) = FpFinite (of_int \<lceil>q\<rceil>)"
| "fp_ceil v = v"

fun fp_negative :: "fp \<Rightarrow> bool" where
  "fp_negative (FpFinite q) = (q < 0)"
| "fp_negative (FpInf neg) = neg"
| "fp_negative FpNan = False"

definition round_val :: "bool \<Rightarrow> (fp \<Rightarrow> int) \<Rightarrow> bool \<Rightarrow> int \<Rightarrow> fp \<Rightarrow> int result" where
  "round_val errexcept unspec is_unsigned tmax value = round_val_func errexcept unspec is_unsigned tmax (\<lambda>v. v) value"

definition round_floor :: "bool \<Rightarrow> (fp \<Rightarrow> int) \<Rightarrow> bool \<Rightarrow> int \<Rightarrow> fp \<Rightarrow> int result" where
  "round_floor errexcept unspec is_unsigned tmax value =
     round_val_func errexcept unspec is_unsigned tmax (\<lambda>v. if fp_negative v then fp_ceil v else fp_floor v) value"

definition round_ceil :: "bool \<Rightarrow> (fp \<Rightarrow> int) \<Rightarrow> bool \<Rightarrow> int \<Rightarrow> fp \<Rightarrow> int result" where
  "round_ceil errexcept unspec is_unsigned tmax value =
     round_val_func errexcept unspec is_unsigned tmax (\<lambda>v. if fp_negative v then fp_floor v else fp_ceil v) value"

subsection \<open>c_timezone.hpp and c_timezone.cpp\<close>

text \<open>The functions of the C library on its broken-down time \<open>'tm\<close>; \<open>None\<close> is a null pointer. \<^verbatim>\<open>mktime\<close> sets the fields of its argument.\<close>

record 'tm ctime =
  ct_localtime :: "int \<Rightarrow> 'tm option"
  ct_gmtime :: "int \<Rightarrow> 'tm option"
  ct_timegm :: "'tm \<Rightarrow> int"
  ct_mktime :: "'tm \<Rightarrow> int \<times> 'tm"
  ct_isdst :: "'tm \<Rightarrow> int"
  ct_set_isdst :: "int \<Rightarrow> 'tm \<Rightarrow> 'tm"

definition to_local_common :: "'tm ctime \<Rightarrow> int \<Rightarrow> (int \<times> int) result" where
  "to_local_common ct utc_seconds =
     (case ct_localtime ct utc_seconds of
        None \<Rightarrow> Inl (NstlException ''date cannot be calculated'')
      | Some localtm \<Rightarrow>
          let ret_isdst = ct_isdst ct localtm; local_time = ct_timegm ct (ct_set_isdst ct 0 localtm) in
          throw_if (local_time = - 1) (NstlException ''epoch cannot be calculated'') (Inr (local_time, ret_isdst)))"

definition to_sys_common :: "'tm ctime \<Rightarrow> int \<Rightarrow> (int \<times> int) result" where
  "to_sys_common ct local_seconds =
     (case ct_gmtime ct local_seconds of
        None \<Rightarrow> Inl (NstlException ''date cannot be calculated'')
      | Some localtm \<Rightarrow>
          let (utc_time, localtm) = ct_mktime ct (ct_set_isdst ct (- 1) localtm) in
          throw_if (utc_time = - 1) (NstlException ''epoch cannot be calculated'') (Inr (utc_time, ct_isdst ct localtm)))"

record sys_info =
  si_begin :: int
  si_end :: int
  si_offset :: int
  si_save :: int
  si_abbrev :: string

text \<open>Seconds, but for \<^verbatim>\<open>save\<close>, which is in minutes.\<close>

definition get_sys_info :: "int \<Rightarrow> int \<Rightarrow> int \<Rightarrow> sys_info" where
  "get_sys_info sys_secs local_secs is_dst =
     \<lparr>si_begin = sys_secs, si_end = sys_secs + 1, si_offset = local_secs - sys_secs,
      si_save = 60 * (if is_dst < 0 then 0 else is_dst), si_abbrev = []\<rparr>"

text \<open>A time point is a number of ticks, \<open>den\<close> of them in a second.\<close>

definition to_sys :: "'tm ctime \<Rightarrow> int \<Rightarrow> int \<Rightarrow> int result" where
  "to_sys ct den tp =
     (let local_seconds = tp div den; local_sub_seconds = tp - local_seconds * den in
      bind_result (to_sys_common ct local_seconds) (\<lambda>(utc_seconds, _). Inr (utc_seconds * den + local_sub_seconds)))"

definition to_local :: "'tm ctime \<Rightarrow> int \<Rightarrow> int \<Rightarrow> int result" where
  "to_local ct den tp =
     (let utc_seconds = tp div den; utc_sub_seconds = tp - utc_seconds * den in
      bind_result (to_local_common ct utc_seconds) (\<lambda>(local_seconds, _). Inr (local_seconds * den + utc_sub_seconds)))"

text \<open>The result is \<^verbatim>\<open>unique\<close>, with the first and the second period.\<close>

definition get_local_info :: "'tm ctime \<Rightarrow> int \<Rightarrow> int \<Rightarrow> (sys_info \<times> sys_info) result" where
  "get_local_info ct den tp =
     (let local_secs = tp div den in
      bind_result (to_sys_common ct local_secs) (\<lambda>(sys_secs, is_dst).
        Inr (get_sys_info sys_secs local_secs is_dst,
             \<lparr>si_begin = 0, si_end = 0, si_offset = 0, si_save = 0, si_abbrev = []\<rparr>)))"

definition get_info :: "'tm ctime \<Rightarrow> int \<Rightarrow> int \<Rightarrow> sys_info result" where
  "get_info ct den tp =
     (let sys_secs = tp div den in
      bind_result (to_local_common ct sys_secs) (\<lambda>(local_secs, is_dst). Inr (get_sys_info sys_secs local_secs is_dst)))"

subsection \<open>base64.hpp\<close>

text \<open>The two iterator adaptors of Boost, on whole sequences: bytes to characters of six bits each, and back.\<close>

record b64_lib =
  b64_encode :: "u8 list \<Rightarrow> string"
  b64_decode :: "string \<Rightarrow> u8 list"

definition to_base64 :: "b64_lib \<Rightarrow> u8 list \<Rightarrow> string" where
  "to_base64 lib bytes =
     (if bytes = [] then []
      else b64_encode lib bytes @ replicate ((3 - length bytes mod 3) mod 3) (CHR ''=''))"

fun drop_padding :: "string \<Rightarrow> string" where
  "drop_padding text = (if text \<noteq> [] \<and> last text = CHR ''='' then drop_padding (butlast text) else text)"

declare drop_padding.simps [simp del]

definition from_base64 :: "b64_lib \<Rightarrow> string \<Rightarrow> u8 list" where
  "from_base64 lib text = (if text = [] then [] else b64_decode lib (drop_padding text))"

text \<open>What the adaptors do: a character for every six bits begun, none of them the padding, and decoding is the inverse.\<close>

definition b64_ok :: "b64_lib \<Rightarrow> bool" where
  "b64_ok lib =
     (\<forall>bytes. length (b64_encode lib bytes) = (8 * length bytes + 5) div 6 \<and> CHR ''='' \<notin> set (b64_encode lib bytes) \<and>
        b64_decode lib (b64_encode lib bytes) = bytes)"

section \<open>Comparing\<close>

text \<open>A rounding that is odd and keeps zero, as the modes of IEEE 754 to nearest are.\<close>

fun fp_neg :: "fp \<Rightarrow> fp" where
  "fp_neg FpNan = FpNan"
| "fp_neg (FpInf s) = FpInf (\<not> s)"
| "fp_neg (FpFinite q) = FpFinite (- q)"

lemma fabs_less_neg [simp]: "fabs_less (fp_neg v) eps = fabs_less v eps"
  by (cases v; cases eps) simp_all

lemma float_eq_sym:
  assumes "\<And>q. rnd (- q) = fp_neg (rnd q)"
  shows "float_eq nan_eq rnd lt rt a b eps = float_eq nan_eq rnd rt lt b a eps"
proof -
  have m: "fabs_less (fp_minus rnd b a) eps = fabs_less (fp_minus rnd a b) eps"
  proof (cases "\<exists>x y. a = FpFinite x \<and> b = FpFinite y")
    case True
    then obtain x y where xy: "a = FpFinite x" "b = FpFinite y" by blast
    then show ?thesis using assms [of "x - y"] by simp
  next
    case False
    then show ?thesis by (cases a; cases b) simp_all
  qed
  show ?thesis
    by (auto simp: float_eq_def Let_def m split: fp_class.split)
qed

lemma float_eq_refl:
  assumes "rnd 0 = FpFinite 0" "0 < eps"
  shows "float_eq nan_eq rnd t t a a (FpFinite eps) \<longleftrightarrow> a = FpNan \<longrightarrow> nan_eq"
  using assms by (cases a) (simp_all add: float_eq_def)

text \<open>Zero equals nothing but zero, however large the tolerance is.\<close>

lemma float_eq_zero: "float_eq nan_eq rnd lt rt (FpFinite 0) (FpFinite q) eps \<longleftrightarrow> q = 0"
  by (simp add: float_eq_def)

section \<open>Rounding\<close>

lemma round_away_nearest: "\<bar>q - of_int (round_away q)\<bar> \<le> 1 / 2"
proof (cases "0 \<le> q")
  case True
  have "of_int \<lfloor>q + 1 / 2\<rfloor> \<le> q + 1 / 2" "q + 1 / 2 < of_int \<lfloor>q + 1 / 2\<rfloor> + 1" by linarith+
  then show ?thesis using True unfolding round_away_def abs_le_iff by simp linarith
next
  case False
  have "of_int \<lfloor>1 / 2 - q\<rfloor> \<le> 1 / 2 - q" "1 / 2 - q < of_int \<lfloor>1 / 2 - q\<rfloor> + 1" by linarith+
  then show ?thesis using False unfolding round_away_def abs_le_iff by simp linarith
qed

lemma round_away_int [simp]: "round_away (of_int n) = n"
proof -
  have "\<lfloor>of_int n + 1 / 2 :: rat\<rfloor> = n" "\<lfloor>1 / 2 - of_int n :: rat\<rfloor> = - n" by (simp_all add: floor_eq_iff)
  then show ?thesis by (simp add: round_away_def)
qed

text \<open>The values of a target type that fits into \<^verbatim>\<open>long long\<close>.\<close>

definition in_target :: "bool \<Rightarrow> int \<Rightarrow> int \<Rightarrow> bool" where
  "in_target is_unsigned tmax v = ((if is_unsigned then 0 else - tmax - 1) \<le> v \<and> v \<le> tmax)"

lemma round_val_func_iff:
  assumes "0 \<le> tmax" "\<not> is_unsigned \<longrightarrow> tmax < 2 ^ 63"
  shows "round_val_func True unspec is_unsigned tmax func value = Inr n \<longleftrightarrow>
    (\<exists>q. func value = FpFinite q \<and> n = round_away q \<and> in_target is_unsigned tmax n \<and> n < 2 ^ 63)"
proof (cases "func value")
  case (FpFinite q)
  then show ?thesis
    using assms by (auto simp: round_val_func_def safe_llround_def throw_if_Inr bind_result_Inr in_target_def)
qed (auto simp: round_val_func_def safe_llround_def)

text \<open>On a platform that reports floating-point exceptions: \<^verbatim>\<open>round_val\<close> gives the nearest integer, half-way cases away from zero,
  \<^verbatim>\<open>round_floor\<close> cuts the fraction off (also of a negative value), and \<^verbatim>\<open>round_ceil\<close> goes to the next integer away from zero; each
  throws exactly when the value is not a number or the result is not in the target type.\<close>

theorem roundings_correct:
  assumes "0 \<le> tmax" "tmax < 2 ^ 63"
  shows "round_val True unspec us tmax v = Inr n \<longleftrightarrow> (\<exists>q. v = FpFinite q \<and> n = round_away q \<and> in_target us tmax n)"
    and "round_floor True unspec us tmax v = Inr n \<longleftrightarrow>
      (\<exists>q. v = FpFinite q \<and> n = (if q < 0 then \<lceil>q\<rceil> else \<lfloor>q\<rfloor>) \<and> in_target us tmax n)"
    and "round_ceil True unspec us tmax v = Inr n \<longleftrightarrow>
      (\<exists>q. v = FpFinite q \<and> n = (if q < 0 then \<lfloor>q\<rfloor> else \<lceil>q\<rceil>) \<and> in_target us tmax n)"
proof -
  note iff = round_val_func_iff [OF assms(1), of us unspec]
  have lt: "in_target us tmax n \<Longrightarrow> n < 2 ^ 63" using assms(2) by (simp add: in_target_def)
  show "round_val True unspec us tmax v = Inr n \<longleftrightarrow> (\<exists>q. v = FpFinite q \<and> n = round_away q \<and> in_target us tmax n)"
    unfolding round_val_def using iff assms(2) lt by auto
  show "round_floor True unspec us tmax v = Inr n \<longleftrightarrow>
      (\<exists>q. v = FpFinite q \<and> n = (if q < 0 then \<lceil>q\<rceil> else \<lfloor>q\<rfloor>) \<and> in_target us tmax n)"
    unfolding round_floor_def using iff assms(2) lt by (cases v) auto
  show "round_ceil True unspec us tmax v = Inr n \<longleftrightarrow>
      (\<exists>q. v = FpFinite q \<and> n = (if q < 0 then \<lfloor>q\<rfloor> else \<lceil>q\<rceil>) \<and> in_target us tmax n)"
    unfolding round_ceil_def using iff assms(2) lt by (cases v) auto
qed

text \<open>Without floating-point exceptions a finite value that does not fit is not noticed: the unspecified result is returned.\<close>

lemma safe_llround_unnoticed: "safe_llround False unspec (FpFinite (2 ^ 70)) = Inr (unspec (FpFinite (2 ^ 70)))"
proof -
  have "round_away (of_int (2 ^ 70)) = 2 ^ 70" by (rule round_away_int)
  then show ?thesis by (simp add: safe_llround_def)
qed

section \<open>Local and system time\<close>

text \<open>A zone with a fixed offset; the broken-down time is the seconds it stands for and its flag.\<close>

definition fixed_zone :: "int \<Rightarrow> (int \<times> int) ctime" where
  "fixed_zone off =
     \<lparr>ct_localtime = (\<lambda>t. Some (t + off, 0)), ct_gmtime = (\<lambda>t. Some (t, 0)), ct_timegm = fst,
      ct_mktime = (\<lambda>tm. (fst tm - off, (fst tm, 0))), ct_isdst = snd, ct_set_isdst = (\<lambda>d tm. (fst tm, d))\<rparr>"

text \<open>The parts of a second survive: converting to local time and back gives the time point again, at any resolution and also before
  the epoch, unless one of the two times is the second before it.\<close>

theorem zone_roundtrip:
  assumes "0 < den" "tp div den \<noteq> - 1" "tp div den + off \<noteq> - 1"
  shows "to_local (fixed_zone off) den tp = Inr (tp + off * den)"
    and "bind_result (to_local (fixed_zone off) den tp) (to_sys (fixed_zone off) den) = Inr tp"
proof -
  show l: "to_local (fixed_zone off) den tp = Inr (tp + off * den)"
    using assms by (simp add: to_local_def to_local_common_def fixed_zone_def Let_def algebra_simps)
  have "(tp + off * den) div den = tp div den + off" using assms(1) by simp
  then show "bind_result (to_local (fixed_zone off) den tp) (to_sys (fixed_zone off) den) = Inr tp"
    using assms unfolding l by (simp add: to_sys_def to_sys_common_def fixed_zone_def Let_def algebra_simps)
qed

text \<open>That second is taken for an error of the C library.\<close>

lemma zone_second_before_epoch:
  "to_local (fixed_zone 0) 1 (- 1) = Inl (NstlException ''epoch cannot be calculated'')"
  by (simp add: to_local_def to_local_common_def fixed_zone_def Let_def)

text \<open>The offset that \<^verbatim>\<open>get_info\<close> reports is the difference of the two conversions.\<close>

lemma get_info_offset:
  assumes "get_info ct den tp = Inr i"
  shows "\<exists>d. to_local_common ct (tp div den) = Inr (tp div den + si_offset i, d)"
  using assms by (auto simp: get_info_def get_sys_info_def Let_def bind_result_Inr)

section \<open>Base64\<close>

lemma drop_padding_snoc: "drop_padding (t @ [CHR ''='']) = drop_padding t"
  by (subst drop_padding.simps) simp

lemma drop_padding_append: "CHR ''='' \<notin> set t \<Longrightarrow> drop_padding (t @ replicate n (CHR ''='')) = t"
proof (induction n)
  case 0
  then show ?case by (subst drop_padding.simps) (metis append_Nil2 last_in_set replicate_0)
next
  case (Suc n)
  have "t @ replicate (Suc n) (CHR ''='') = (t @ replicate n (CHR ''='')) @ [CHR ''='']"
    by (simp add: replicate_append_same)
  then show ?case using Suc drop_padding_snoc by metis
qed

lemma b64_length: "(8 * n + 5) div 6 + (3 - n mod 3) mod 3 = 4 * ((n + 2) div 3)" for n :: nat
proof -
  obtain q r where n: "n = 3 * q + r" "r < 3" by (metis mod_less_divisor mult_div_mod_eq zero_less_numeral)
  have "(8 * n + 5) div 6 = 4 * q + (8 * r + 5) div 6" "(n + 2) div 3 = q + (r + 2) div 3" "n mod 3 = r"
    using n by simp_all
  moreover have "r = 0 \<or> r = 1 \<or> r = 2" using n(2) by linarith
  ultimately show ?thesis by auto
qed

text \<open>The text is a multiple of four characters long, and reading it back gives the bytes.\<close>

theorem base64_roundtrip:
  assumes "b64_ok lib"
  shows "from_base64 lib (to_base64 lib bytes) = bytes \<and> length (to_base64 lib bytes) mod 4 = 0 \<and>
    length (to_base64 lib bytes) = 4 * ((length bytes + 2) div 3)"
proof (cases "bytes = []")
  case False
  have lib: "length (b64_encode lib bytes) = (8 * length bytes + 5) div 6" "CHR ''='' \<notin> set (b64_encode lib bytes)"
    "b64_decode lib (b64_encode lib bytes) = bytes" using assms by (simp_all add: b64_ok_def)
  have len: "(8 * length bytes + 5) div 6 + (3 - length bytes mod 3) mod 3 = 4 * ((length bytes + 2) div 3)" by (rule b64_length)
  have sz: "length (to_base64 lib bytes) = 4 * ((length bytes + 2) div 3)" using lib(1) len False by (simp add: to_base64_def)
  have "0 < length bytes" using False by simp
  then have "0 < (length bytes + 2) div 3" by presburger
  then have ne: "to_base64 lib bytes \<noteq> []" using sz by force
  have "drop_padding (to_base64 lib bytes) = b64_encode lib bytes"
    using drop_padding_append [OF lib(2)] False by (simp add: to_base64_def)
  then show ?thesis using ne lib(3) sz by (simp add: from_base64_def)
qed (simp add: to_base64_def from_base64_def)

end
