(* ===== verification/Composition.thy ===== *)
theory Composition
  imports HttpClient Logging DataHash Resources Numeric Support
begin

text \<open>
  Operations that join two components: the trace of libcurl that goes to the log, the hand-over of a line to the log function, the
  text forms and wide strings of hashes, and the random engine behind the names of temporary files.
\<close>

section \<open>Definitions\<close>

subsection \<open>The trace of libcurl\<close>

datatype curl_infotype =
    CURLINFO_TEXT
  | CURLINFO_HEADER_IN
  | CURLINFO_HEADER_OUT
  | CURLINFO_DATA_IN
  | CURLINFO_DATA_OUT
  | CURLINFO_SSL_DATA_IN
  | CURLINFO_SSL_DATA_OUT
  | CURLINFO_OTHER

abbreviation (input) "log_debug \<equiv> (0 :: int)"
abbreviation (input) "log_info \<equiv> (1 :: int)"

text \<open>The switch: the level, the line of the source and the details of the message.\<close>

fun trace_details :: "curl_infotype \<Rightarrow> string \<Rightarrow> (int \<times> int \<times> string) option" where
  "trace_details CURLINFO_TEXT view = Some (log_info, 56, ''CURL'' @ delimiter @ view)"
| "trace_details CURLINFO_HEADER_IN view = Some (log_debug, 59, ''CURL'' @ delimiter @ '' <= header recv - '' @ view)"
| "trace_details CURLINFO_HEADER_OUT view = Some (log_debug, 62, ''CURL'' @ delimiter @ '' => header send - '' @ view)"
| "trace_details CURLINFO_DATA_IN view = Some (log_debug, 65, ''CURL'' @ delimiter @ '' <= data recv'')"
| "trace_details CURLINFO_DATA_OUT view = Some (log_debug, 68, ''CURL'' @ delimiter @ '' => data send'')"
| "trace_details CURLINFO_SSL_DATA_IN view = Some (log_debug, 71, ''CURL'' @ delimiter @ '' <= ssl data recv'')"
| "trace_details CURLINFO_SSL_DATA_OUT view = Some (log_debug, 74, ''CURL'' @ delimiter @ '' => ssl data send'')"
| "trace_details CURLINFO_OTHER view = None"

text \<open>\<^verbatim>\<open>my_trace\<close> gives what is handed to the log function; it returns 0 on every branch.\<close>

definition my_trace ::
    "int \<Rightarrow> (ostream \<Rightarrow> ostream) \<Rightarrow> string \<Rightarrow> string \<Rightarrow> curl_infotype \<Rightarrow> string \<Rightarrow> (int \<times> string) option result" where
  "my_trace current stamp thread_id path type data =
     (case trace_details type (right_trim_view data) of
        None \<Rightarrow> Inr None
      | Some (level, line, details) \<Rightarrow> log_macro current stamp thread_id level path line (os_put details))"

text \<open>The bit of \<^verbatim>\<open>CURL_VERSION_SSL\<close> and the features are libcurl's.\<close>

definition is_ssl_supported :: "32 word \<Rightarrow> 32 word \<Rightarrow> bool" where
  "is_ssl_supported curl_version_ssl features = (features AND curl_version_ssl \<noteq> 0)"

text \<open>The call operator of \<^verbatim>\<open>LoggerFormatter\<close>: the line goes to the log function, if there is one.\<close>

definition formatter_call :: "(int \<Rightarrow> string \<Rightarrow> 'w \<Rightarrow> 'w) option \<Rightarrow> int \<Rightarrow> string \<Rightarrow> 'w \<Rightarrow> 'w" where
  "formatter_call logger level line w = (case logger of Some tgt \<Rightarrow> tgt level line w | None \<Rightarrow> w)"

subsection \<open>Hashes\<close>

definition whash_to_base64 :: "b64_lib \<Rightarrow> HashValue \<Rightarrow> nat list" where
  "whash_to_base64 lib hash = map code_of (to_base64 lib (snd hash))"

text \<open>\<open>wbytes\<close> is the object representation of a \<^verbatim>\<open>wchar_t\<close>.\<close>

definition add_wcstring :: "(nat \<Rightarrow> u8 list) \<Rightarrow> 's hasher_class \<Rightarrow> nat list option \<Rightarrow> 's \<Rightarrow> 's result" where
  "add_wcstring wbytes hc data s =
     (let size = nstl_wcslen data in
      if 0 < size then hc_add hc (concat (map wbytes (take size (the data)))) s else Inr s)"

subsection \<open>The random engine\<close>

definition get_seed :: "nat option \<Rightarrow> nat \<Rightarrow> nat" where
  "get_seed seed device = (case seed of Some n \<Rightarrow> n | None \<Rightarrow> device)"

text \<open>The engine is made by the first call of a thread, also by one that throws.\<close>

definition thread_file_name ::
    "(nat \<Rightarrow> 'g) \<Rightarrow> ('g \<Rightarrow> char \<times> 'g) \<Rightarrow> nat \<Rightarrow> nat option \<Rightarrow> nat \<Rightarrow> 'g option \<Rightarrow> 'g option \<times> string result" where
  "thread_file_name seeded engine len seed device local =
     (let g = (case local of Some g \<Rightarrow> g | None \<Rightarrow> seeded (get_seed seed device)) in
      case random_file_name engine len g of
        Inl e \<Rightarrow> (Some g, Inl e)
      | Inr (name, g') \<Rightarrow> (Some g', Inr name))"

section \<open>Theorems\<close>

text \<open>The bodies of requests and answers do not reach the log, at no level; what is logged is at an active level.\<close>

lemma my_trace_hides_data:
  "type \<in> {CURLINFO_DATA_IN, CURLINFO_DATA_OUT, CURLINFO_SSL_DATA_IN, CURLINFO_SSL_DATA_OUT} \<Longrightarrow>
     my_trace current stamp thread_id path type data = my_trace current stamp thread_id path type data'"
  by (auto simp: my_trace_def)

lemma my_trace_level:
  assumes "my_trace current stamp thread_id path type data = Inr (Some (level, line))"
  shows "isLevelActive current level \<and> (level = log_info \<longleftrightarrow> type = CURLINFO_TEXT)"
  using assms by (cases type) (auto simp: my_trace_def log_macro_def bind_result_Inr split: if_splits)

lemma my_trace_total: "\<exists>r. my_trace current stamp thread_id path type data = Inr r"
  by (cases type) (auto simp: my_trace_def log_macro_def formatter_new_def level_toStream_def level_name_def log_levels_def Let_def)

text \<open>A hash is read back from its text form; the wide form has the same characters.\<close>

lemma hash_base64_roundtrip:
  assumes "b64_ok lib"
  shows "from_base64 lib (hash_to_base64 (to_base64 lib) hash) = snd hash"
  using base64_roundtrip [OF assms] by (simp add: hash_to_base64_def)

lemma whash_base64_chars: "map (char_of :: nat \<Rightarrow> char) (whash_to_base64 lib hash) = hash_to_base64 (to_base64 lib) hash"
  by (simp add: whash_to_base64_def hash_to_base64_def code_of_def comp_def)

text \<open>A seed counts only for the first name of a thread: later ones continue the sequence, whatever seed they are given.\<close>

lemma later_seed_ignored:
  assumes "fst (thread_file_name seeded engine len seed device local) = local'"
  shows "thread_file_name seeded engine len' seed' device' local' = thread_file_name seeded engine len' None 0 local'"
proof -
  obtain g where "local' = Some g" using assms by (auto simp: thread_file_name_def Let_def split: sum.splits prod.splits)
  then show ?thesis by (simp add: thread_file_name_def)
qed

end
