(* ===== verification/LogFlow.thy ===== *)
theory LogFlow
  imports Logger Composition
begin

text \<open>
  A log statement from end to end: the macros of \<^verbatim>\<open>nstl/logging.hpp\<close> ask for the level, format the line with the stamp of the one
  \<^verbatim>\<open>LogTimeZone\<close>, and call the log function, which hands the line to the innermost logger of \<^verbatim>\<open>nstl/logger.cpp\<close>.
\<close>

section \<open>Definitions\<close>

text \<open>The time zone object is made by the first call, which also sets its clock; when the constructor throws the next call tries again.\<close>

definition tz_instance ::
    "'z tz_database \<Rightarrow> cstring \<Rightarrow> (unit \<Rightarrow> 't) option \<Rightarrow> ((unit \<Rightarrow> 't) option \<times> 'z log_time_zone) option \<Rightarrow>
     ((unit \<Rightarrow> 't) option \<times> 'z log_time_zone) option \<times> ((unit \<Rightarrow> 't) option \<times> 'z log_time_zone) result" where
  "tz_instance db env fn item =
     (case item of
        Some tz \<Rightarrow> (item, Inr tz)
      | None \<Rightarrow>
          (case log_time_zone_new db env of
             Inl e \<Rightarrow> (None, Inl e)
           | Inr tz \<Rightarrow> (Some (fn, tz), Inr (fn, tz))))"

definition tz_assign :: "'z tz_database \<Rightarrow> string option \<Rightarrow> 'z log_time_zone \<Rightarrow> 'z log_time_zone \<times> unit result" where
  "tz_assign db zone tz = setZone db zone tz"

text \<open>\<^verbatim>\<open>NSTL_LOG_LEVEL_IMPL\<close> on the state of the loggers; a level that is none throws.\<close>

definition log_statement ::
    "'a logger_api \<Rightarrow> (ostream \<Rightarrow> ostream) \<Rightarrow> string \<Rightarrow> int \<Rightarrow> string \<Rightarrow> int \<Rightarrow> (ostream \<Rightarrow> ostream) \<Rightarrow> 'a log_world \<Rightarrow>
     ('a log_world \<times> unit result) outcome" where
  "log_statement api stamp thread_id level path line details w =
     (case log_macro (getLevel (lw_level w)) stamp thread_id level path line details of
        Inl e \<Rightarrow> Next (w, Inl e)
      | Inr None \<Rightarrow> Next (w, Inr ())
      | Inr (Some (lv, text)) \<Rightarrow> bind_outcome (log_func api lv text w) (\<lambda>w. Next (w, Inr ())) (\<lambda>w. (w, Inr ())))"

definition nstl_debug ::
    "'a logger_api \<Rightarrow> (ostream \<Rightarrow> ostream) \<Rightarrow> string \<Rightarrow> string \<Rightarrow> int \<Rightarrow> (ostream \<Rightarrow> ostream) \<Rightarrow> 'a log_world \<Rightarrow>
     ('a log_world \<times> unit result) outcome" where
  "nstl_debug api stamp thread_id = log_statement api stamp thread_id 0"

definition nstl_info ::
    "'a logger_api \<Rightarrow> (ostream \<Rightarrow> ostream) \<Rightarrow> string \<Rightarrow> string \<Rightarrow> int \<Rightarrow> (ostream \<Rightarrow> ostream) \<Rightarrow> 'a log_world \<Rightarrow>
     ('a log_world \<times> unit result) outcome" where
  "nstl_info api stamp thread_id = log_statement api stamp thread_id 1"

definition nstl_warning ::
    "'a logger_api \<Rightarrow> (ostream \<Rightarrow> ostream) \<Rightarrow> string \<Rightarrow> string \<Rightarrow> int \<Rightarrow> (ostream \<Rightarrow> ostream) \<Rightarrow> 'a log_world \<Rightarrow>
     ('a log_world \<times> unit result) outcome" where
  "nstl_warning api stamp thread_id = log_statement api stamp thread_id 2"

definition nstl_error ::
    "'a logger_api \<Rightarrow> (ostream \<Rightarrow> ostream) \<Rightarrow> string \<Rightarrow> string \<Rightarrow> int \<Rightarrow> (ostream \<Rightarrow> ostream) \<Rightarrow> 'a log_world \<Rightarrow>
     ('a log_world \<times> unit result) outcome" where
  "nstl_error api stamp thread_id = log_statement api stamp thread_id 3"

definition nstl_terminate ::
    "'a logger_api \<Rightarrow> (ostream \<Rightarrow> ostream) \<Rightarrow> string \<Rightarrow> string \<Rightarrow> int \<Rightarrow> (ostream \<Rightarrow> ostream) \<Rightarrow> 'a log_world \<Rightarrow>
     ('a log_world \<times> unit result) outcome" where
  "nstl_terminate api stamp thread_id = log_statement api stamp thread_id 4"

text \<open>The line that a statement makes of its stamp, thread, level, place and details.\<close>

definition log_text :: "string \<Rightarrow> string \<Rightarrow> int \<Rightarrow> string \<Rightarrow> int \<Rightarrow> string \<Rightarrow> string" where
  "log_text st thread_id level path line details =
     st @ ''|'' @ safe_basename_view path @ '':'' @ show_int line @ ''|'' @ thread_id @ ''|'' @ log_levels ! nat level @ ''|'' @ details"

section \<open>Theorems\<close>

text \<open>The clock is that of the first call.\<close>

lemma tz_instance_once:
  assumes "tz_instance db env fn None = (item, Inr tz)"
  shows "tz_instance db' env' fn' item = (item, Inr tz) \<and> fst tz = fn"
  using assms by (auto simp: tz_instance_def split: sum.splits)

lemma stamp_text:
  "printStamp fmt_zoned fmt_utc tz now \<lparr>os_text = [], os_fail = False\<rparr> =
     \<lparr>os_text = (case tz_zone tz of Some z \<Rightarrow> fmt_zoned z now | None \<Rightarrow> fmt_utc now), os_fail = False\<rparr>"
  by (simp add: printStamp_def os_put_def split: option.split)

lemma log_macro_text:
  assumes "0 \<le> lv" "lv < 5" "stamp \<lparr>os_text = [], os_fail = False\<rparr> = \<lparr>os_text = st, os_fail = False\<rparr>"
  shows "log_macro current stamp tid lv path n (os_put details) =
    (if current \<le> lv then Inr (Some (lv, log_text st tid lv path n details)) else Inr None)"
  using formatter_line [of lv stamp st tid "safe_basename_view path" n] assms
  by (simp add: log_macro_def isLevelActive_def getLevel_def log_text_def os_put_def)

text \<open>Stopping a logger gives what it has in its target when its thread has ended; with one more line pushed before, it is that line
  more.\<close>

lemma push_then_stop:
  assumes "ostream_good tbb a" "\<not> ol_throttle a < queue_size tbb a"
  shows "\<exists>s. log_stop tbb a = Next (s, True) \<and>
    (if lv = level_Terminate then \<exists>a'. log_push tbb lv text a = Aborted a' \<and> ol_out a' = ol_out s @ text @ [CHR 0x0A]
     else \<exists>a' s'. log_push tbb lv text a = Next a' \<and> log_stop tbb a' = Next (s', True) \<and>
       ol_out s' = ol_out s @ text @ [CHR 0x0A])"
proof -
  obtain k l h where ok: "tbb_queue_ok tbb" "ol_running a" "ol_reach tbb k l a h" using assms(1) by (auto simp: ostream_good_def)
  have ended: "ol_out s' = lines_text h'" if "ol_reach tbb k l s' h'" "\<not> ol_runner s'" for s' h'
    using ol_reach_inv [OF that(1) ok(1)] that(2) by (simp add: ol_inv_def)
  obtain s where s: "log_stop tbb a = Next (s, True)" "ol_out s = lines_text h"
    using log_stop_reach [OF ok(1,3)] ok(2) ended by auto
  define a' where "a' = a\<lparr>ol_queue := tbb_emplace tbb (Some text) (ol_queue a)\<rparr>"
  have e: "push_emplace tbb text a = (a', True)" using assms(2) by (simp add: push_emplace_def a'_def)
  have r: "ol_reach tbb k l a' (h @ [text])" using ol_reach.Emplaced [OF ok(3) e] ok(2) by simp
  have "ol_running a'" using ok(2) by (simp add: a'_def)
  then obtain s' where s': "log_stop tbb a' = Next (s', True)" "ol_out s' = lines_text (h @ [text])"
    using log_stop_reach [OF ok(1) r] ended by auto
  then have "ol_out s' = ol_out s @ text @ [CHR 0x0A]" using s(2) by (simp add: lines_text_def)
  then show ?thesis using s s' e by (auto simp: log_push_def)
qed

lemma run_ok:
  assumes "tbb_queue_ok tbb" and "run_log_ops (ostream_api tbb) (started_log tbb) (worker_turn tbb) ops log_world_init = Next w"
  shows "world_ok (ostream_api tbb) (ostream_good tbb) (ostream_ended tbb) w"
proof -
  have "world_ok (ostream_api tbb) (ostream_good tbb) (ostream_ended tbb) log_world_init"
    by (simp add: world_ok_def log_world_init_def live_logs_def)
  from ostream.run_world_ok [OF assms(1) this, of ops] show ?thesis using assms(2) by simp
qed

lemma top_logger:
  assumes "world_ok (ostream_api tbb) (ostream_good tbb) (ostream_ended tbb) w" and "live_logs w \<noteq> []"
  shows "ostream_good tbb (log_obj w (last (live_logs w)))" "last (live_logs w) < length (lw_logs w)"
    "getLevel (lw_level w) = ol_level (log_obj w (last (live_logs w)))"
proof -
  have "last (live_logs w) \<in> set (lw_items w)" "lw_items w = live_logs w" using assms by (auto simp: world_ok_def)
  then show "ostream_good tbb (log_obj w (last (live_logs w)))" "last (live_logs w) < length (lw_logs w)"
    using world_ok_member [OF assms(1)] by auto
  show "getLevel (lw_level w) = ol_level (log_obj w (last (live_logs w)))"
    using assms by (auto simp: world_ok_def getLevel_def ostream_api_def)
qed

lemma set_obj_same: "p < length (lw_logs w) \<Longrightarrow> set_obj p (log_obj w p) w = w"
  by (simp add: set_obj_def log_obj_def use_count_def)

text \<open>C12 (the macros, \<^verbatim>\<open>LoggerFormatter\<close>, the log function and the loggers together): after any program of constructions, resets, lines and
  turns of the workers that leaves a logger alive, a log statement reaches the innermost logger if its level is at least that logger's
  level and the queue is not above the throttle size, and otherwise changes nothing. What that logger has written once it is stopped is
  then what it would have written without the statement, followed by the one line made of the stamp, the base name of the file, the
  line number, the thread, the name of the level and the details; every other logger is as before. At the terminate level the process
  ends with all of that written.\<close>

theorem log_statement_delivered:
  assumes "tbb_queue_ok tbb"
    and "run_log_ops (ostream_api tbb) (started_log tbb) (worker_turn tbb) ops log_world_init = Next w" and "live_logs w \<noteq> []"
    and "0 \<le> lv" "lv < 5" and "stamp \<lparr>os_text = [], os_fail = False\<rparr> = \<lparr>os_text = st, os_fail = False\<rparr>"
  shows "let p = last (live_logs w); a = log_obj w p; line = log_text st tid lv path n details @ [CHR 0x0A] in
    \<exists>s. log_stop tbb a = Next (s, True) \<and>
     (case log_statement (ostream_api tbb) stamp tid lv path n (os_put details) w of
        Next (w', r) \<Rightarrow>
          r = Inr () \<and>
          (if lv < ol_level a \<or> ol_throttle a < queue_size tbb a then w' = w
           else lv \<noteq> level_Terminate \<and> (\<forall>q < length (lw_logs w). q \<noteq> p \<longrightarrow> log_obj w' q = log_obj w q) \<and>
             (\<exists>s'. log_stop tbb (log_obj w' p) = Next (s', True) \<and> ol_out s' = ol_out s @ line))
      | Aborted (w', r) \<Rightarrow> lv = level_Terminate \<and> ol_level a \<le> lv \<and> ol_out (log_obj w' p) = ol_out s @ line
      | _ \<Rightarrow> False)"
proof -
  define p a msg where "p = last (live_logs w)" and "a = log_obj w p" and "msg = log_text st tid lv path n details"
  note ok = run_ok [OF assms(1,2)]
  note top = top_logger [OF ok assms(3), folded p_def, folded a_def]
  note macro = log_macro_text [of lv stamp st "getLevel (lw_level w)" tid path n details, OF assms(4,5,6), folded msg_def]
  note func = ostream.log_func_top [OF ok, of lv msg, folded p_def, folded a_def]
  obtain s where s: "log_stop tbb a = Next (s, True)"
    using log_stop_reach [OF assms(1)] top(1) unfolding ostream_good_def by metis
  have stat: "log_statement (ostream_api tbb) stamp tid lv path n (os_put details) w =
      (if ol_level a \<le> lv
       then bind_outcome (log_push tbb lv msg a) (\<lambda>a. Next (set_obj p a w, Inr ())) (\<lambda>a. (set_obj p a w, Inr ()))
       else Next (w, Inr ()))"
    using macro func assms(3) top(3)
    by (cases "log_push tbb lv msg a") (simp_all add: log_statement_def ostream_api_def)
  note obj = log_world_update(1) [OF top(2)]
  show ?thesis
  proof (cases "lv < ol_level a \<or> ol_throttle a < queue_size tbb a")
    case True
    then have "log_statement (ostream_api tbb) stamp tid lv path n (os_put details) w = Next (w, Inr ())"
      using stat set_obj_same [OF top(2)] by (auto simp: log_push_def push_emplace_def a_def)
    then show ?thesis using True s unfolding Let_def p_def [symmetric] a_def [symmetric] by simp
  next
    case False
    then show ?thesis
      using push_then_stop [OF top(1), of lv msg] s stat obj
      unfolding Let_def p_def [symmetric] a_def [symmetric] msg_def [symmetric] by (auto split: if_splits)
  qed
qed

theorem log_statement_delivered_witness:
  "\<exists>w w' s s'. run_log_ops (ostream_api list_queue) (started_log list_queue) (worker_turn list_queue)
       [MkLogger OstreamLog 1, LogLine 1 ''first''] log_world_init = Next w \<and>
     log_statement (ostream_api list_queue) (os_put ''T'') ''7'' 2 ''src/a.cpp'' 3 (os_put ''second'') w = Next (w', Inr ()) \<and>
     log_stop list_queue (log_obj w 0) = Next (s, True) \<and> log_stop list_queue (log_obj w' 0) = Next (s', True) \<and>
     ol_out s' = ol_out s @ log_text ''T'' ''7'' 2 ''src/a.cpp'' 3 ''second'' @ [CHR 0x0A]"
proof -
  let ?ops = "[MkLogger OstreamLog 1, LogLine 1 ''first'']"
  let ?run = "run_log_ops (ostream_api list_queue) (started_log list_queue) (worker_turn list_queue) ?ops log_world_init"
  have "\<exists>w. ?run = Next w \<and> live_logs w = [0] \<and> ol_level (log_obj w 0) = 1 \<and>
      \<not> ol_throttle (log_obj w 0) < queue_size list_queue (log_obj w 0)"
    by (simp add: logger_eval logger_make_def make_shared_def logger_new_def ostream_api_def log_world_init_def log_obj_def
        stack_push_back_def set_functor_def set_count_def use_count_def setLevel_def log_func_def set_obj_def live_logs_def)
  then obtain w where w: "?run = Next w" "live_logs w = [0]" "ol_level (log_obj w 0) = 1"
    "\<not> ol_throttle (log_obj w 0) < queue_size list_queue (log_obj w 0)" by blast
  let ?st = "log_statement (ostream_api list_queue) (os_put ''T'') ''7'' 2 ''src/a.cpp'' 3 (os_put ''second'') w"
  note deliv = log_statement_delivered [OF list_queue_ok w(1), of 2 "os_put ''T''" "''T''" "''7''" "''src/a.cpp''" 3 "''second''"]
  show ?thesis
  proof (cases ?st)
    case (Next x)
    then show ?thesis using deliv w by (cases x) (auto simp: os_put_def Let_def)
  qed (use deliv w in \<open>auto simp: os_put_def Let_def\<close>)
qed

end
