(* ===== verification/MultiTest.thy ===== *)
theory MultiTest
  imports LogFlow SignalBarrier Support Resources
begin

text \<open>
  \<^verbatim>\<open>bin/test/main_test.cpp\<close>, the program \<^verbatim>\<open>multi_test\<close> that is run under \<^verbatim>\<open>multi_runner\<close>: it sets up the library, logs its number and
  arguments, waits for a signal and exits with its number. The version for Linux is put together from the models of the components it
  uses: global initialisation, the logger of the standard output with its worker thread, environment variables, the argument editor,
  range printing and the signal barrier.
\<close>

section \<open>Definitions\<close>

text \<open>The variables and the flag: what follows sees the arguments without the flag.\<close>

definition test_arguments :: "environment \<Rightarrow> int \<Rightarrow> cstring list \<Rightarrow> (string \<times> string \<times> bool \<times> cstring list) result" where
  "test_arguments env argc argv =
     bind_result (get_env_var (Some ''NSTL_PROCESSES_ID'') env) (\<lambda>pr_id.
     bind_result (get_env_var (Some ''NSTL_PROCESSES_NUMBER'') env) (\<lambda>pr_num.
     bind_result (is_arg_set argc (Some argv) (Some ''--healthy'')) (\<lambda>(healthy, argc, argv).
     Inr (pr_id, pr_num, healthy, take (nat argc) argv))))"

text \<open>The details of the first line. The language promises that the first \<^verbatim>\<open>argc\<close> pointers are strings.\<close>

definition test_details :: "string \<Rightarrow> string \<Rightarrow> cstring list \<Rightarrow> string" where
  "test_details pr_id pr_num args =
     range_print (\<lambda>p. case p of Some t \<Rightarrow> t | None \<Rightarrow> []) args '' ''
       (''NSTL_PROCESSES_ID: '' @ pr_id @ ''; NSTL_PROCESSES_NUMBER: '' @ pr_num @ '' (args: '') @ '')''"

text \<open>Turns that the worker of the first logger takes meanwhile.\<close>

definition worker_turns :: "'q tbb_queue \<Rightarrow> nat \<Rightarrow> 'q ostream_log log_world \<Rightarrow> 'q ostream_log log_world" where
  "worker_turns tbb k w = ((\<lambda>w. set_obj 0 (worker_turn tbb (log_obj w 0)) w) ^^ k) w"

text \<open>A call on the loggers within \<^verbatim>\<open>main\<close>: an exception that leaves \<^verbatim>\<open>main\<close> ends the process where it is.\<close>

definition log_call ::
    "global_state \<Rightarrow> 'w \<Rightarrow> ('w \<times> 'a result) outcome \<Rightarrow> ('w \<Rightarrow> 'a \<Rightarrow> (global_state \<times> 'w) \<times> int ending) \<Rightarrow>
     (global_state \<times> 'w) \<times> int ending" where
  "log_call g w r k =
     (case r of
        Blocked \<Rightarrow> ((g, w), StillWaits)
      | Fault e \<Rightarrow> ((g, w), Throws e)
      | Aborted (w, _) \<Rightarrow> ((g, w), Terminates)
      | Next (w, Inl e) \<Rightarrow> ((g, w), Throws e)
      | Next (w, Inr x) \<Rightarrow> k w x)"

text \<open>The end of \<^verbatim>\<open>main\<close>: the logger is destroyed, and then the initialisation is undone.\<close>

definition test_leave :: "'q tbb_queue \<Rightarrow> nat \<Rightarrow> int \<Rightarrow> global_state \<Rightarrow> 'q ostream_log log_world \<Rightarrow>
    (global_state \<times> 'q ostream_log log_world) \<times> int ending" where
  "test_leave tbb logger code g w =
     log_call g w (bind_outcome (logger_reset (ostream_api tbb) logger w) (\<lambda>w. Next (w, Inr ())) (\<lambda>w. (w, Inr ())))
       (\<lambda>w _. ((global_init_delete GiLinux True g, w), Returns code))"

text \<open>The barrier, the second line and the exit code. \<^verbatim>\<open>wait\<close> has no timer, so that it does not return without a value.\<close>

definition test_wait ::
    "'q tbb_queue \<Rightarrow> linux_calls \<Rightarrow> (ostream \<Rightarrow> ostream) \<Rightarrow> string \<Rightarrow> string \<Rightarrow> nat \<Rightarrow> nat \<Rightarrow> bool \<Rightarrow>
     global_state \<Rightarrow> 'q ostream_log log_world \<Rightarrow> (global_state \<times> 'q ostream_log log_world) \<times> int ending" where
  "test_wait tbb lc stamp thread_id path turns logger healthy g w =
     (case linux_barrier_new (getSignalFile g) of
        Inl e \<Rightarrow> ((g, w), Throws e)
      | Inr sfd \<Rightarrow>
          (case linux_wait lc sfd (gi_open g) of
             (fds, r) \<Rightarrow>
               let g = g\<lparr>gi_open := fds\<rparr>; w = worker_turns tbb turns w in
               case r of
                 Throws e \<Rightarrow> ((g, w), Throws e)
               | Terminates \<Rightarrow> ((g, w), Terminates)
               | StillWaits \<Rightarrow> ((g, w), StillWaits)
               | Returns None \<Rightarrow> ((g, w), Throws Undefined)
               | Returns (Some val) \<Rightarrow>
                   log_call g w (nstl_info (ostream_api tbb) stamp thread_id path 22 (os_put (sigval_name val @ '' received'')) w)
                     (\<lambda>w _. test_leave tbb logger (if healthy then 0 else to_signal_conv val) g w)))"

text \<open>\<open>stamps\<close> are the two stamps, \<open>turns\<close> the turns of the worker before each of the two lines, \<open>path\<close> is the name the compiler has
  for the file.\<close>

definition main_test ::
    "'q tbb_queue \<Rightarrow> gi_calls \<Rightarrow> linux_calls \<Rightarrow> (ostream \<Rightarrow> ostream) \<times> (ostream \<Rightarrow> ostream) \<Rightarrow> string \<Rightarrow> string \<Rightarrow> nat \<times> nat \<Rightarrow>
     environment \<Rightarrow> int \<Rightarrow> cstring list \<Rightarrow> global_state \<Rightarrow> 'q ostream_log log_world \<Rightarrow>
     (global_state \<times> 'q ostream_log log_world) \<times> int ending" where
  "main_test tbb gc lc stamps thread_id path turns env argc argv g w =
     (case global_init_new GiLinux gc True True g of
        (g, Inl e) \<Rightarrow> ((g, w), Throws e)
      | (g, Inr _) \<Rightarrow>
          log_call g w (logger_make (ostream_api tbb) (started_log tbb CoutLog 1) w) (\<lambda>w logger.
            case test_arguments env argc argv of
              Inl e \<Rightarrow> ((g, w), Throws e)
            | Inr (pr_id, pr_num, healthy, args) \<Rightarrow>
                let w = worker_turns tbb (fst turns) w in
                log_call g w (nstl_info (ostream_api tbb) (fst stamps) thread_id path 18 (os_put (test_details pr_id pr_num args)) w)
                  (\<lambda>w _. test_wait tbb lc (snd stamps) thread_id path (snd turns) logger healthy g w)))"

section \<open>Theorems\<close>

text \<open>The barrier's \<^verbatim>\<open>wait\<close> has a value when it returns.\<close>

lemma epoll_loop_value: "epoll_loop sfd None ws \<noteq> Returns None"
proof -
  have "handle_events sfd None evs \<noteq> Some (Returns None)" for evs
    by (induction sfd "None :: int option" evs rule: handle_events.induct) (auto split: ending.splits sum.splits)
  then show ?thesis
    by (induction sfd "None :: int option" ws rule: epoll_loop.induct) (auto split: option.splits)
qed

text \<open>Any number of interrupted calls, and then the signal.\<close>

lemma read_signal_interrupted:
  "read_signal (replicate j (FdErrno Eintr) @ rs) = read_signal rs"
  by (induction j) simp_all

lemma epoll_loop_interrupted:
  "epoll_loop sfd timer (replicate k (EpErr Eintr) @ ws) = epoll_loop sfd timer ws"
  by (induction k) simp_all

definition signal_waits :: "int \<Rightarrow> nat \<Rightarrow> nat \<Rightarrow> int \<Rightarrow> epoll_result list" where
  "signal_waits sfd k j signo = replicate k (EpErr Eintr) @ [EpReady [(sfd, replicate j (FdErrno Eintr) @ [FdSize siginfo_size signo])]]"

lemma signal_waits_value:
  assumes "signo \<in> {SIGINT, SIGTERM, SIGQUIT}"
  shows "\<exists>v. epoll_loop sfd None (signal_waits sfd k j signo) = Returns (Some v) \<and> from_signal_conv signo = Inr v \<and> to_signal_conv v = signo"
  using assms
  by (auto simp: signal_waits_def epoll_loop_interrupted read_signal_interrupted from_signal_conv_def)

text \<open>The one logger of the program, with its queue as long as it was or shorter after a turn of the worker.\<close>

definition test_log :: "'a \<Rightarrow> 'a log_world" where
  "test_log a = \<lparr>lw_items = [0], lw_functor = Some 0, lw_level = 1, lw_cout = True, lw_logs = [(a, 2)], lw_handles = [Some 0]\<rparr>"

definition logged :: "'q tbb_queue \<Rightarrow> string list \<Rightarrow> 'q ostream_log \<Rightarrow> bool" where
  "logged tbb h a \<longleftrightarrow> ol_reach tbb CoutLog 1 a h \<and> ol_running a \<and> ol_throttle a = 2 ^ 63 - 1 \<and> length (tbb_items tbb (ol_queue a)) \<le> length h"

lemma test_log_made:
  "logger_make (ostream_api tbb) (started_log tbb CoutLog 1) log_world_init = Next (test_log (started_log tbb CoutLog 1), Inr 0)"
  by (simp add: logger_make_def make_shared_def logger_new_def log_world_init_def log_obj_def stack_push_back_def set_functor_def
      set_count_def use_count_def setLevel_def test_log_def started_log_def ol_start_def ol_new_def is_cout_logger_def)

lemma logged_started: "tbb_queue_ok tbb \<Longrightarrow> logged tbb [] (started_log tbb CoutLog 1)"
  using ol_reach.Started [of tbb CoutLog 1] tbb_queue_facts(1) [of tbb]
  by (auto simp: logged_def started_log_def ol_start_def ol_new_def)

lemma logged_turn:
  assumes "tbb_queue_ok tbb" "logged tbb h a"
  shows "logged tbb h (worker_turn tbb a)"
proof -
  have r: "ol_reach tbb CoutLog 1 a h" "ol_running a" using assms(2) by (simp_all add: logged_def)
  have inv: "ol_runner a" "ol_tgt a" "None \<notin> set (tbb_items tbb (ol_queue a))"
    using ol_reach_inv [OF r(1) assms(1)] r(2) by (auto simp: ol_inv_def)
  show ?thesis
  proof (cases "tbb_pop tbb (ol_queue a)")
    case None
    then show ?thesis
      using ol_reach.Waiting [OF r(1) inv(1) None] assms(2) inv(1)
      by (simp add: worker_turn_def worker_iter_def logged_def worker_wait_def)
  next
    case (Some xq)
    obtain x q where x: "tbb_pop tbb (ol_queue a) = Some (x, q)" using Some by (cases xq) auto
    note items = tbb_queue_facts(4) [OF assms(1) x]
    obtain l where l: "x = Some l" using items inv(3) by (cases x) auto
    let ?a = "a\<lparr>ol_queue := q, ol_waiting := False, ol_out := ol_out a @ l @ [CHR 0x0A]\<rparr>"
    have it: "worker_iter tbb a = Next ?a" using x l inv(2) by (simp add: worker_iter_def)
    show ?thesis using ol_reach.Worked [OF r(1) inv(1) it] assms(2) inv(1) items it by (simp add: worker_turn_def logged_def)
  qed
qed

lemma worker_turns_logged:
  assumes "tbb_queue_ok tbb" "logged tbb h a"
  shows "\<exists>a'. worker_turns tbb k (test_log a) = test_log a' \<and> logged tbb h a'"
proof (induction k)
  case (Suc k)
  then obtain a' where a': "worker_turns tbb k (test_log a) = test_log a'" "logged tbb h a'" by blast
  then have "worker_turns tbb (Suc k) (test_log a) = test_log (worker_turn tbb a')"
    by (simp add: worker_turns_def test_log_def set_obj_def log_obj_def use_count_def)
  then show ?case using logged_turn [OF assms(1) a'(2)] by blast
qed (use assms(2) in \<open>auto simp: worker_turns_def\<close>)

lemma info_logged:
  assumes "tbb_queue_ok tbb" "logged tbb h a" "length h < 2 ^ 63" "stamp \<lparr>os_text = [], os_fail = False\<rparr> = \<lparr>os_text = st, os_fail = False\<rparr>"
  shows "\<exists>a'. nstl_info (ostream_api tbb) stamp tid path n (os_put details) (test_log a) = Next (test_log a', Inr ()) \<and>
    logged tbb (h @ [log_text st tid 1 path n details]) a'"
proof -
  let ?t = "log_text st tid 1 path n details" and ?a = "a\<lparr>ol_queue := tbb_emplace tbb (Some (log_text st tid 1 path n details)) (ol_queue a)\<rparr>"
  have a: "ol_reach tbb CoutLog 1 a h" "ol_running a" "ol_throttle a = 2 ^ 63 - 1" "length (tbb_items tbb (ol_queue a)) \<le> length h"
    using assms(2) by (simp_all add: logged_def)
  have "int (length (tbb_items tbb (ol_queue a))) \<le> 2 ^ 63 - 1" using a(4) assms(3) by simp
  then have e: "push_emplace tbb ?t a = (?a, True)"
    using a(3) tbb_queue_facts(5) [OF assms(1)] by (simp add: push_emplace_def queue_size_def)
  have "logged tbb (h @ [?t]) ?a"
    using ol_reach.Emplaced [OF a(1) e] a tbb_queue_facts(2) [OF assms(1)] by (simp add: logged_def)
  moreover have "nstl_info (ostream_api tbb) stamp tid path n (os_put details) (test_log a) = Next (test_log ?a, Inr ())"
    using log_macro_text [of 1 stamp st 1 tid path n details] assms(4) e
    by (simp add: nstl_info_def log_statement_def test_log_def getLevel_def log_func_def use_count_def log_obj_def log_push_def set_obj_def)
  ultimately show ?thesis by blast
qed

lemma reset_logged:
  assumes "tbb_queue_ok tbb" "logged tbb h a"
  shows "\<exists>w. logger_reset (ostream_api tbb) 0 (test_log a) = Next w \<and> ol_out (log_obj w 0) = lines_text h \<and> live_logs w = []"
proof -
  have a: "ol_reach tbb CoutLog 1 a h" "ol_running a" using assms(2) by (simp_all add: logged_def)
  have cout: "is_cout_logger a" using ol_reach_inv [OF a(1) assms(1)] by (simp add: ol_inv_def is_cout_logger_def)
  obtain s where s: "log_stop tbb a = Next (s, True)" "ol_reach tbb CoutLog 1 s h" "\<not> ol_runner s"
    using log_stop_reach [OF assms(1) a(1)] a(2) by auto
  have "ol_out s = lines_text h" using ol_reach_inv [OF s(2) assms(1)] s(3) by (simp add: ol_inv_def)
  then show ?thesis
    using s(1) cout
    by (simp add: logger_reset_def test_log_def stack_erase_def release_def use_count_def set_functor_def set_count_def log_obj_def
        set_obj_def live_logs_def)
qed

text \<open>The flag is taken out of the arguments.\<close>

lemma test_arguments_healthy:
  "test_arguments env (int (length args)) (map Some args @ [None]) =
     Inr (case env ''NSTL_PROCESSES_ID'' of Some v \<Rightarrow> v | None \<Rightarrow> [], case env ''NSTL_PROCESSES_NUMBER'' of Some v \<Rightarrow> v | None \<Rightarrow> [],
       ''--healthy'' \<in> set args, map Some (filter (\<lambda>a. a \<noteq> ''--healthy'') args))"
proof -
  have "filter (\<lambda>p. p \<noteq> Some v) (map Some args) = map Some (filter (\<lambda>a. a \<noteq> v) args)" for v :: string
    by (induction args) simp_all
  then show ?thesis
    using is_arg_set_loop_correct [of 0 "length args" "map Some args @ [None]" "''--healthy''" False]
    by (simp add: test_arguments_def get_env_var_def is_arg_set_def Let_def image_iff)
qed

text \<open>The initialisation, with the descriptor of the signals, and the wait on it.\<close>

lemma test_initialised:
  assumes "0 \<le> gc_sigprocmask gc" "0 \<le> gc_signalfd gc" "gc_curl gc = 0"
  shows "\<exists>g. global_init_new GiLinux gc True True global_start = (g, Inr ()) \<and> gi_sfd g = gc_signalfd gc \<and>
    gi_open g = [gc_signalfd gc] \<and> gi_curl g = 1"
  using assms by (simp add: global_init_new_def openSignalFile_def global_start_def Let_def)

lemma test_waited:
  assumes "lc_epoll_create lc \<noteq> - 1" "lc_add_signal lc" "lc_del_signal lc"
    and "signo \<in> {SIGINT, SIGTERM, SIGQUIT}" "lc_waits lc = signal_waits sfd k j signo"
  shows "\<exists>v. linux_wait lc sfd fds = (fds, Returns (Some v)) \<and> from_signal_conv signo = Inr v \<and> to_signal_conv v = signo"
  using signal_waits_value [OF assms(4), of sfd k j] assms
  by (auto simp: linux_wait_def Let_def closing_def removing_def)

lemma test_left:
  assumes "tbb_queue_ok tbb" "logged tbb h a" "gi_open g = [gi_sfd g]" "0 \<le> gi_sfd g" "gi_curl g = 1"
  shows "\<exists>g' w. test_leave tbb 0 code g (test_log a) = ((g', w), Returns code) \<and> ol_out (log_obj w 0) = lines_text h \<and> live_logs w = [] \<and>
    gi_open g' = [] \<and> gi_curl g' = 0"
  using reset_logged [OF assms(1,2)] assms(3-5)
  by (auto simp: test_leave_def log_call_def global_init_delete_def Let_def)

text \<open>C20 (\<^verbatim>\<open>multi_test\<close>): when the library can be set up, and the wait is interrupted any number of times until SIGINT, SIGTERM or SIGQUIT
  arrives, the program returns: with success if \<^verbatim>\<open>--healthy\<close> is among its arguments, and otherwise with the number of the signal.
  Whatever turns the thread of the logger has taken, its output is then two lines, whole and in order: the values of the two variables
  with the arguments other than the flag, and the name of the signal. The logger is gone, and every descriptor is closed.\<close>

theorem multi_test_ends:
  assumes "tbb_queue_ok tbb"
    and "0 \<le> gc_sigprocmask gc" "0 \<le> gc_signalfd gc" "gc_curl gc = 0"
    and "lc_epoll_create lc \<noteq> - 1" "lc_add_signal lc" "lc_del_signal lc"
    and "signo \<in> {SIGINT, SIGTERM, SIGQUIT}" "lc_waits lc = signal_waits (gc_signalfd gc) k j signo"
    and "stamp1 \<lparr>os_text = [], os_fail = False\<rparr> = \<lparr>os_text = st1, os_fail = False\<rparr>"
    and "stamp2 \<lparr>os_text = [], os_fail = False\<rparr> = \<lparr>os_text = st2, os_fail = False\<rparr>"
  shows "\<exists>g w v.
    main_test tbb gc lc (stamp1, stamp2) tid path turns env (int (length args)) (map Some args @ [None]) global_start log_world_init =
      ((g, w), Returns (if ''--healthy'' \<in> set args then 0 else signo)) \<and>
    from_signal_conv signo = Inr v \<and>
    ol_out (log_obj w 0) = lines_text
      [log_text st1 tid 1 path 18
         (test_details (case env ''NSTL_PROCESSES_ID'' of Some x \<Rightarrow> x | None \<Rightarrow> []) (case env ''NSTL_PROCESSES_NUMBER'' of Some x \<Rightarrow> x | None \<Rightarrow> [])
            (map Some (filter (\<lambda>a. a \<noteq> ''--healthy'') args))),
       log_text st2 tid 1 path 22 (sigval_name v @ '' received'')] \<and>
    live_logs w = [] \<and> gi_open g = [] \<and> gi_curl g = 0"
proof -
  obtain g where g: "global_init_new GiLinux gc True True global_start = (g, Inr ())" "gi_sfd g = gc_signalfd gc"
    "gi_open g = [gc_signalfd gc]" "gi_curl g = 1" using test_initialised [OF assms(2-4)] by blast
  obtain v where v: "linux_wait lc (gi_sfd g) (gi_open g) = (gi_open g, Returns (Some v))" "from_signal_conv signo = Inr v" "to_signal_conv v = signo"
    using test_waited [OF assms(5-9)] g(2) by metis
  define d1 where "d1 = test_details (case env ''NSTL_PROCESSES_ID'' of Some x \<Rightarrow> x | None \<Rightarrow> []) (case env ''NSTL_PROCESSES_NUMBER'' of Some x \<Rightarrow> x | None \<Rightarrow> [])
    (map Some (filter (\<lambda>a. a \<noteq> ''--healthy'') args))"
  define l1 l2 where "l1 = log_text st1 tid 1 path 18 d1" and "l2 = log_text st2 tid 1 path 22 (sigval_name v @ '' received'')"
  obtain a1 where a1: "worker_turns tbb (fst turns) (test_log (started_log tbb CoutLog 1)) = test_log a1" "logged tbb [] a1"
    using worker_turns_logged [OF assms(1) logged_started [OF assms(1)]] by blast
  obtain a2 where a2: "nstl_info (ostream_api tbb) stamp1 tid path 18 (os_put d1) (test_log a1) = Next (test_log a2, Inr ())" "logged tbb [l1] a2"
    using info_logged [OF assms(1) a1(2), of stamp1 st1 tid path 18 d1] assms(10) by (auto simp: l1_def)
  obtain a3 where a3: "worker_turns tbb (snd turns) (test_log a2) = test_log a3" "logged tbb [l1] a3"
    using worker_turns_logged [OF assms(1) a2(2)] by blast
  obtain a4 where a4: "nstl_info (ostream_api tbb) stamp2 tid path 22 (os_put (sigval_name v @ '' received'')) (test_log a3) = Next (test_log a4, Inr ())"
    "logged tbb [l1, l2] a4"
    using info_logged [OF assms(1) a3(2), of stamp2 st2 tid path 22 "sigval_name v @ '' received''"] assms(11) by (auto simp: l2_def)
  let ?code = "if ''--healthy'' \<in> set args then 0 else signo"
  have "main_test tbb gc lc (stamp1, stamp2) tid path turns env (int (length args)) (map Some args @ [None]) global_start log_world_init =
      test_leave tbb 0 ?code (g\<lparr>gi_open := [gc_signalfd gc]\<rparr>) (test_log a4)"
    using g v(1,3) a1(1) a2(1) a3(1) a4(1) assms(3)
    by (simp add: main_test_def log_call_def test_log_made test_arguments_healthy d1_def [symmetric] Let_def test_wait_def
        getSignalFile_def linux_barrier_new_def)
  then show ?thesis
    using test_left [OF assms(1) a4(2), of "g\<lparr>gi_open := [gc_signalfd gc]\<rparr>" ?code] g(2-4) assms(3) v(2) unfolding l1_def l2_def d1_def by auto
qed

theorem multi_test_ends_witness:
  "\<exists>g w. main_test list_queue \<lparr>gc_sigprocmask = 0, gc_signalfd = 5, gc_curl = 0, gc_wsa = 0\<rparr>
       \<lparr>lc_timerfd_create = 0, lc_timerfd_settime = True, lc_epoll_create = 6, lc_add_signal = True, lc_add_timer = True,
        lc_del_signal = True, lc_del_timer = True, lc_waits = signal_waits 5 1 1 SIGTERM\<rparr>
       (os_put ''T1'', os_put ''T2'') ''7'' ''bin/test/main_test.cpp'' (1, 2) [''NSTL_PROCESSES_ID'' \<mapsto> ''3''] 2 [Some ''t'', Some ''x'', None]
       global_start log_world_init = ((g, w), Returns SIGTERM) \<and>
     ol_out (log_obj w 0) =
       ''T1|main_test.cpp:18|7|INFO|NSTL_PROCESSES_ID: 3; NSTL_PROCESSES_NUMBER:  (args: t x)'' @ [CHR 0x0A] @
       ''T2|main_test.cpp:22|7|INFO|SIGTERM received'' @ [CHR 0x0A] \<and> gi_open g = []"
proof -
  let ?gc = "\<lparr>gc_sigprocmask = 0, gc_signalfd = 5, gc_curl = 0, gc_wsa = 0\<rparr>"
  let ?lc = "\<lparr>lc_timerfd_create = 0, lc_timerfd_settime = True, lc_epoll_create = 6, lc_add_signal = True, lc_add_timer = True,
        lc_del_signal = True, lc_del_timer = True, lc_waits = signal_waits 5 1 1 SIGTERM\<rparr>"
  have base: "safe_basename_view ''bin/test/main_test.cpp'' = ''main_test.cpp''" by code_simp
  have num: "show_int 18 = ''18''" "show_int 22 = ''22''" by code_simp+
  show ?thesis
    using multi_test_ends [OF list_queue_ok, of ?gc ?lc SIGTERM 1 1 "os_put ''T1''" "''T1''" "os_put ''T2''" "''T2''" "''7''"
        "''bin/test/main_test.cpp''" "(1, 2)" "[''NSTL_PROCESSES_ID'' \<mapsto> ''3'']" "[''t'', ''x'']"]
    by (auto simp: os_put_def log_text_def base num log_levels_def test_details_def from_signal_conv_def)
qed

end
