(* ===== verification/Accessors.thy ===== *)
theory Accessors
  imports Vector DeadLock Composition "HOL-Library.List_Lexorder" "HOL-Library.Char_ord"
begin

text \<open>
  Reading operations and conversions around the components: iterators and sizes of the vector, comparisons of handle owners,
  durations with \<^verbatim>\<open>PerfCheck\<close> and the templates of the dead lock checker, names of time zones and their order, and the constructors of
  temporary directories and files that choose the place or the name.
\<close>

section \<open>Definitions\<close>

subsection \<open>vector.hpp\<close>

text \<open>An iterator is the pointer of the vector with an offset.\<close>

type_synonym vec_iterator = "addr option \<times> nat"

definition vec_data :: "'a vstate \<Rightarrow> addr option" where
  "vec_data s = v_ptr (snd s)"

definition vec_begin :: "'a vstate \<Rightarrow> vec_iterator" where
  "vec_begin s = (v_ptr (snd s), 0)"

definition vec_end :: "'a vstate \<Rightarrow> vec_iterator" where
  "vec_end s = (v_ptr (snd s), v_size (snd s))"

definition vec_empty :: "'a vstate \<Rightarrow> bool" where
  "vec_empty s \<longleftrightarrow> v_size (snd s) = 0"

definition vec_size :: "'a vstate \<Rightarrow> nat" where
  "vec_size s = v_size (snd s)"

definition vec_capacity :: "'a vstate \<Rightarrow> nat" where
  "vec_capacity s = v_capacity (snd s)"

text \<open>A loop of a client from one iterator to another: what it reads.\<close>

fun iterate_from :: "'a vstate \<Rightarrow> nat \<Rightarrow> nat \<Rightarrow> 'a list result" where
  "iterate_from s i 0 = Inr []"
| "iterate_from s i (Suc n) = bind_result (load_cell s i) (\<lambda>x. bind_result (iterate_from s (Suc i) n) (\<lambda>xs. Inr (x # xs)))"

definition iterate :: "'a vstate \<Rightarrow> vec_iterator \<Rightarrow> vec_iterator \<Rightarrow> 'a list result" where
  "iterate s b e = iterate_from s (snd b) (snd e - snd b)"

subsection \<open>handle_raii.hpp\<close>

text \<open>The conversion to the handle, and the comparisons of two owners, or of an owner and a handle.\<close>

definition raii_get :: "nat \<Rightarrow> 'h raii_world \<Rightarrow> 'h" where
  "raii_get i w = rw_objs w ! i"

definition raii_eq :: "'h raii_world \<Rightarrow> nat \<Rightarrow> nat \<Rightarrow> bool" where
  "raii_eq w i j \<longleftrightarrow> rw_objs w ! i = rw_objs w ! j"

definition raii_less :: "'h :: linorder raii_world \<Rightarrow> nat \<Rightarrow> nat \<Rightarrow> bool" where
  "raii_less w i j \<longleftrightarrow> rw_objs w ! i < rw_objs w ! j"

definition value_eq_raii :: "'h raii_world \<Rightarrow> 'h \<Rightarrow> nat \<Rightarrow> bool" where
  "value_eq_raii w h i \<longleftrightarrow> h = rw_objs w ! i"

definition value_less_raii :: "'h :: linorder raii_world \<Rightarrow> 'h \<Rightarrow> nat \<Rightarrow> bool" where
  "value_less_raii w h i \<longleftrightarrow> h < rw_objs w ! i"

definition raii_eq_value :: "'h raii_world \<Rightarrow> nat \<Rightarrow> 'h \<Rightarrow> bool" where
  "raii_eq_value w i h \<longleftrightarrow> rw_objs w ! i = h"

definition raii_less_value :: "'h :: linorder raii_world \<Rightarrow> nat \<Rightarrow> 'h \<Rightarrow> bool" where
  "raii_less_value w i h \<longleftrightarrow> rw_objs w ! i < h"

subsection \<open>dead_lock_detect.hpp\<close>

text \<open>A duration is a count of periods, and a period a positive fraction of a second; \<^verbatim>\<open>duration_cast\<close> rounds towards zero. The
  counts do not overflow.\<close>

definition trunc_div :: "int \<Rightarrow> int \<Rightarrow> int" where
  "trunc_div a b = (if a < 0 then - ((- a) div b) else a div b)"

definition duration_cast :: "int \<times> int \<Rightarrow> int \<times> int \<Rightarrow> int \<Rightarrow> int" where
  "duration_cast from to n = (case (from, to) of ((n1, d1), (n2, d2)) \<Rightarrow> trunc_div (n * (n1 * d2)) (d1 * n2))"

abbreviation "nano \<equiv> (1 :: int, 1000000000 :: int)"

text \<open>\<^verbatim>\<open>PerfCheck\<close> holds a time point of the steady clock, in nanoseconds.\<close>

definition perf_new :: "int \<Rightarrow> int" where
  "perf_new now = now"

definition perf_snap :: "int \<times> int \<Rightarrow> int \<Rightarrow> int \<Rightarrow> int" where
  "perf_snap period now tp = duration_cast nano period (now - tp)"

definition exec_call :: "nat \<Rightarrow> dl_world \<Rightarrow> dl_world" where
  "exec_call p w = exec_bump p w"

definition checker_new_duration :: "int \<times> int \<Rightarrow> int \<Rightarrow> bool \<Rightarrow> int \<Rightarrow> dl_world result" where
  "checker_new_duration period timeout alerter now = checker_new (duration_cast period nano timeout) alerter now"

subsection \<open>c_timezone.hpp\<close>

datatype c_timezone = CTimezone (cz_name: string)

definition cz_default :: c_timezone where
  "cz_default = CTimezone ''current''"

definition cz_eq :: "c_timezone \<Rightarrow> c_timezone \<Rightarrow> bool" where
  "cz_eq a b \<longleftrightarrow> cz_name a = cz_name b"

datatype strong_ordering = OrdLess | OrdEqual | OrdGreater

definition cz_compare :: "c_timezone \<Rightarrow> c_timezone \<Rightarrow> strong_ordering" where
  "cz_compare a b = (if cz_name a < cz_name b then OrdLess else if cz_name a = cz_name b then OrdEqual else OrdGreater)"

definition to_sys_choose :: "'tm ctime \<Rightarrow> int \<Rightarrow> int \<Rightarrow> 'choose \<Rightarrow> int result" where
  "to_sys_choose ct den tp how = to_sys ct den tp"

instantiation c_timezone :: linorder
begin

definition less_c_timezone where
  "a < b \<longleftrightarrow> cz_compare a b = OrdLess"

definition less_eq_c_timezone where
  "a \<le> b \<longleftrightarrow> cz_compare a b \<noteq> OrdGreater"

instance
proof
  fix a b c :: c_timezone
  show "a < b \<longleftrightarrow> a \<le> b \<and> \<not> b \<le> a" "a \<le> a" "a \<le> b \<or> b \<le> a"
    by (auto simp: less_c_timezone_def less_eq_c_timezone_def cz_compare_def)
  show "a \<le> b \<Longrightarrow> b \<le> c \<Longrightarrow> a \<le> c" "a \<le> b \<Longrightarrow> b \<le> a \<Longrightarrow> a = b"
    by (auto simp: less_eq_c_timezone_def cz_compare_def c_timezone.expand split: if_splits)
qed

end

subsection \<open>temp_dir.cpp\<close>

text \<open>The directory for temporary files is asked for first, then the name is made; eight letters.\<close>

definition temp_place ::
    "environment \<Rightarrow> string result \<Rightarrow> (nat \<Rightarrow> 'g) \<Rightarrow> ('g \<Rightarrow> char \<times> 'g) \<Rightarrow> nat option \<Rightarrow> nat \<Rightarrow> 'g option \<Rightarrow>
     'g option \<times> (string \<times> string) result" where
  "temp_place env std_path seeded engine seed device local =
     (case temp_directory_path env std_path of
        Inl e \<Rightarrow> (local, Inl e)
      | Inr parent \<Rightarrow>
          (case thread_file_name seeded engine 8 seed device local of
             (local, Inl e) \<Rightarrow> (local, Inl e)
           | (local, Inr name) \<Rightarrow> (local, Inr (parent, name))))"

definition temp_dir_seeded ::
    "'f dir_api \<Rightarrow> environment \<Rightarrow> string result \<Rightarrow> (nat \<Rightarrow> 'g) \<Rightarrow> ('g \<Rightarrow> char \<times> 'g) \<Rightarrow> nat option \<Rightarrow> nat \<Rightarrow> 'g option \<Rightarrow> 'f \<Rightarrow>
     'g option \<times> 'f \<times> temp_dir result" where
  "temp_dir_seeded api env std_path seeded engine seed device local f =
     (case temp_place env std_path seeded engine seed device local of
        (local, Inl e) \<Rightarrow> (local, f, Inl e)
      | (local, Inr (parent, name)) \<Rightarrow> (local, temp_dir_new api parent name f))"

definition temp_dir_named :: "'f dir_api \<Rightarrow> environment \<Rightarrow> string result \<Rightarrow> string \<Rightarrow> 'f \<Rightarrow> 'f \<times> temp_dir result" where
  "temp_dir_named api env std_path name f =
     (case temp_directory_path env std_path of Inl e \<Rightarrow> (f, Inl e) | Inr parent \<Rightarrow> temp_dir_new api parent name f)"

definition temp_file_seeded ::
    "int \<Rightarrow> environment \<Rightarrow> string result \<Rightarrow> (nat \<Rightarrow> 'g) \<Rightarrow> ('g \<Rightarrow> char \<times> 'g) \<Rightarrow> nat option \<Rightarrow> nat \<Rightarrow> bool \<Rightarrow> 'g option \<Rightarrow>
     file_world \<Rightarrow> 'g option \<times> file_world \<times> unit result" where
  "temp_file_seeded fd env std_path seeded engine seed device readable local w =
     (case temp_place env std_path seeded engine seed device local of
        (local, Inl e) \<Rightarrow> (local, w, Inl e)
      | (local, Inr (parent, name)) \<Rightarrow> (local, temp_file_new fd parent name readable w))"

definition temp_file_named ::
    "int \<Rightarrow> environment \<Rightarrow> string result \<Rightarrow> string \<Rightarrow> bool \<Rightarrow> file_world \<Rightarrow> file_world \<times> unit result" where
  "temp_file_named fd env std_path name readable w =
     (case temp_directory_path env std_path of Inl e \<Rightarrow> (w, Inl e) | Inr parent \<Rightarrow> temp_file_new fd parent name readable w)"

section \<open>Theorems\<close>

subsection \<open>Iterators\<close>

lemma iterate_from_list:
  assumes "vec_inv sz s"
  shows "i + n \<le> length (vec_list s) \<Longrightarrow> iterate_from s i n = Inr (take n (drop i (vec_list s)))"
proof (induction n arbitrary: i)
  case (Suc n)
  then show ?case using load_cell_list [OF assms, of i] by (simp add: Cons_nth_drop_Suc [symmetric])
qed simp

text \<open>Going from the first iterator to the last one reads the elements, and no memory that is not there.\<close>

theorem iterate_elements:
  assumes "vec_inv sz s"
  shows "iterate s (vec_begin s) (vec_end s) = Inr (vec_list s)" "vec_empty s \<longleftrightarrow> vec_list s = []"
    "vec_size s = length (vec_list s)" "vec_size s \<le> vec_capacity s" "vec_data s = None \<Longrightarrow> vec_capacity s = 0"
proof -
  have len: "length (vec_list s) = v_size (snd s)" using length_vec_list [of sz "fst s" "snd s"] assms by simp
  show "iterate s (vec_begin s) (vec_end s) = Inr (vec_list s)"
    using iterate_from_list [OF assms, of 0 "v_size (snd s)"] len by (simp add: iterate_def vec_begin_def vec_end_def)
  show "vec_empty s \<longleftrightarrow> vec_list s = []" "vec_size s = length (vec_list s)" using len by (auto simp: vec_empty_def vec_size_def)
  show "vec_size s \<le> vec_capacity s" using vec_inv_size_le [OF assms] by (simp add: vec_size_def vec_capacity_def)
  show "vec_data s = None \<Longrightarrow> vec_capacity s = 0" using assms by (simp add: vec_data_def vec_capacity_def vec_inv_def)
qed

subsection \<open>Owners\<close>

lemma distinct_filter_nth:
  assumes "distinct (filter P xs)" "i < length xs" "j < length xs" "xs ! i = xs ! j" "P (xs ! i)"
  shows "i = j"
  using assms
proof (induction xs arbitrary: i j)
  case (Cons x xs)
  have mem: "xs ! k \<in> set (filter P xs)" if "k < length xs" "P (xs ! k)" for k using that by simp
  show ?case
  proof (cases i)
    case 0
    then show ?thesis using Cons.prems mem [of "j - 1"] by (cases j) auto
  next
    case (Suc i')
    then show ?thesis using Cons.prems Cons.IH [of i' "j - 1"] mem [of i'] by (cases j) (auto split: if_splits)
  qed
qed simp

text \<open>When no handle comes in twice, two owners that hold a valid handle are equal only if they are the same object.\<close>

theorem raii_eq_same:
  assumes "\<not> valid_handle t (invalid_value t)" and "raii_run t cs \<lparr>rw_objs = [], rw_freed = []\<rparr> = (w, ins, outs)"
    and "distinct (filter (valid_handle t) ins)" and "i < length (rw_objs w)" "j < length (rw_objs w)"
    and "raii_eq w i j" "raii_bool t i w"
  shows "i = j"
proof -
  have "valid_mset t (rw_objs w) \<subseteq># valid_mset t ins"
    using raii_balance [OF assms(1,2)] by (simp add: raii_account_def) (metis mset_subset_eq_add_right mset_subset_eq_add_left subset_mset.trans)
  then obtain rest where "mset (filter (valid_handle t) ins) = mset (filter (valid_handle t) (rw_objs w) @ rest)"
    unfolding valid_mset_def mset_filter [symmetric] by (metis ex_mset mset_append mset_subset_eq_exists_conv)
  then have "distinct (filter (valid_handle t) (rw_objs w))"
    using assms(3) mset_eq_imp_distinct_iff by fastforce
  then show ?thesis
    using assms(4-7) by (intro distinct_filter_nth [of "valid_handle t" "rw_objs w"]) (simp_all add: raii_eq_def raii_bool_def)
qed

lemma raii_comparisons:
  "raii_eq w i j \<longleftrightarrow> raii_eq_value w i (raii_get j w)" "raii_less w i j \<longleftrightarrow> raii_less_value w i (raii_get j w)"
  "raii_less w i j \<longleftrightarrow> value_less_raii w (raii_get i w) j" "value_eq_raii w h i \<longleftrightarrow> raii_eq_value w i h"
  "\<not> raii_less w i j \<and> \<not> raii_less w j i \<longleftrightarrow> raii_eq w i j"
  by (auto simp: raii_eq_def raii_less_def raii_eq_value_def raii_less_value_def value_eq_raii_def value_less_raii_def raii_get_def)

subsection \<open>Durations\<close>

lemma trunc_div_mult: "0 < b \<Longrightarrow> trunc_div (a * b) b = a"
  using nonzero_mult_div_cancel_right [of b a] nonzero_mult_div_cancel_right [of b "- a"] by (auto simp: trunc_div_def)

lemma trunc_div_bounds: "0 < b \<Longrightarrow> \<bar>trunc_div a b * b\<bar> \<le> \<bar>a\<bar> \<and> \<bar>a\<bar> < \<bar>trunc_div a b * b\<bar> + b"
proof -
  assume b: "0 < b"
  have pos: "x div b * b \<le> x \<and> x < x div b * b + b \<and> 0 \<le> x div b * b" if "0 \<le> x" for x :: int
  proof -
    have "0 \<le> x div b * b" using b that by (simp add: pos_imp_zdiv_nonneg_iff)
    moreover have "x div b * b = x - x mod b" by (simp add: minus_mod_eq_div_mult)
    ultimately show ?thesis using pos_mod_bound [OF b, of x] pos_mod_sign [OF b, of x] by simp
  qed
  show ?thesis using pos [of a] pos [of "- a"] by (cases "a < 0") (auto simp: trunc_div_def)
qed

text \<open>A duration in whole multiples of the finer period is converted exactly, and back.\<close>

lemma duration_cast_finer:
  assumes "0 < d1" "0 < n2" "0 < k" "n1 * d2 = k * (d1 * n2)"
  shows "duration_cast (n1, d1) (n2, d2) n = n * k" "duration_cast (n2, d2) (n1, d1) (n * k) = n"
proof -
  have pos: "0 < d1 * n2" "0 < n1 * d2" using assms by simp_all
  show "duration_cast (n1, d1) (n2, d2) n = n * k"
    using trunc_div_mult [OF pos(1), of "n * k"] assms(4) by (simp add: duration_cast_def mult.assoc)
  have eq: "n * k * (n2 * d1) = n * (d2 * n1)" using assms(4) by (simp add: ac_simps)
  have "0 < d2 * n1" using pos(2) by (simp add: mult.commute)
  then show "duration_cast (n2, d2) (n1, d1) (n * k) = n"
    unfolding duration_cast_def prod.case eq by (rule trunc_div_mult)
qed

lemma perf_snap_seconds:
  assumes "tp \<le> now"
  shows "perf_snap (1, 1) now (perf_new tp) = (now - tp) div 1000000000" "perf_snap nano now (perf_new tp) = now - tp"
    "0 \<le> perf_snap (1, 1) now (perf_new tp)"
  using assms by (simp_all add: perf_snap_def perf_new_def duration_cast_def trunc_div_def)

text \<open>A timeout below a nanosecond becomes zero and is refused, although it is positive.\<close>

lemma short_timeout_refused:
  assumes "0 < timeout" "timeout < 1000"
  shows "checker_new_duration (1, 1000000000000) timeout True now = Inl (NstlException ''timeout must be greater than zero'')"
  using assms by (simp add: checker_new_duration_def duration_cast_def trunc_div_def checker_new_def throw_if_def)

lemma seconds_timeout_taken:
  "0 < timeout \<Longrightarrow> \<exists>w. checker_new_duration (1, 1) timeout True now = Inr w \<and> dl_timeout w = timeout * 1000000000"
  by (simp add: checker_new_duration_def duration_cast_def trunc_div_def checker_new_def throw_if_def)

subsection \<open>Time zones\<close>

lemma cz_comparison:
  "cz_compare a b = OrdEqual \<longleftrightarrow> cz_eq a b" "cz_eq a b \<longleftrightarrow> a = b" "cz_compare a b = OrdGreater \<longleftrightarrow> cz_compare b a = OrdLess"
  by (auto simp: cz_compare_def cz_eq_def c_timezone.expand)

subsection \<open>Temporary names\<close>

lemma random_letters_chars:
  assumes "\<And>g. fst (engine g) \<in> A"
  shows "length (fst (random_letters engine n g)) = n \<and> set (fst (random_letters engine n g)) \<subseteq> A"
proof (induction n arbitrary: g)
  case (Suc n)
  have "fst (engine g) \<in> A" by (rule assms)
  then show ?case using Suc.IH [of "snd (engine g)"] by (auto simp: case_prod_beta)
qed simp

text \<open>The name is eight characters of the engine's letters, below the directory of the variable \<^verbatim>\<open>TMPDIR\<close> if that is set.\<close>

lemma temp_place_name:
  assumes "temp_place env std_path seeded engine seed device local = (local', Inr (parent, name))" and "\<And>g. fst (engine g) \<in> A"
  shows "length name = 8 \<and> set name \<subseteq> A \<and> temp_directory_path env std_path = Inr parent \<and> local' \<noteq> None"
proof -
  define g where "g = (case local of Some g \<Rightarrow> g | None \<Rightarrow> seeded (get_seed seed device))"
  have "random_letters engine 8 g = (name, the local')" "local' \<noteq> None" "temp_directory_path env std_path = Inr parent"
    using assms(1) unfolding temp_place_def thread_file_name_def g_def [symmetric]
    by (auto simp: random_file_name_def throw_if_def Let_def split: sum.splits prod.splits)
  then show ?thesis using random_letters_chars [where engine = engine and n = 8 and g = g, OF assms(2)] by simp
qed

end
