(* ===== verification/Base64Demo.thy ===== *)
theory Base64Demo
  imports Numeric
begin

text \<open>
  An instance of the parameter for the iterators of Boost that theory \<^verbatim>\<open>Numeric\<close> takes: the encoding of RFC 4648 without padding, which
  has the behaviour \<open>b64_ok\<close> asks for.
\<close>

definition b64_alphabet :: string where
  "b64_alphabet = ''ABCDEFGHIJKLMNOPQRSTUVWXYZabcdefghijklmnopqrstuvwxyz0123456789+/''"

definition bits_value :: "bool list \<Rightarrow> nat" where
  "bits_value bs = foldl (\<lambda>n b. 2 * n + of_bool b) 0 bs"

definition b64_digit :: "bool list \<Rightarrow> char" where
  "b64_digit bs = b64_alphabet ! bits_value bs"

definition b64_undigit :: "char \<Rightarrow> bool list" where
  "b64_undigit c =
     (case find_idx c b64_alphabet of
        None \<Rightarrow> []
      | Some i \<Rightarrow> map (\<lambda>k. odd (i div 2 ^ k)) [5, 4, 3, 2, 1, 0])"

fun b64_enc :: "bool list \<Rightarrow> string" where
  "b64_enc [] = []"
| "b64_enc (b # bs) = b64_digit (take 6 (b # bs @ replicate 5 False)) # b64_enc (drop 5 bs)"

fun bytes_of :: "bool list \<Rightarrow> u8 list" where
  "bytes_of (a # b # c # d # e # f # g # h # bs) = word_of_nat (bits_value [a, b, c, d, e, f, g, h]) # bytes_of bs"
| "bytes_of _ = []"

definition b64_demo :: b64_lib where
  "b64_demo = \<lparr>b64_encode = \<lambda>bytes. b64_enc (bits_of bytes), b64_decode = \<lambda>text. bytes_of (concat (map b64_undigit text))\<rparr>"

section \<open>The behaviour of the iterators\<close>

lemma alphabet_facts: "length b64_alphabet = 64" "distinct b64_alphabet" "CHR ''='' \<notin> set b64_alphabet"
  by (simp_all add: b64_alphabet_def)

lemma six_bits:
  "bits_value [a, b, c, d, e, f] < 64 \<and>
     map (\<lambda>k. odd (bits_value [a, b, c, d, e, f] div 2 ^ k)) [5, 4, 3, 2, 1, 0] = [a, b, c, d, e, f]"
  by (cases a; cases b; cases c; cases d; cases e; cases f) (simp_all add: bits_value_def)

lemma six_list: "length bs = 6 \<Longrightarrow> \<exists>a b c d e f. bs = [a, b, c, d, e, f]"
  by (auto simp: numeral_eq_Suc length_Suc_conv)

lemma undigit_digit:
  assumes "length bs = 6"
  shows "b64_undigit (b64_digit bs) = bs \<and> b64_digit bs \<noteq> CHR ''=''"
proof -
  obtain a b c d e f where bs: "bs = [a, b, c, d, e, f]" using six_list [OF assms] by blast
  have lt: "bits_value bs < length b64_alphabet" using six_bits alphabet_facts(1) bs by simp
  then have "find_idx (b64_alphabet ! bits_value bs) b64_alphabet = Some (bits_value bs)"
    using find_idx_nth alphabet_facts(2) by blast
  moreover have "b64_digit bs \<noteq> CHR ''=''" using nth_mem [OF lt] alphabet_facts(3) by (auto simp: b64_digit_def)
  ultimately show ?thesis using six_bits [of a b c d e f] bs by (simp add: b64_undigit_def b64_digit_def del: list.map)
qed

lemma b64_enc_facts:
  "length (b64_enc bs) = (length bs + 5) div 6 \<and> CHR ''='' \<notin> set (b64_enc bs) \<and>
     (\<exists>k \<le> 5. concat (map b64_undigit (b64_enc bs)) = bs @ replicate k False)"
proof (induction bs rule: b64_enc.induct)
  case (2 b bs)
  let ?six = "take 6 (b # bs @ replicate 5 False)"
  have six: "b64_undigit (b64_digit ?six) = ?six" "b64_digit ?six \<noteq> CHR ''=''"
    using undigit_digit [of ?six] by simp_all
  obtain k where k: "k \<le> 5" "concat (map b64_undigit (b64_enc (drop 5 bs))) = drop 5 bs @ replicate k False" using 2 by blast
  have len: "length (b64_enc (b # bs)) = (length (b # bs) + 5) div 6"
    using 2 by (cases "length bs \<le> 5") (auto simp: div_add_self1 le_div_geq)
  show ?case
  proof (cases "5 \<le> length bs")
    case True
    then have "?six = b # take 5 bs" by simp
    then have "concat (map b64_undigit (b64_enc (b # bs))) = (b # bs) @ replicate k False" using six(1) k(2) by simp
    then show ?thesis using len six(2) 2 k(1) by auto
  next
    case False
    then have "?six = (b # bs) @ replicate (5 - length bs) False" "drop 5 bs = []" by simp_all
    then have "concat (map b64_undigit (b64_enc (b # bs))) = (b # bs) @ replicate (5 - length bs) False"
      using six(1) by simp
    then show ?thesis using len six(2) 2 by (intro conjI exI [of _ "5 - length bs"]) auto
  qed
qed simp

lemma byte_of_bits: "word_of_nat (bits_value [bit w 7, bit w 6, bit w 5, bit w 4, bit w 3, bit w 2, bit w 1, bit w 0]) = (w :: u8)"
proof -
  have "byte_bits (word_of_nat (bits_value [a, b, c, d, e, f, g, h])) = [a, b, c, d, e, f, g, h]" for a b c d e f g h
    by (cases a; cases b; cases c; cases d; cases e; cases f; cases g; cases h) (simp_all add: byte_bits_list bits_value_def)
  from this [of "bit w 7" "bit w 6" "bit w 5" "bit w 4" "bit w 3" "bit w 2" "bit w 1" "bit w 0"] show ?thesis
    unfolding byte_bits_list [of w, symmetric] byte_bits_inject by (simp add: byte_bits_list)
qed

lemma bytes_of_bits: "k \<le> 5 \<Longrightarrow> bytes_of (bits_of ws @ replicate k False) = ws"
proof (induction ws)
  case Nil
  then have "k \<in> {0, 1, 2, 3, 4, 5}" by auto
  then show ?case by (auto simp: numeral_eq_Suc)
next
  case (Cons w ws)
  then show ?case using byte_of_bits [of w] by (simp add: byte_bits_list)
qed

theorem b64_demo_ok: "b64_ok b64_demo"
  unfolding b64_ok_def
proof (intro allI conjI)
  fix bytes
  note facts = b64_enc_facts [of "bits_of bytes"]
  show "length (b64_encode b64_demo bytes) = (8 * length bytes + 5) div 6" using facts by (simp add: b64_demo_def)
  show "CHR ''='' \<notin> set (b64_encode b64_demo bytes)" using facts by (simp add: b64_demo_def)
  show "b64_decode b64_demo (b64_encode b64_demo bytes) = bytes" using facts bytes_of_bits by (auto simp: b64_demo_def)
qed

lemma b64_demo_text: "to_base64 b64_demo [0x4D, 0x61] = ''TWE=''"
  by code_simp

end
