(* ===== verification/SpfResolver.thy ===== *)
theory SpfResolver
  imports NstlPrelude
begin

text \<open>
  The tool of \<^verbatim>\<open>spf_resolver/main.cpp\<close>. Boost.Program_options is a parameter: reading the command line, the check and the assignment of the
  values, the text of an error and that of the description. What the process writes is its standard output and its standard error.
\<close>

section \<open>Definitions\<close>

text \<open>The values of the command line, and those that \<^verbatim>\<open>notify\<close> stores into the two variables.\<close>

record spf_values =
  sv_domain :: "string option"
  sv_help :: bool

record 'e po_lib =
  po_store :: "string list \<Rightarrow> 'e + spf_values"
  po_notify :: "spf_values \<Rightarrow> 'e + string \<times> bool"
  po_what :: "'e \<Rightarrow> string"
  po_desc :: string

record spf_end =
  se_code :: int
  se_out :: string
  se_err :: string

abbreviation (input) "EXIT_SUCCESS \<equiv> (0 :: int)"
abbreviation (input) "EXIT_FAILURE \<equiv> (1 :: int)"

definition spf_main :: "'e po_lib \<Rightarrow> string list \<Rightarrow> spf_end" where
  "spf_main po argv =
     (case (case po_store po argv of Inl e \<Rightarrow> Inl e | Inr vm \<Rightarrow> po_notify po vm) of
        Inl exc \<Rightarrow>
          \<lparr>se_code = EXIT_FAILURE, se_out = po_desc po @ [CHR 0x0A],
           se_err = ''Failed argument processing:'' @ [CHR 0x0A] @ po_what po exc @ [CHR 0x0A, CHR 0x0A]\<rparr>
      | Inr (domain_name, show_help) \<Rightarrow>
          if show_help then \<lparr>se_code = EXIT_FAILURE, se_out = po_desc po @ [CHR 0x0A], se_err = []\<rparr>
          else \<lparr>se_code = EXIT_SUCCESS, se_out = [], se_err = []\<rparr>)"

section \<open>Theorems\<close>

text \<open>The documented behaviour of \<^verbatim>\<open>notify\<close>: a required option that is not there is an error, otherwise the variables get the values.\<close>

definition po_ok :: "'e po_lib \<Rightarrow> bool" where
  "po_ok po \<longleftrightarrow>
     (\<forall>vm. case sv_domain vm of
             None \<Rightarrow> isl (po_notify po vm)
           | Some d \<Rightarrow> po_notify po vm = Inr (d, sv_help vm))"

lemma po_notify_cases:
  assumes "po_ok po"
  obtains (missing) e where "sv_domain vm = None" "po_notify po vm = Inl e"
  | (given) d where "sv_domain vm = Some d" "po_notify po vm = Inr (d, sv_help vm)"
proof (cases "sv_domain vm")
  case None
  then have "isl (po_notify po vm)" using assms [unfolded po_ok_def, rule_format, of vm] by simp
  then show thesis using missing [OF None] by (auto simp: isl_def)
next
  case (Some d)
  then show thesis using given [OF Some] assms [unfolded po_ok_def, rule_format, of vm] by simp
qed

text \<open>The tool succeeds exactly for a command line that is well formed, names a domain and does not ask for help, and then writes
  nothing: the domain is not looked up.\<close>

theorem spf_main_succeeds:
  assumes "po_ok po"
  shows "se_code (spf_main po argv) = EXIT_SUCCESS \<longleftrightarrow>
      (\<exists>vm. po_store po argv = Inr vm \<and> sv_domain vm \<noteq> None \<and> \<not> sv_help vm)"
    and "se_code (spf_main po argv) = EXIT_SUCCESS \<Longrightarrow> se_out (spf_main po argv) = [] \<and> se_err (spf_main po argv) = []"
    and "se_code (spf_main po argv) \<noteq> EXIT_SUCCESS \<Longrightarrow> se_out (spf_main po argv) = po_desc po @ [CHR 0x0A]"
proof -
  have "(se_code (spf_main po argv) = EXIT_SUCCESS \<longleftrightarrow>
      (\<exists>vm. po_store po argv = Inr vm \<and> sv_domain vm \<noteq> None \<and> \<not> sv_help vm)) \<and>
    (if se_code (spf_main po argv) = EXIT_SUCCESS then se_out (spf_main po argv) = [] \<and> se_err (spf_main po argv) = []
     else se_out (spf_main po argv) = po_desc po @ [CHR 0x0A])"
  proof (cases "po_store po argv")
    case (Inr vm)
    then show ?thesis by (cases rule: po_notify_cases [OF assms, of vm]) (auto simp: spf_main_def)
  qed (simp add: spf_main_def)
  then show "se_code (spf_main po argv) = EXIT_SUCCESS \<longleftrightarrow>
      (\<exists>vm. po_store po argv = Inr vm \<and> sv_domain vm \<noteq> None \<and> \<not> sv_help vm)"
    and "se_code (spf_main po argv) = EXIT_SUCCESS \<Longrightarrow> se_out (spf_main po argv) = [] \<and> se_err (spf_main po argv) = []"
    and "se_code (spf_main po argv) \<noteq> EXIT_SUCCESS \<Longrightarrow> se_out (spf_main po argv) = po_desc po @ [CHR 0x0A]"
    by (auto split: if_splits)
qed

text \<open>Help alone is refused, since the domain is required: the description comes with an error on the other stream.\<close>

lemma spf_help_needs_domain:
  assumes "po_ok po" and "po_store po argv = Inr \<lparr>sv_domain = None, sv_help = True\<rparr>"
  shows "\<exists>e. se_err (spf_main po argv) =
    ''Failed argument processing:'' @ [CHR 0x0A] @ po_what po e @ [CHR 0x0A, CHR 0x0A]"
  by (cases rule: po_notify_cases [OF assms(1), of "\<lparr>sv_domain = None, sv_help = True\<rparr>"]) (auto simp: spf_main_def assms(2))

text \<open>An instance of the library for \<^verbatim>\<open>-d\<close>, \<^verbatim>\<open>--domain\<close>, \<^verbatim>\<open>-h\<close> and \<^verbatim>\<open>--help\<close> with separate values.\<close>

fun demo_store :: "string list \<Rightarrow> spf_values \<Rightarrow> string + spf_values" where
  "demo_store [] vm = Inr vm"
| "demo_store (a # args) vm =
     (if a = ''-h'' \<or> a = ''--help'' then demo_store args (vm\<lparr>sv_help := True\<rparr>)
      else if a = ''-d'' \<or> a = ''--domain'' then
        (case args of
           [] \<Rightarrow> Inl ''the required argument for option is missing''
         | d # rest \<Rightarrow>
             if sv_domain vm = None then demo_store rest (vm\<lparr>sv_domain := Some d\<rparr>)
             else Inl ''option cannot be specified more than once'')
      else Inl ''unrecognised option'')"

definition demo_po :: "string po_lib" where
  "demo_po =
     \<lparr>po_store = (\<lambda>argv. demo_store (drop 1 argv) \<lparr>sv_domain = None, sv_help = False\<rparr>),
      po_notify = (\<lambda>vm. case sv_domain vm of None \<Rightarrow> Inl ''the option is required but missing'' | Some d \<Rightarrow> Inr (d, sv_help vm)),
      po_what = (\<lambda>e. e), po_desc = ''Allowed options:''\<rparr>"

lemma demo_po_ok: "po_ok demo_po"
  by (simp add: po_ok_def demo_po_def split: option.split)

lemma spf_main_demo:
  "se_code (spf_main demo_po [''spf'', ''-d'', ''a.org'']) = EXIT_SUCCESS \<and>
   se_code (spf_main demo_po [''spf'', ''--help'']) = EXIT_FAILURE \<and> se_err (spf_main demo_po [''spf'', ''--help'']) \<noteq> [] \<and>
   se_err (spf_main demo_po [''spf'', ''-d'', ''a.org'', ''--help'']) = []"
  by (simp add: spf_main_def demo_po_def)

end
