(* ===== verification/Spec2Isabelle.thy ===== *)
theory Spec2Isabelle
  imports StringTools Charconv IpTools Vector SvcbParams DnsClient DnsWindows CsvReader DataHash Logging Logger Resources FileTrigger
    HttpClient DeadLock SignalBarrier MultiRunner RunnerLinux RunnerMac RunnerWindows
    TriggerSetup TriggerRefine Backtrace Support Numeric Composition LogFlow MultiTest Accessors Base64Demo SpfResolver
begin

text \<open>
  This development models \<^verbatim>\<open>nstl\<close>, a C++ library that fills gaps around the standard library (strings, numbers, a vector, IP
  ranges, DNS, HTTP, CSV, hashes, logging, signals, file watching, resources), and the programs \<^verbatim>\<open>multi_runner\<close>, \<^verbatim>\<open>multi_test\<close> and
  \<^verbatim>\<open>spf_resolver\<close> beside it, and proves their properties. Paths below are relative to \<^verbatim>\<open>src/\<close>; \<^verbatim>\<open>nstl/\<close> stands for \<^verbatim>\<open>nstl/nstl/\<close>.

  \<^bold>\<open>Conventions.\<close> A struct or class is a record, an enumeration or variant a datatype, a function of the source one definition of the
  same name (with a suffix or prefix where HOL or another component has that name). Fallible code has type \<open>'a result\<close>, which is
  \<open>exn + 'a\<close>: \<open>Inl\<close> is the exception with the constant part of its message, and \<open>Undefined\<close> among the exceptions is undefined behaviour,
  so that a theorem which excludes it is a memory-safety theorem. Integers whose width matters are words. Loops are structural
  recursion where the code iterates over data and \<open>partial_function (option)\<close> where they may run on, in which case that they return is
  proved. Objects that refer to each other live in an explicit store: the heap of the vector, the clients and header lists of the HTTP
  client, the numbered handles of \<open>custom_raii\<close>.

  \<^bold>\<open>Code outside of the repository\<close> (the resolver library, Boost, OpenSSL, CryptoAPI, CommonCrypto, TBB, libcurl, libbacktrace, the system
  calls) is a parameter: a function or a record of functions with its documented behaviour as a named hypothesis (\<open>tbb_queue_ok\<close>,
  \<open>evp_ok\<close>, \<open>b64_ok\<close> and so on, each with an instance that has it), or the sequence of results of the calls. A loop over system
  calls takes such a sequence, and returns \<open>None\<close> if it is used up before the loop ends; inductive relations say which
  sequences a kernel gives, and the theorems hold for all of these. No other bound or fuel is used, but for the worker of the
  logger, where one turn more than there are queued items is enough and is proved to be.

  \<^bold>\<open>Theories.\<close>

  \<^item> \<^verbatim>\<open>NstlPrelude\<close>: machine types, exceptions as values, searching and comparing of lists, bit lists, and the interfaces
    \<open>strict_weak\<close>, \<open>strict_total\<close> (orders) and \<open>simulation\<close> (a run of operations against an abstract one).

  \<^item> \<^verbatim>\<open>StringTools\<close>: \<^verbatim>\<open>string.hpp\<close>, \<^verbatim>\<open>safe_basename.hpp\<close>, \<^verbatim>\<open>secure_string.hpp\<close>, \<^verbatim>\<open>range_print.hpp\<close>, \<^verbatim>\<open>args_editor.cpp\<close>: splitting and
    joining are inverse, trimming, \<open>is_arg_set\<close> is a stable partition, the null-safe comparison is a total order.
    \<^verbatim>\<open>Charconv\<close>: \<^verbatim>\<open>parse.hpp\<close> with the integral part of \<^verbatim>\<open>std::from_chars\<close>: soundness and round trip within the bounds of the type.

  \<^item> \<^verbatim>\<open>IpTools\<close>: \<^verbatim>\<open>ip_tools.hpp\<close>, \<^verbatim>\<open>ip_tools.cpp\<close>: masks are prefixes of ones, a range contains the addresses that share its prefix,
    parsing never throws and is well typed, the comparator is a strict weak order.

  \<^item> \<^verbatim>\<open>Vector\<close>: every member function of \<^verbatim>\<open>vector.hpp\<close> over a heap of blocks, with the allocator's choice (fail, in place, move) as
    an argument. Every run of operations simulates a list, keeps the invariant and leaks no block; reallocation is logarithmic.

  \<^item> \<^verbatim>\<open>SvcbParams\<close>, \<^verbatim>\<open>DnsClient\<close>, \<^verbatim>\<open>DnsWindows\<close>: \<^verbatim>\<open>dns_tools.cpp\<close>, \<^verbatim>\<open>dns_tools_posix.cpp\<close>, \<^verbatim>\<open>dns_tools_w32.cpp\<close>: lookups over the answers of
    a resolver. The decoders never read beyond the message, give the records the wire format means, and the two platforms agree.

  \<^item> \<^verbatim>\<open>CsvReader\<close>: \<^verbatim>\<open>csv_dict_reader.cpp\<close>, reader and writer: what is written is read back; blank, comment and ill-formed rows.

  \<^item> \<^verbatim>\<open>DataHash\<close>: \<^verbatim>\<open>datahash.cpp\<close> and its three back ends. The interface \<open>hasher_contract\<close> is met by each of them, and
    hashing a file in blocks gives the digest of its content.

  \<^item> \<^verbatim>\<open>Logging\<close>, \<^verbatim>\<open>Logger\<close>: \<^verbatim>\<open>logging.cpp\<close>, \<^verbatim>\<open>logger.cpp\<close>: levels, the format of a line, the worker thread with its queue (\<open>ol_reach\<close>: every
    interleaving of pushes, turns and stop), and the stack of loggers through the interface \<open>logger_contract\<close>: lines are written whole,
    in order and once, to a target that is alive. \<^verbatim>\<open>LogFlow\<close> has the macros of \<^verbatim>\<open>logging.hpp\<close> on the state of the loggers: what a log statement
    adds to the output, from its level and stamp to the worker thread.

  \<^item> \<^verbatim>\<open>Resources\<close>: \<^verbatim>\<open>handle_raii.hpp\<close>, \<^verbatim>\<open>env_var_raii.cpp\<close>, \<^verbatim>\<open>temp_dir.cpp\<close>: each handle is freed once, variables are restored, temporary
    files are removed by their one owner.

  \<^item> \<^verbatim>\<open>FileTrigger\<close>, \<^verbatim>\<open>TriggerSetup\<close>, \<^verbatim>\<open>TriggerRefine\<close>: \<^verbatim>\<open>file_trigger_linux.cpp\<close>, \<^verbatim>\<open>file_trigger_apple.cpp\<close>, \<^verbatim>\<open>file_trigger_win32.cpp\<close>. The first interleaves
    constructor, worker and \<open>stop\<close> with writers of the file (\<open>ft_reach\<close>, \<open>wt_reach\<close>): every byte is delivered once and in order. The
    second has factories, constructors and loops as sequences of calls: on every error path all descriptors are closed (interface
    \<open>trigger_maker\<close>), and the loops of Linux and macOS agree. The third relates the two: each run of the interleaved worker is a sequence
    of results of calls on which the loop delivers the same and ends the same way.

  \<^item> \<^verbatim>\<open>HttpClient\<close>: \<^verbatim>\<open>http_client.cpp\<close>: clients over the options they leave with a libcurl handle: which pointers are good at a transfer;
    the match of a URL.

  \<^item> \<^verbatim>\<open>DeadLock\<close>, \<^verbatim>\<open>SignalBarrier\<close>: \<^verbatim>\<open>dead_lock_detect.cpp\<close>, \<^verbatim>\<open>signal_barrier.cpp\<close>, \<^verbatim>\<open>signal_barrier_common.cpp\<close>, \<^verbatim>\<open>signal_barrier_linux.cpp\<close>: an alert
    exactly when an executor is overdue; the waits return, restore the handlers and close their descriptors.

  \<^item> \<^verbatim>\<open>MultiRunner\<close>, \<^verbatim>\<open>RunnerLinux\<close>, \<^verbatim>\<open>RunnerMac\<close>, \<^verbatim>\<open>RunnerWindows\<close>: \<^verbatim>\<open>bin/main_linux.cpp\<close>, \<^verbatim>\<open>bin/main_macos.cpp\<close>, \<^verbatim>\<open>bin/main_win32.cpp\<close>. The interface
    \<open>supervisor\<close> relates a runner to a specification that consumes the ends of the copies and the signals one by one; the three versions
    are instances. On Linux a kernel with merged signals, pipes and reaping runs beside the loop: no end is lost, the output is
    complete and in order, and \<open>main\<close> returns the first failure. This theory states that the three versions agree.
    \<^verbatim>\<open>MultiTest\<close>: \<^verbatim>\<open>bin/test/main_test.cpp\<close> on Linux, composed of the models of initialisation, logger, environment, argument editor and signal
    barrier: it returns with the number of the signal, its lines written and its descriptors closed.
    \<^verbatim>\<open>SpfResolver\<close>: \<^verbatim>\<open>spf_resolver/main.cpp\<close>, which reads its options and makes no lookup yet, over the functions of Boost.Program_options.

  \<^item> \<^verbatim>\<open>Backtrace\<close>: \<^verbatim>\<open>exception.cpp\<close>, \<^verbatim>\<open>exception.hpp\<close>, \<^verbatim>\<open>macros.hpp\<close>, \<^verbatim>\<open>backtrace_linux.cpp\<close>, \<^verbatim>\<open>backtrace_win32.cpp\<close>, \<^verbatim>\<open>backtrace_common.cpp\<close>: the text that is
    printed for nested exceptions and frames, the base of the stream's numbers included, and when the printing itself throws or ends
    the process.
    \<^verbatim>\<open>Support\<close>: \<^verbatim>\<open>memory.hpp\<close>, \<^verbatim>\<open>ro_buffer.hpp\<close>, \<^verbatim>\<open>scope_exit.hpp\<close>, \<^verbatim>\<open>unlock_guard.hpp\<close>, \<^verbatim>\<open>global_init.cpp\<close>: the buffer is never written, guards
    restore the locks, initialisation is undone.
    \<^verbatim>\<open>Numeric\<close>: \<^verbatim>\<open>math.hpp\<close>, \<^verbatim>\<open>math.cpp\<close>, \<^verbatim>\<open>c_timezone.cpp\<close>, \<^verbatim>\<open>c_timezone.hpp\<close>, \<^verbatim>\<open>base64.hpp\<close>: comparison and roundings, conversions of times and
    base64 are inverse to each other; \<^verbatim>\<open>Base64Demo\<close> has an instance of the library's part of base64.
    \<^verbatim>\<open>Composition\<close>: the places where components meet: the trace of libcurl in the log, text forms of hashes, the random
    engine of a thread. \<^verbatim>\<open>Accessors\<close>: the small members of several headers (iterators and sizes of the vector, comparisons of
    handles and time zones, the stop watch and durations, the constructors of temporary files) on the models above.

  \<^bold>\<open>Not modelled.\<close> \<^verbatim>\<open>compiler.hpp\<close>, \<^verbatim>\<open>version.hpp\<close>, forward declarations and the probes under \<^verbatim>\<open>cmake/\<close> have no run-time behaviour; the
  text of \<^verbatim>\<open>version()\<close> is generated by the build. \<^verbatim>\<open>multi_test\<close> is modelled with the signal barrier of Linux only. Floating-point values are
  exact rationals with the special values; the rounding of the difference and of the default tolerance in \<^verbatim>\<open>float_eq\<close> is a parameter, and no
  other operation is rounded; parsing of floating-point text is left to the library. Data
  races within a step that the models take as atomic, spurious events of \<^verbatim>\<open>epoll\<close>, threads that cannot be started, the failure of
  allocations other than the vector's, and the quality of random names are outside of the model.
\<close>

section \<open>The three runners\<close>

text \<open>The order in which the copies end, as numbers of copies with their exit codes, in the terms of the three versions.\<close>

definition linux_ends :: "int list \<Rightarrow> (nat \<times> nat) list \<Rightarrow> (int \<times> wait_status) list" where
  "linux_ends pids es = map (\<lambda>(i, c). (pids ! i, Exited c)) es"

definition win_ends :: "nat list \<Rightarrow> (nat \<times> nat) list \<Rightarrow> (nat \<times> dword option) list" where
  "win_ends handles es = map (\<lambda>(i, c). (handles ! i, Some (word_of_nat c))) es"

lemma win_code_byte: "c < 256 \<Longrightarrow> win_code (Some (word_of_nat c)) = int c"
  by (simp add: win_code_def sint_uint unsigned_of_nat take_bit_nat_eq_self signed_take_bit_int_eq_self)
lemma first_failure_ends:
  assumes "\<forall>(i, c) \<in> set es. c < 256"
  shows "first_failure win_code (win_ends hs es) = first_failure status_code (linux_ends pids es)"
  using assms
proof (induction es)
  case (Cons e es)
  obtain i c where e: "e = (i, c)" by (cases e)
  have "win_code (Some (word_of_nat c)) = int c"
    using Cons.prems e by (simp add: win_code_byte)
  then show ?case using Cons e by (simp add: win_ends_def linux_ends_def)
qed (simp add: win_ends_def linux_ends_def)

lemma map_remove1_inj: "inj_on f (insert x (set xs)) \<Longrightarrow> remove1 (f x) (map f xs) = map f (remove1 x xs)"
  by (induction xs) (auto simp: inj_on_def)

lemma told_to_end_positions:
  assumes "distinct xs" "distinct (map fst es)" "set (map fst es) \<subseteq> set js" "set js \<subseteq> {..<length xs}" "distinct js"
    "\<forall>(i, c) \<in> set es. code (f c) = 0 \<longleftrightarrow> c = (0 :: nat)"
  shows "told_to_end code (map (\<lambda>(i, c). (xs ! i, f c)) es) (map ((!) xs) js) = map ((!) xs) (told_to_end int es js)"
  using assms(2-6)
proof (induction es arbitrary: js)
  case (Cons e es)
  obtain i c where e: "e = (i, c)" by (cases e)
  have inj: "inj_on ((!) xs) (set js)" using Cons.prems(3) assms(1) by (intro inj_on_nth) auto
  have "i \<in> set js" using Cons.prems(2) e by simp
  then have rm: "remove1 (xs ! i) (map ((!) xs) js) = map ((!) xs) (remove1 i js)"
    using map_remove1_inj [of "(!) xs" i js] inj by (simp add: insert_absorb)
  have "set (map fst es) \<subseteq> set (remove1 i js)" using Cons.prems e by auto
  moreover have "set (remove1 i js) \<subseteq> {..<length xs}" using Cons.prems(3) set_remove1_subset by fast
  ultimately show ?case using Cons.IH [of "remove1 i js"] Cons.prems e by (simp add: rm)
qed simp

lemma supervise_positions:
  assumes "distinct xs" "mset (map fst es) = mset [0..<length xs]"
  shows "mset (map fst (map (\<lambda>(i, c). (xs ! i, f c)) es)) = mset xs" "distinct (map fst es)" "set (map fst es) \<subseteq> set [0..<length xs]"
proof -
  have "map fst (map (\<lambda>(i, c). (xs ! i, f c)) es) = map ((!) xs) (map fst es)" by (simp add: case_prod_beta o_def)
  then have "mset (map fst (map (\<lambda>(i, c). (xs ! i, f c)) es)) = image_mset ((!) xs) (mset [0..<length xs])"
    by (metis assms(2) mset_map)
  also have "\<dots> = mset xs" by (metis map_nth mset_map)
  finally show "mset (map fst (map (\<lambda>(i, c). (xs ! i, f c)) es)) = mset xs" .
  show "distinct (map fst es)" using assms(2) distinct_upt mset_eq_imp_distinct_iff by blast
  show "set (map fst es) \<subseteq> set [0..<length xs]" using mset_eq_setD [OF assms(2)] by simp
qed

lemma live_pids_start: "started_ok ps \<Longrightarrow> live_pids (runner_start ps) = map pr_pid ps \<and> distinct (map pr_pid ps)"
  by (simp add: started_ok_def live_pids_def runner_start_def validPid_def list_all_iff)


lemma told_positions:
  assumes "distinct xs" "mset (map fst es) = mset [0..<length xs]" "\<forall>(i, c) \<in> set es. code (f c) = 0 \<longleftrightarrow> c = (0 :: nat)"
  shows "told_to_end code (map (\<lambda>(i, c). (xs ! i, f c)) es) xs = map ((!) xs) (told_to_end int es [0..<length xs])"
  using told_to_end_positions [OF assms(1) supervise_positions(2,3) [OF assms(1,2)], of code f] assms(3) map_nth [of xs]
  by (simp add: lessThan_atLeast0)

lemma first_failure_linux: "first_failure status_code (linux_ends xs es) = first_failure int es"
  by (induction es) (auto simp: linux_ends_def)

lemma linux_positions:
  assumes "started_ok ps" "mset (map fst es) = mset [0..<length ps]"
  shows "l_exit (supervise child_ended (linux_ends (map pr_pid ps) es) (runner_start ps)) = (case first_failure int es of None \<Rightarrow> 0 | Some c \<Rightarrow> c) \<and>
    l_kills (supervise child_ended (linux_ends (map pr_pid ps) es) (runner_start ps)) =
      map (\<lambda>i. (pr_pid (ps ! i), SIGTERM)) (told_to_end int es [0..<length ps])"
proof -
  let ?lp = "map pr_pid ps"
  have d: "distinct ?lp" and m: "mset (map fst es) = mset [0..<length ?lp]" using live_pids_start assms by auto
  have "mset (map fst (linux_ends ?lp es)) = mset ?lp" unfolding linux_ends_def by (rule supervise_positions(1) [OF d m])
  note all = linux.supervise_all(2,3) [of "runner_start ps" "linux_ends ?lp es", unfolded live_pids_start [OF assms(1), THEN conjunct1], OF d _ this]
  have "told_to_end status_code (linux_ends ?lp es) ?lp = map ((!) ?lp) (told_to_end int es [0..<length ps])"
    using told_positions [OF d m, of status_code Exited] by (simp add: linux_ends_def case_prod_beta)
  moreover have "set (told_to_end int es [0..<length ps]) \<subseteq> {0..<length ps}" using told_to_end_subset [of int es "[0..<length ps]"] by simp
  ultimately show ?thesis
    using all by (auto simp: runner_start_def first_failure_linux split: option.split)
qed

lemma mac_positions:
  assumes "distinct pids" "mset (map fst es) = mset [0..<length pids]"
  shows "m_exit (supervise mac_child_ended (linux_ends pids es) (mac_start pids)) = (case first_failure int es of None \<Rightarrow> 0 | Some c \<Rightarrow> c) \<and>
    m_kills (supervise mac_child_ended (linux_ends pids es) (mac_start pids)) =
      map (\<lambda>i. (pids ! i, SIGTERM)) (told_to_end int es [0..<length pids])"
proof -
  have "mset (map fst (linux_ends pids es)) = mset pids" unfolding linux_ends_def by (rule supervise_positions(1) [OF assms])
  then show ?thesis
    using mac.supervise_all(2,3) [of "mac_start pids" "linux_ends pids es"] assms(1)
      told_positions [OF assms, of status_code Exited, folded linux_ends_def]
    by (simp add: mac_start_def first_failure_linux split: option.split)
qed

lemma win_positions:
  assumes "runner_win_inv w" "w_send_close w" "mset (map fst es) = mset [0..<length (d_pids (w_data w))]" "\<forall>(i, c) \<in> set es. c < 256"
  shows "d_exit (w_data (supervise win_reap (win_ends (d_pids (w_data w)) es) w)) =
      (case first_failure int es of None \<Rightarrow> d_exit (w_data w) | Some c \<Rightarrow> c) \<and>
    d_sent (w_data (supervise win_reap (win_ends (d_pids (w_data w)) es) w)) = d_sent (w_data w) @
      map (\<lambda>i. (2, the (handle_to_pid (w_data w) (d_pids (w_data w) ! i)))) (told_to_end int es [0..<length (d_pids (w_data w))])"
proof -
  let ?hs = "d_pids (w_data w)" and ?f = "\<lambda>c. Some (word_of_nat c :: dword)"
  have w: "win_ok w" "\<not> \<not> w_send_close w" "distinct ?hs" using assms(1,2) by (simp_all add: runner_win_inv_def win_ok_def Let_def)
  have "mset (map fst (win_ends ?hs es)) = mset ?hs" unfolding win_ends_def by (rule supervise_positions(1) [OF w(3) assms(3)])
  note all = win.supervise_all(2,3) [OF w(1,2) this]
  have "\<forall>(i, c) \<in> set es. win_code (?f c) = 0 \<longleftrightarrow> c = 0" using assms(4) win_code_byte [of 0] by (auto simp: win_code_byte)
  then have "told_to_end win_code (win_ends ?hs es) ?hs = map ((!) ?hs) (told_to_end int es [0..<length ?hs])"
    unfolding win_ends_def by (rule told_positions [OF w(3) assms(3)])
  moreover have "first_failure win_code (win_ends ?hs es) = first_failure int es"
    using first_failure_ends [OF assms(4)] first_failure_linux by metis
  ultimately show ?thesis using all by simp
qed

text \<open>C19. The three versions of the runner agree: when the copies end in the same order with the same exit codes, all three have the
  same exit code, that of the first copy that failed, and have told the same copies to end.\<close>

theorem runner_platforms_agree:
  assumes "started_ok ps" "distinct pids" "length pids = length ps"
    "runner_win_inv w" "w_send_close w" "d_exit (w_data w) = 0" "d_sent (w_data w) = []" "length (d_pids (w_data w)) = length ps"
    "mset (map fst es) = mset [0..<length ps]" "\<forall>(i, c) \<in> set es. c < 256"
  shows "let l = supervise child_ended (linux_ends (map pr_pid ps) es) (runner_start ps);
             m = supervise mac_child_ended (linux_ends pids es) (mac_start pids);
             v = supervise win_reap (win_ends (d_pids (w_data w)) es) w;
             told = told_to_end int es [0..<length ps]
    in l_exit l = m_exit m \<and> d_exit (w_data v) = m_exit m \<and> m_exit m = (case first_failure int es of None \<Rightarrow> 0 | Some c \<Rightarrow> c) \<and>
       l_kills l = map (\<lambda>i. (pr_pid (ps ! i), SIGTERM)) told \<and> m_kills m = map (\<lambda>i. (pids ! i, SIGTERM)) told \<and>
       d_sent (w_data v) = map (\<lambda>i. (2, the (handle_to_pid (w_data w) (d_pids (w_data w) ! i)))) told"
  using linux_positions [OF assms(1,9)] mac_positions [OF assms(2)] win_positions [OF assms(4,5) _ assms(10)] assms(3,6-9)
  by (simp add: Let_def split: option.split)

definition demo_pair :: "process list" where
  "demo_pair = [\<lparr>pr_pid = 100, read_fd = 3, write_fd = 4\<rparr>, \<lparr>pr_pid = 101, read_fd = 5, write_fd = 6\<rparr>]"

theorem runner_platforms_agree_witness:
  "l_exit (supervise child_ended (linux_ends [100, 101] [(1, 7), (0, 0)]) (runner_start demo_pair)) = 7 \<and>
   l_kills (supervise child_ended (linux_ends [100, 101] [(1, 7), (0, 0)]) (runner_start demo_pair)) = [(100, SIGTERM)] \<and>
   m_exit (supervise mac_child_ended (linux_ends [10, 11] [(1, 7), (0, 0)]) (mac_start [10, 11])) = 7 \<and>
   d_exit (w_data (supervise win_reap (win_ends [10, 20] [(1, 7), (0, 0)]) win_demo)) = 7"
proof -
  have d: "d_exit (w_data win_demo) = 0" "d_sent (w_data win_demo) = []"
    by (simp_all add: win_demo_def Data_push_back_def Data_new_def)
  have "started_ok demo_pair" by (simp add: demo_pair_def started_ok_def)
  from runner_platforms_agree [OF this, of "[10, 11]" win_demo "[(1, 7), (0, 0)]"] win_demo_inv d
  show ?thesis by (simp add: demo_pair_def Let_def upt_rec)
qed

end
